(* ===== verification/Prelude.thy ===== *)
theory Prelude
  imports
    Main
    "HOL-Library.Word"
    "HOL-Library.AList"
    "HOL-Library.Sublist"
    "HOL-Library.List_Lexorder"
begin

text \<open>
  Shared vocabulary of the development: Go's byte and integer types at their width, error
  values, the ways a goroutine can end, byte-order and big-endian conversions of the standard
  library, timestamps, and the generic list lemmas the component theories use.
\<close>

unbundle bit_operations_syntax

named_theorems go_simps \<open>unfolding rules for the small library functions of the model\<close>

section \<open>Types\<close>

type_synonym byte = "8 word"
type_synonym bytes = "byte list"
type_synonym int32 = "32 word"
type_synonym uint32 = "32 word"
type_synonym int64 = "64 word"

text \<open>
  A Go \<open>error\<close> value. Plain errors carry their text; the gRPC methods also build status errors.
\<close>

datatype codes = Unimplemented | NotFound | Internal

datatype error = Errorf string | Status codes string

fun code_text :: "codes \<Rightarrow> string" where
  "code_text Unimplemented = ''Unimplemented''"
| "code_text NotFound = ''NotFound''"
| "code_text Internal = ''Internal''"

text \<open>The text that \<open>err.Error()\<close> returns.\<close>

fun err_text :: "error \<Rightarrow> string" where
  "err_text (Errorf m) = m"
| "err_text (Status c m) = ''rpc error: code = '' @ code_text c @ '' desc = '' @ m"

text \<open>
  How a call ends: it returns a value, panics, or waits for ever (within the inputs given).
\<close>

datatype 'a outcome = Returned 'a | Panicked string | Waiting

section \<open>Strings, bytes and integers\<close>

text \<open>A Go string is a byte sequence; \<open>[]byte(s)\<close> copies it.\<close>

definition bytes_of :: "string \<Rightarrow> bytes" where
  "bytes_of s = map of_char s"

lemma bytes_of_simps [simp]:
  "bytes_of [] = []"
  "bytes_of (c # s) = of_char c # bytes_of s"
  "length (bytes_of s) = length s"
  by (simp_all add: bytes_of_def)

lemma bytes_of_append: "bytes_of (s @ t) = bytes_of s @ bytes_of t"
  by (simp add: bytes_of_def)

lemma unat_of_char [simp]: "unat (of_char c :: byte) = of_char c"
proof -
  have "(of_char c :: byte) = word_of_nat (of_char c)"
    by (metis of_nat_of_char)
  moreover have "(of_char c :: nat) < 256"
    by (rule nat_of_char_less_256)
  ultimately show ?thesis
    by (simp add: unat_of_nat)
qed

lemma of_char_byte_eq [simp]: "(of_char c :: byte) = of_char d \<longleftrightarrow> c = d"
  by (metis unat_of_char char_of_char)

text \<open>\<open>string(b)\<close>: the bytes as a string.\<close>

definition string_of :: "bytes \<Rightarrow> string" where
  "string_of bs = map (\<lambda>b. char_of (unat b)) bs"

lemma string_of_bytes_of [simp]: "string_of (bytes_of s) = s"
  by (induction s) (simp_all add: string_of_def bytes_of_def)

lemma bytes_of_inject [simp]: "bytes_of s = bytes_of t \<longleftrightarrow> s = t"
  by (induction s arbitrary: t) (auto simp: bytes_of_def map_eq_Cons_conv Cons_eq_map_conv)

lemma prefix_bytes_of [simp]: "prefix (bytes_of s) (bytes_of t) \<longleftrightarrow> prefix s t"
proof (induction s arbitrary: t)
  case (Cons c s)
  then show ?case by (cases t) auto
qed simp

text \<open>\<open>new(big.Int).SetBytes(b)\<close> and \<open>x.Bytes()\<close>: unsigned big-endian, no leading zeroes.\<close>

definition be_nat :: "bytes \<Rightarrow> nat" where
  "be_nat bs = foldl (\<lambda>a b. a * 256 + unat b) 0 bs"

fun nat_be :: "nat \<Rightarrow> bytes" where
  "nat_be n = (if n = 0 then [] else nat_be (n div 256) @ [word_of_nat (n mod 256)])"

declare nat_be.simps [simp del]

lemma nat_be_0 [simp]: "nat_be 0 = []"
  by (simp add: nat_be.simps)

lemma be_nat_Nil [simp]: "be_nat [] = 0"
  by (simp add: be_nat_def)

lemma be_nat_snoc [simp]: "be_nat (bs @ [b]) = be_nat bs * 256 + unat b"
  by (simp add: be_nat_def)

lemma be_nat_nat_be: "be_nat (nat_be n) = n"
proof (induction n rule: nat_be.induct)
  case (1 n)
  then show ?case
    by (subst nat_be.simps) (auto simp: unat_of_nat)
qed

lemma nat_be_mult_add:
  assumes "n \<noteq> 0 \<or> b \<noteq> 0"
  shows "nat_be (n * 256 + unat (b :: byte)) = nat_be n @ [b]"
proof -
  have b: "unat b < 256"
    using unsigned_less [of b, where 'a = nat] by simp
  then have "(n * 256 + unat b) mod 256 = unat b" and "(n * 256 + unat b) div 256 = n"
    by simp_all
  moreover from assms have "n * 256 + unat b \<noteq> 0"
    by (auto simp: unat_eq_0)
  ultimately show ?thesis
    by (subst nat_be.simps) simp
qed

lemma be_nat_eq_0: "be_nat bs = 0 \<longleftrightarrow> (\<forall>b \<in> set bs. b = 0)"
  by (induction bs rule: rev_induct) (auto simp: unat_eq_0)

lemma dropWhile_snoc_zero:
  "dropWhile (\<lambda>c. c = (0 :: byte)) (bs @ [b]) =
     (if be_nat bs = 0 then (if b = 0 then [] else [b]) else dropWhile (\<lambda>c. c = 0) bs @ [b])"
  by (auto simp: be_nat_eq_0 dropWhile_append dropWhile_eq_Nil_conv)

lemma nat_be_be_nat: "nat_be (be_nat bs) = dropWhile (\<lambda>c. c = 0) bs"
proof (induction bs rule: rev_induct)
  case (snoc b bs)
  show ?case
  proof (cases "be_nat bs = 0 \<and> b = 0")
    case True
    then have "be_nat (bs @ [b]) = 0" and "dropWhile (\<lambda>c. c = 0) (bs @ [b]) = []"
      unfolding dropWhile_snoc_zero by simp_all
    then show ?thesis by (simp only: nat_be_0)
  next
    case False
    then have "nat_be (be_nat (bs @ [b])) = dropWhile (\<lambda>c. c = 0) bs @ [b]"
      using nat_be_mult_add [of "be_nat bs" b] snoc by auto
    moreover have "be_nat bs = 0 \<Longrightarrow> dropWhile (\<lambda>c. c = 0) bs = []"
      using snoc by simp
    ultimately show ?thesis
      using False by (auto simp: dropWhile_snoc_zero)
  qed
qed simp

text \<open>\<open>binary.LittleEndian.PutUint32\<close> and \<open>Uint32\<close> on a four-byte slice.\<close>

definition put_uint32 :: "uint32 \<Rightarrow> bytes" where
  "put_uint32 v = [ucast v, ucast (drop_bit 8 v), ucast (drop_bit 16 v), ucast (drop_bit 24 v)]"

fun get_uint32 :: "bytes \<Rightarrow> uint32" where
  "get_uint32 [a, b, c, d] =
     ucast a OR push_bit 8 (ucast b) OR push_bit 16 (ucast c) OR push_bit 24 (ucast d)"
| "get_uint32 _ = 0"

lemma length_put_uint32 [simp]: "length (put_uint32 v) = 4"
  by (simp add: put_uint32_def)

lemma get_put_uint32 [simp]: "get_uint32 (put_uint32 v) = v"
  unfolding put_uint32_def get_uint32.simps
proof (rule bit_word_eqI)
  fix n
  assume n: "n < LENGTH(32)"
  then have n: "n < 32" by simp
  consider "n < 8" | "8 \<le> n \<and> n < 16" | "16 \<le> n \<and> n < 24" | "24 \<le> n"
    by linarith
  then show "bit (ucast (ucast v :: byte) OR push_bit 8 (ucast (ucast (drop_bit 8 v) :: byte))
      OR push_bit 16 (ucast (ucast (drop_bit 16 v) :: byte))
      OR push_bit 24 (ucast (ucast (drop_bit 24 v) :: byte)) :: uint32) n = bit v n"
    using n by cases (auto simp: bit_simps)
qed

section \<open>Time\<close>

text \<open>
  \<open>timestamppb.Timestamp\<close> and the part of \<open>time.Time\<close> the code compares: seconds since year 1
  (64 bits, wrapping) and nanoseconds. \<open>AsTime\<close> of a nil timestamp is the Unix epoch.
\<close>

record Timestamp =
  ts_Seconds :: int64
  ts_Nanos :: int32

record Time =
  t_sec :: int64
  t_nsec :: int

definition unixToInternal :: int64 where
  "unixToInternal = 62135596800"

definition time_Unix :: "int64 \<Rightarrow> int32 \<Rightarrow> Time" where
  "time_Unix s n =
     (let ns = sint n; q = (if ns < 0 then - ((- ns) div 1000000000) else ns div 1000000000);
          r = ns - q * 1000000000; s1 = s + word_of_int q
      in if r < 0 then \<lparr>t_sec = s1 - 1 + unixToInternal, t_nsec = r + 1000000000\<rparr>
         else \<lparr>t_sec = s1 + unixToInternal, t_nsec = r\<rparr>)"

definition AsTime :: "Timestamp option \<Rightarrow> Time" where
  "AsTime t = (case t of None \<Rightarrow> time_Unix 0 0 | Some t \<Rightarrow> time_Unix (ts_Seconds t) (ts_Nanos t))"

definition time_After :: "Time \<Rightarrow> Time \<Rightarrow> bool" where
  "time_After t u \<longleftrightarrow> t_sec u <s t_sec t \<or> t_sec t = t_sec u \<and> t_nsec u < t_nsec t"

text \<open>\<open>After\<close> is the strict order of an integer key, so it is a total order on times.\<close>

definition time_key :: "Time \<Rightarrow> int" where
  "time_key t = sint (t_sec t) * 1000000000 + t_nsec t"

lemma AsTime_nsec: "0 \<le> t_nsec (AsTime t) \<and> t_nsec (AsTime t) < 1000000000"
  by (auto simp: AsTime_def time_Unix_def Let_def split: option.splits)

lemma time_After_key:
  "time_After (AsTime t) (AsTime u) \<longleftrightarrow> time_key (AsTime u) < time_key (AsTime t)"
proof -
  let ?a = "AsTime t" and ?b = "AsTime u"
  have "0 \<le> t_nsec ?a" "t_nsec ?a < 1000000000" "0 \<le> t_nsec ?b" "t_nsec ?b < 1000000000"
    using AsTime_nsec by blast+
  moreover have "t_sec ?a = t_sec ?b \<longleftrightarrow> sint (t_sec ?a) = sint (t_sec ?b)"
    by (auto intro: signed_word_eqI)
  ultimately show ?thesis
    by (auto simp: time_After_def time_key_def word_sless_alt)
qed

section \<open>Lists and association lists\<close>

lemma set_update_sub: "set (AList.update k v xs) \<subseteq> insert (k, v) (set xs)"
  by (induction xs) auto

lemma AList_update_Nil [simp]: "AList.update k v xs \<noteq> []"
  by (induction xs) auto

lemma length_AList_update:
  "distinct (map fst xs) \<Longrightarrow> length (AList.update k v xs) = length xs + (if k \<in> fst ` set xs then 0 else 1)"
  by (induction xs) auto

lemma update_new_key: "k \<notin> fst ` set xs \<Longrightarrow> AList.update k v xs = xs @ [(k, v)]"
  by (induction xs) auto

lemma unat_of_nat_int32: "k < 2 ^ 32 \<Longrightarrow> unat (of_nat k :: int32) = k"
  by (simp add: unat_of_nat take_bit_nat_eq_self)

lemma sint_of_nat_int32: "k < 2 ^ 31 \<Longrightarrow> sint (of_nat k :: int32) = int k"
  by (simp add: signed_of_nat signed_take_bit_int_eq_self)

lemma sum_list_map_update:
  fixes w :: "'a \<Rightarrow> nat"
  assumes "i < length xs"
  shows "sum_list (map w (xs[i := y])) + w (xs ! i) = sum_list (map w xs) + w y"
  using assms by (induction xs arbitrary: i) (auto simp: nth_Cons split: nat.splits)

lemma length_filter_update:
  "i < length xs \<Longrightarrow> \<not> P (xs ! i) \<Longrightarrow>
     length (filter P (xs[i := y])) = length (filter P xs) + (if P y then 1 else 0)"
  by (induction xs arbitrary: i) (auto simp: nth_Cons split: nat.splits)

lemma update_snd_sub: "set (map snd (AList.update k v xs)) \<subseteq> insert v (set (map snd xs))"
  by (induction xs) auto

lemma update_snd_distinct: "distinct (map snd xs) \<Longrightarrow> v \<notin> set (map snd xs) \<Longrightarrow> distinct (map snd (AList.update k v xs))"
proof (induction xs)
  case (Cons p xs)
  then show ?case using update_snd_sub [of k v xs] by (cases p) auto
qed simp

end
