(* ===== verification/Proto.thy ===== *)
theory Proto
  imports Prelude
begin

text \<open>
  The messages of \<open>tss/tss.pb.go\<close>: one record per struct (without the protobuf runtime's
  bookkeeping fields), the oneof of \<open>TssP2PMsg\<close> as a datatype, and the generated getters, which
  accept a nil receiver. A pointer that can be nil is an \<open>option\<close>; \<open>nil\<close> and empty byte slices
  are not told apart, as on the wire.
\<close>

section \<open>KeyStatus\<close>

text \<open>The Go type is an open \<open>int32\<close>: a message may carry a number that has no name.\<close>

type_synonym KeyStatus = int32

definition KEY_STATUS_UNKNOWN :: KeyStatus where "KEY_STATUS_UNKNOWN = 0"
definition KEY_STATUS_PENDING :: KeyStatus where "KEY_STATUS_PENDING = 1"
definition KEY_STATUS_READY :: KeyStatus where "KEY_STATUS_READY = 2"
definition KEY_STATUS_ERROR :: KeyStatus where "KEY_STATUS_ERROR = 3"

lemmas KeyStatus_defs =
  KEY_STATUS_UNKNOWN_def KEY_STATUS_PENDING_def KEY_STATUS_READY_def KEY_STATUS_ERROR_def

lemma KeyStatus_distinct [simp]:
  "KEY_STATUS_UNKNOWN \<noteq> KEY_STATUS_PENDING" "KEY_STATUS_PENDING \<noteq> KEY_STATUS_UNKNOWN"
  "KEY_STATUS_UNKNOWN \<noteq> KEY_STATUS_READY" "KEY_STATUS_READY \<noteq> KEY_STATUS_UNKNOWN"
  "KEY_STATUS_UNKNOWN \<noteq> KEY_STATUS_ERROR" "KEY_STATUS_ERROR \<noteq> KEY_STATUS_UNKNOWN"
  "KEY_STATUS_PENDING \<noteq> KEY_STATUS_READY" "KEY_STATUS_READY \<noteq> KEY_STATUS_PENDING"
  "KEY_STATUS_PENDING \<noteq> KEY_STATUS_ERROR" "KEY_STATUS_ERROR \<noteq> KEY_STATUS_PENDING"
  "KEY_STATUS_READY \<noteq> KEY_STATUS_ERROR" "KEY_STATUS_ERROR \<noteq> KEY_STATUS_READY"
  by (simp_all add: KeyStatus_defs)

definition KeyStatus_name :: "int32 \<Rightarrow> string option" where
  "KeyStatus_name = map_of
     [(0, ''KEY_STATUS_UNKNOWN''), (1, ''KEY_STATUS_PENDING''),
      (2, ''KEY_STATUS_READY''), (3, ''KEY_STATUS_ERROR'')]"

definition KeyStatus_value :: "string \<Rightarrow> int32 option" where
  "KeyStatus_value = map_of
     [(''KEY_STATUS_UNKNOWN'', 0), (''KEY_STATUS_PENDING'', 1),
      (''KEY_STATUS_READY'', 2), (''KEY_STATUS_ERROR'', 3)]"

section \<open>Messages and their getters\<close>

datatype KeyGenReadyMsg = KeyGenReadyMsg

datatype KeyGenStartMsg = KeyGenStartMsg

datatype KeySignReadyMsg = KeySignReadyMsg

datatype KeySignCancelMsg = KeySignCancelMsg

record PartyID =
  pid_Id :: string
  pid_Moniker :: string
  pid_Key :: bytes

definition PartyID_GetId :: "PartyID option \<Rightarrow> string" where
  [go_simps]: "PartyID_GetId x = (case x of None \<Rightarrow> [] | Some x \<Rightarrow> pid_Id x)"

definition PartyID_GetMoniker :: "PartyID option \<Rightarrow> string" where
  [go_simps]: "PartyID_GetMoniker x = (case x of None \<Rightarrow> [] | Some x \<Rightarrow> pid_Moniker x)"

definition PartyID_GetKey :: "PartyID option \<Rightarrow> bytes" where
  [go_simps]: "PartyID_GetKey x = (case x of None \<Rightarrow> [] | Some x \<Rightarrow> pid_Key x)"

record KeyData =
  kd_KeyId :: string
  kd_KeySessionId :: string
  kd_Threshold :: int32
  kd_AllPartyId :: "PartyID list"
  kd_Pubkey :: bytes
  kd_Status :: KeyStatus
  kd_SaveDataJson :: string
  kd_CreatedTime :: "Timestamp option"
  kd_UpdatedTime :: "Timestamp option"

definition KeyData_GetKeyId :: "KeyData option \<Rightarrow> string" where
  [go_simps]: "KeyData_GetKeyId x = (case x of None \<Rightarrow> [] | Some x \<Rightarrow> kd_KeyId x)"

definition KeyData_GetKeySessionId :: "KeyData option \<Rightarrow> string" where
  [go_simps]: "KeyData_GetKeySessionId x = (case x of None \<Rightarrow> [] | Some x \<Rightarrow> kd_KeySessionId x)"

definition KeyData_GetThreshold :: "KeyData option \<Rightarrow> int32" where
  [go_simps]: "KeyData_GetThreshold x = (case x of None \<Rightarrow> 0 | Some x \<Rightarrow> kd_Threshold x)"

definition KeyData_GetAllPartyId :: "KeyData option \<Rightarrow> PartyID list" where
  [go_simps]: "KeyData_GetAllPartyId x = (case x of None \<Rightarrow> [] | Some x \<Rightarrow> kd_AllPartyId x)"

definition KeyData_GetPubkey :: "KeyData option \<Rightarrow> bytes" where
  [go_simps]: "KeyData_GetPubkey x = (case x of None \<Rightarrow> [] | Some x \<Rightarrow> kd_Pubkey x)"

definition KeyData_GetStatus :: "KeyData option \<Rightarrow> KeyStatus" where
  [go_simps]: "KeyData_GetStatus x = (case x of None \<Rightarrow> KEY_STATUS_UNKNOWN | Some x \<Rightarrow> kd_Status x)"

definition KeyData_GetSaveDataJson :: "KeyData option \<Rightarrow> string" where
  [go_simps]: "KeyData_GetSaveDataJson x = (case x of None \<Rightarrow> [] | Some x \<Rightarrow> kd_SaveDataJson x)"

definition KeyData_GetCreatedTime :: "KeyData option \<Rightarrow> Timestamp option" where
  [go_simps]: "KeyData_GetCreatedTime x = (case x of None \<Rightarrow> None | Some x \<Rightarrow> kd_CreatedTime x)"

definition KeyData_GetUpdatedTime :: "KeyData option \<Rightarrow> Timestamp option" where
  [go_simps]: "KeyData_GetUpdatedTime x = (case x of None \<Rightarrow> None | Some x \<Rightarrow> kd_UpdatedTime x)"

record KeyGenPrepareMsg =
  kgp_SessionId :: string
  kgp_KeyId :: string
  kgp_Threshold :: int32
  kgp_AllPartyId :: "PartyID list"
  kgp_Deadline :: "Timestamp option"

definition KeyGenPrepareMsg_GetSessionId :: "KeyGenPrepareMsg option \<Rightarrow> string" where
  [go_simps]: "KeyGenPrepareMsg_GetSessionId x = (case x of None \<Rightarrow> [] | Some x \<Rightarrow> kgp_SessionId x)"

definition KeyGenPrepareMsg_GetKeyId :: "KeyGenPrepareMsg option \<Rightarrow> string" where
  [go_simps]: "KeyGenPrepareMsg_GetKeyId x = (case x of None \<Rightarrow> [] | Some x \<Rightarrow> kgp_KeyId x)"

definition KeyGenPrepareMsg_GetThreshold :: "KeyGenPrepareMsg option \<Rightarrow> int32" where
  [go_simps]: "KeyGenPrepareMsg_GetThreshold x = (case x of None \<Rightarrow> 0 | Some x \<Rightarrow> kgp_Threshold x)"

definition KeyGenPrepareMsg_GetAllPartyId :: "KeyGenPrepareMsg option \<Rightarrow> PartyID list" where
  [go_simps]: "KeyGenPrepareMsg_GetAllPartyId x = (case x of None \<Rightarrow> [] | Some x \<Rightarrow> kgp_AllPartyId x)"

definition KeyGenPrepareMsg_GetDeadline :: "KeyGenPrepareMsg option \<Rightarrow> Timestamp option" where
  [go_simps]: "KeyGenPrepareMsg_GetDeadline x = (case x of None \<Rightarrow> None | Some x \<Rightarrow> kgp_Deadline x)"

record KeyGenFinishMsg =
  kgf_IsSuccess :: bool
  kgf_FailureReason :: string
  kgf_PublicKey :: bytes

definition KeyGenFinishMsg_GetIsSuccess :: "KeyGenFinishMsg option \<Rightarrow> bool" where
  [go_simps]: "KeyGenFinishMsg_GetIsSuccess x = (case x of None \<Rightarrow> False | Some x \<Rightarrow> kgf_IsSuccess x)"

definition KeyGenFinishMsg_GetFailureReason :: "KeyGenFinishMsg option \<Rightarrow> string" where
  [go_simps]: "KeyGenFinishMsg_GetFailureReason x = (case x of None \<Rightarrow> [] | Some x \<Rightarrow> kgf_FailureReason x)"

definition KeyGenFinishMsg_GetPublicKey :: "KeyGenFinishMsg option \<Rightarrow> bytes" where
  [go_simps]: "KeyGenFinishMsg_GetPublicKey x = (case x of None \<Rightarrow> [] | Some x \<Rightarrow> kgf_PublicKey x)"

record KeySignPrepareMsg =
  ksp_SignId :: string
  ksp_SessionId :: string
  ksp_KeyId :: string
  ksp_KeySessionId :: string
  ksp_SignMsg :: bytes
  ksp_Deadline :: "Timestamp option"

definition KeySignPrepareMsg_GetSignId :: "KeySignPrepareMsg option \<Rightarrow> string" where
  [go_simps]: "KeySignPrepareMsg_GetSignId x = (case x of None \<Rightarrow> [] | Some x \<Rightarrow> ksp_SignId x)"

definition KeySignPrepareMsg_GetSessionId :: "KeySignPrepareMsg option \<Rightarrow> string" where
  [go_simps]: "KeySignPrepareMsg_GetSessionId x = (case x of None \<Rightarrow> [] | Some x \<Rightarrow> ksp_SessionId x)"

definition KeySignPrepareMsg_GetKeyId :: "KeySignPrepareMsg option \<Rightarrow> string" where
  [go_simps]: "KeySignPrepareMsg_GetKeyId x = (case x of None \<Rightarrow> [] | Some x \<Rightarrow> ksp_KeyId x)"

definition KeySignPrepareMsg_GetKeySessionId :: "KeySignPrepareMsg option \<Rightarrow> string" where
  [go_simps]: "KeySignPrepareMsg_GetKeySessionId x = (case x of None \<Rightarrow> [] | Some x \<Rightarrow> ksp_KeySessionId x)"

definition KeySignPrepareMsg_GetSignMsg :: "KeySignPrepareMsg option \<Rightarrow> bytes" where
  [go_simps]: "KeySignPrepareMsg_GetSignMsg x = (case x of None \<Rightarrow> [] | Some x \<Rightarrow> ksp_SignMsg x)"

definition KeySignPrepareMsg_GetDeadline :: "KeySignPrepareMsg option \<Rightarrow> Timestamp option" where
  [go_simps]: "KeySignPrepareMsg_GetDeadline x = (case x of None \<Rightarrow> None | Some x \<Rightarrow> ksp_Deadline x)"

record KeySignStartMsg =
  kss_SignPartyId :: "PartyID list"

definition KeySignStartMsg_GetSignPartyId :: "KeySignStartMsg option \<Rightarrow> PartyID list" where
  [go_simps]: "KeySignStartMsg_GetSignPartyId x = (case x of None \<Rightarrow> [] | Some x \<Rightarrow> kss_SignPartyId x)"

record KeySignFinishMsg =
  ksf_IsSuccess :: bool
  ksf_FailureReason :: string
  ksf_SignatureR :: bytes
  ksf_SignatureS :: bytes
  ksf_SignatureV :: bytes

definition KeySignFinishMsg_GetIsSuccess :: "KeySignFinishMsg option \<Rightarrow> bool" where
  [go_simps]: "KeySignFinishMsg_GetIsSuccess x = (case x of None \<Rightarrow> False | Some x \<Rightarrow> ksf_IsSuccess x)"

definition KeySignFinishMsg_GetFailureReason :: "KeySignFinishMsg option \<Rightarrow> string" where
  [go_simps]: "KeySignFinishMsg_GetFailureReason x = (case x of None \<Rightarrow> [] | Some x \<Rightarrow> ksf_FailureReason x)"

definition KeySignFinishMsg_GetSignatureR :: "KeySignFinishMsg option \<Rightarrow> bytes" where
  [go_simps]: "KeySignFinishMsg_GetSignatureR x = (case x of None \<Rightarrow> [] | Some x \<Rightarrow> ksf_SignatureR x)"

definition KeySignFinishMsg_GetSignatureS :: "KeySignFinishMsg option \<Rightarrow> bytes" where
  [go_simps]: "KeySignFinishMsg_GetSignatureS x = (case x of None \<Rightarrow> [] | Some x \<Rightarrow> ksf_SignatureS x)"

definition KeySignFinishMsg_GetSignatureV :: "KeySignFinishMsg option \<Rightarrow> bytes" where
  [go_simps]: "KeySignFinishMsg_GetSignatureV x = (case x of None \<Rightarrow> [] | Some x \<Rightarrow> ksf_SignatureV x)"

record ProcessUpdateMsg =
  pum_FromPartyId :: string
  pum_MsgWireBytes :: bytes
  pum_IsBroadcast :: bool

definition ProcessUpdateMsg_GetFromPartyId :: "ProcessUpdateMsg option \<Rightarrow> string" where
  [go_simps]: "ProcessUpdateMsg_GetFromPartyId x = (case x of None \<Rightarrow> [] | Some x \<Rightarrow> pum_FromPartyId x)"

definition ProcessUpdateMsg_GetMsgWireBytes :: "ProcessUpdateMsg option \<Rightarrow> bytes" where
  [go_simps]: "ProcessUpdateMsg_GetMsgWireBytes x = (case x of None \<Rightarrow> [] | Some x \<Rightarrow> pum_MsgWireBytes x)"

definition ProcessUpdateMsg_GetIsBroadcast :: "ProcessUpdateMsg option \<Rightarrow> bool" where
  [go_simps]: "ProcessUpdateMsg_GetIsBroadcast x = (case x of None \<Rightarrow> False | Some x \<Rightarrow> pum_IsBroadcast x)"

record ProcessErrorMsg =
  pem_ErrorMsg :: string

definition ProcessErrorMsg_GetErrorMsg :: "ProcessErrorMsg option \<Rightarrow> string" where
  [go_simps]: "ProcessErrorMsg_GetErrorMsg x = (case x of None \<Rightarrow> [] | Some x \<Rightarrow> pem_ErrorMsg x)"

section \<open>The peer-to-peer envelope\<close>

datatype MsgType =
    TssP2PMsg_KeyGenPrepareMsg KeyGenPrepareMsg
  | TssP2PMsg_KeyGenReadyMsg KeyGenReadyMsg
  | TssP2PMsg_KeyGenStartMsg KeyGenStartMsg
  | TssP2PMsg_KeyGenFinishMsg KeyGenFinishMsg
  | TssP2PMsg_KeySignPrepareMsg KeySignPrepareMsg
  | TssP2PMsg_KeySignReadyMsg KeySignReadyMsg
  | TssP2PMsg_KeySignStartMsg KeySignStartMsg
  | TssP2PMsg_KeySignCancelMsg KeySignCancelMsg
  | TssP2PMsg_KeySignFinishMsg KeySignFinishMsg
  | TssP2PMsg_ProcessUpdateMsg ProcessUpdateMsg
  | TssP2PMsg_ProcessErrorMsg ProcessErrorMsg

record TssP2PMsg =
  tp_MsgType :: "MsgType option"

text \<open>\<open>&TssP2PMsg{MsgType: m}\<close>.\<close>

abbreviation p2p_msg :: "MsgType \<Rightarrow> TssP2PMsg" where
  "p2p_msg m \<equiv> \<lparr>tp_MsgType = Some m\<rparr>"

definition GetMsgType :: "TssP2PMsg option \<Rightarrow> MsgType option" where
  [go_simps]: "GetMsgType m = (case m of None \<Rightarrow> None | Some m \<Rightarrow> tp_MsgType m)"

definition GetKeyGenPrepareMsg :: "TssP2PMsg option \<Rightarrow> KeyGenPrepareMsg option" where
  [go_simps]: "GetKeyGenPrepareMsg x =
     (case GetMsgType x of Some (TssP2PMsg_KeyGenPrepareMsg m) \<Rightarrow> Some m | _ \<Rightarrow> None)"

definition GetKeyGenReadyMsg :: "TssP2PMsg option \<Rightarrow> KeyGenReadyMsg option" where
  [go_simps]: "GetKeyGenReadyMsg x =
     (case GetMsgType x of Some (TssP2PMsg_KeyGenReadyMsg m) \<Rightarrow> Some m | _ \<Rightarrow> None)"

definition GetKeyGenStartMsg :: "TssP2PMsg option \<Rightarrow> KeyGenStartMsg option" where
  [go_simps]: "GetKeyGenStartMsg x =
     (case GetMsgType x of Some (TssP2PMsg_KeyGenStartMsg m) \<Rightarrow> Some m | _ \<Rightarrow> None)"

definition GetKeyGenFinishMsg :: "TssP2PMsg option \<Rightarrow> KeyGenFinishMsg option" where
  [go_simps]: "GetKeyGenFinishMsg x =
     (case GetMsgType x of Some (TssP2PMsg_KeyGenFinishMsg m) \<Rightarrow> Some m | _ \<Rightarrow> None)"

definition GetKeySignPrepareMsg :: "TssP2PMsg option \<Rightarrow> KeySignPrepareMsg option" where
  [go_simps]: "GetKeySignPrepareMsg x =
     (case GetMsgType x of Some (TssP2PMsg_KeySignPrepareMsg m) \<Rightarrow> Some m | _ \<Rightarrow> None)"

definition GetKeySignReadyMsg :: "TssP2PMsg option \<Rightarrow> KeySignReadyMsg option" where
  [go_simps]: "GetKeySignReadyMsg x =
     (case GetMsgType x of Some (TssP2PMsg_KeySignReadyMsg m) \<Rightarrow> Some m | _ \<Rightarrow> None)"

definition GetKeySignStartMsg :: "TssP2PMsg option \<Rightarrow> KeySignStartMsg option" where
  [go_simps]: "GetKeySignStartMsg x =
     (case GetMsgType x of Some (TssP2PMsg_KeySignStartMsg m) \<Rightarrow> Some m | _ \<Rightarrow> None)"

definition GetKeySignCancelMsg :: "TssP2PMsg option \<Rightarrow> KeySignCancelMsg option" where
  [go_simps]: "GetKeySignCancelMsg x =
     (case GetMsgType x of Some (TssP2PMsg_KeySignCancelMsg m) \<Rightarrow> Some m | _ \<Rightarrow> None)"

definition GetKeySignFinishMsg :: "TssP2PMsg option \<Rightarrow> KeySignFinishMsg option" where
  [go_simps]: "GetKeySignFinishMsg x =
     (case GetMsgType x of Some (TssP2PMsg_KeySignFinishMsg m) \<Rightarrow> Some m | _ \<Rightarrow> None)"

definition GetProcessUpdateMsg :: "TssP2PMsg option \<Rightarrow> ProcessUpdateMsg option" where
  [go_simps]: "GetProcessUpdateMsg x =
     (case GetMsgType x of Some (TssP2PMsg_ProcessUpdateMsg m) \<Rightarrow> Some m | _ \<Rightarrow> None)"

definition GetProcessErrorMsg :: "TssP2PMsg option \<Rightarrow> ProcessErrorMsg option" where
  [go_simps]: "GetProcessErrorMsg x =
     (case GetMsgType x of Some (TssP2PMsg_ProcessErrorMsg m) \<Rightarrow> Some m | _ \<Rightarrow> None)"

section \<open>Requests and responses of the service\<close>

datatype GetLocalPartyIdRequest = GetLocalPartyIdRequest

datatype KeyDeleteResponse = KeyDeleteResponse


record GetLocalPartyIdResponse =
  lpr_PartyId :: "PartyID option"

definition GetLocalPartyIdResponse_GetPartyId :: "GetLocalPartyIdResponse option \<Rightarrow> PartyID option" where
  [go_simps]: "GetLocalPartyIdResponse_GetPartyId x = (case x of None \<Rightarrow> None | Some x \<Rightarrow> lpr_PartyId x)"

record GetKeyRequest =
  gkq_KeyId :: string

definition GetKeyRequest_GetKeyId :: "GetKeyRequest option \<Rightarrow> string" where
  [go_simps]: "GetKeyRequest_GetKeyId x = (case x of None \<Rightarrow> [] | Some x \<Rightarrow> gkq_KeyId x)"

record GetKeyResponse =
  gkr_KeyId :: string
  gkr_PublicKey :: bytes
  gkr_Threshold :: int32
  gkr_AllPartyId :: "PartyID list"
  gkr_Status :: KeyStatus

definition GetKeyResponse_GetKeyId :: "GetKeyResponse option \<Rightarrow> string" where
  [go_simps]: "GetKeyResponse_GetKeyId x = (case x of None \<Rightarrow> [] | Some x \<Rightarrow> gkr_KeyId x)"

definition GetKeyResponse_GetPublicKey :: "GetKeyResponse option \<Rightarrow> bytes" where
  [go_simps]: "GetKeyResponse_GetPublicKey x = (case x of None \<Rightarrow> [] | Some x \<Rightarrow> gkr_PublicKey x)"

definition GetKeyResponse_GetThreshold :: "GetKeyResponse option \<Rightarrow> int32" where
  [go_simps]: "GetKeyResponse_GetThreshold x = (case x of None \<Rightarrow> 0 | Some x \<Rightarrow> gkr_Threshold x)"

definition GetKeyResponse_GetAllPartyId :: "GetKeyResponse option \<Rightarrow> PartyID list" where
  [go_simps]: "GetKeyResponse_GetAllPartyId x = (case x of None \<Rightarrow> [] | Some x \<Rightarrow> gkr_AllPartyId x)"

definition GetKeyResponse_GetStatus :: "GetKeyResponse option \<Rightarrow> KeyStatus" where
  [go_simps]: "GetKeyResponse_GetStatus x = (case x of None \<Rightarrow> KEY_STATUS_UNKNOWN | Some x \<Rightarrow> gkr_Status x)"

record KeyGenRequest =
  kgq_KeyId :: string
  kgq_Threshold :: int32
  kgq_AllPartyId :: "PartyID list"

definition KeyGenRequest_GetKeyId :: "KeyGenRequest option \<Rightarrow> string" where
  [go_simps]: "KeyGenRequest_GetKeyId x = (case x of None \<Rightarrow> [] | Some x \<Rightarrow> kgq_KeyId x)"

definition KeyGenRequest_GetThreshold :: "KeyGenRequest option \<Rightarrow> int32" where
  [go_simps]: "KeyGenRequest_GetThreshold x = (case x of None \<Rightarrow> 0 | Some x \<Rightarrow> kgq_Threshold x)"

definition KeyGenRequest_GetAllPartyId :: "KeyGenRequest option \<Rightarrow> PartyID list" where
  [go_simps]: "KeyGenRequest_GetAllPartyId x = (case x of None \<Rightarrow> [] | Some x \<Rightarrow> kgq_AllPartyId x)"

record KeyGenResponse =
  kgr_SessionId :: string
  kgr_PublicKey :: bytes

definition KeyGenResponse_GetSessionId :: "KeyGenResponse option \<Rightarrow> string" where
  [go_simps]: "KeyGenResponse_GetSessionId x = (case x of None \<Rightarrow> [] | Some x \<Rightarrow> kgr_SessionId x)"

definition KeyGenResponse_GetPublicKey :: "KeyGenResponse option \<Rightarrow> bytes" where
  [go_simps]: "KeyGenResponse_GetPublicKey x = (case x of None \<Rightarrow> [] | Some x \<Rightarrow> kgr_PublicKey x)"

record KeySignRequest =
  ksq_KeyId :: string
  ksq_SignMsg :: bytes
  ksq_SignId :: string

definition KeySignRequest_GetKeyId :: "KeySignRequest option \<Rightarrow> string" where
  [go_simps]: "KeySignRequest_GetKeyId x = (case x of None \<Rightarrow> [] | Some x \<Rightarrow> ksq_KeyId x)"

definition KeySignRequest_GetSignMsg :: "KeySignRequest option \<Rightarrow> bytes" where
  [go_simps]: "KeySignRequest_GetSignMsg x = (case x of None \<Rightarrow> [] | Some x \<Rightarrow> ksq_SignMsg x)"

definition KeySignRequest_GetSignId :: "KeySignRequest option \<Rightarrow> string" where
  [go_simps]: "KeySignRequest_GetSignId x = (case x of None \<Rightarrow> [] | Some x \<Rightarrow> ksq_SignId x)"

record KeySignResponse =
  ksr_SessionId :: string
  ksr_SignatureR :: bytes
  ksr_SignatureS :: bytes
  ksr_SignatureV :: bytes

definition KeySignResponse_GetSessionId :: "KeySignResponse option \<Rightarrow> string" where
  [go_simps]: "KeySignResponse_GetSessionId x = (case x of None \<Rightarrow> [] | Some x \<Rightarrow> ksr_SessionId x)"

definition KeySignResponse_GetSignatureR :: "KeySignResponse option \<Rightarrow> bytes" where
  [go_simps]: "KeySignResponse_GetSignatureR x = (case x of None \<Rightarrow> [] | Some x \<Rightarrow> ksr_SignatureR x)"

definition KeySignResponse_GetSignatureS :: "KeySignResponse option \<Rightarrow> bytes" where
  [go_simps]: "KeySignResponse_GetSignatureS x = (case x of None \<Rightarrow> [] | Some x \<Rightarrow> ksr_SignatureS x)"

definition KeySignResponse_GetSignatureV :: "KeySignResponse option \<Rightarrow> bytes" where
  [go_simps]: "KeySignResponse_GetSignatureV x = (case x of None \<Rightarrow> [] | Some x \<Rightarrow> ksr_SignatureV x)"

record KeyDeleteRequest =
  kdq_KeyId :: string

definition KeyDeleteRequest_GetKeyId :: "KeyDeleteRequest option \<Rightarrow> string" where
  [go_simps]: "KeyDeleteRequest_GetKeyId x = (case x of None \<Rightarrow> [] | Some x \<Rightarrow> kdq_KeyId x)"

record VerifySignatureRequest =
  vsq_SignMsg :: bytes
  vsq_PublicKey :: bytes
  vsq_SignatureR :: bytes
  vsq_SignatureS :: bytes
  vsq_SignatureV :: bytes

definition VerifySignatureRequest_GetSignMsg :: "VerifySignatureRequest option \<Rightarrow> bytes" where
  [go_simps]: "VerifySignatureRequest_GetSignMsg x = (case x of None \<Rightarrow> [] | Some x \<Rightarrow> vsq_SignMsg x)"

definition VerifySignatureRequest_GetPublicKey :: "VerifySignatureRequest option \<Rightarrow> bytes" where
  [go_simps]: "VerifySignatureRequest_GetPublicKey x = (case x of None \<Rightarrow> [] | Some x \<Rightarrow> vsq_PublicKey x)"

definition VerifySignatureRequest_GetSignatureR :: "VerifySignatureRequest option \<Rightarrow> bytes" where
  [go_simps]: "VerifySignatureRequest_GetSignatureR x = (case x of None \<Rightarrow> [] | Some x \<Rightarrow> vsq_SignatureR x)"

definition VerifySignatureRequest_GetSignatureS :: "VerifySignatureRequest option \<Rightarrow> bytes" where
  [go_simps]: "VerifySignatureRequest_GetSignatureS x = (case x of None \<Rightarrow> [] | Some x \<Rightarrow> vsq_SignatureS x)"

definition VerifySignatureRequest_GetSignatureV :: "VerifySignatureRequest option \<Rightarrow> bytes" where
  [go_simps]: "VerifySignatureRequest_GetSignatureV x = (case x of None \<Rightarrow> [] | Some x \<Rightarrow> vsq_SignatureV x)"

record VerifySignatureResponse =
  vsr_IsValid :: bool

definition VerifySignatureResponse_GetIsValid :: "VerifySignatureResponse option \<Rightarrow> bool" where
  [go_simps]: "VerifySignatureResponse_GetIsValid x = (case x of None \<Rightarrow> False | Some x \<Rightarrow> vsr_IsValid x)"


section \<open>Properties of the envelope\<close>

text \<open>The getters are exclusive: at most one of them returns a message.\<close>

lemma oneof_cases:
  "GetKeyGenPrepareMsg (Some x) = Some m \<longleftrightarrow> tp_MsgType x = Some (TssP2PMsg_KeyGenPrepareMsg m)"
  "GetKeyGenStartMsg (Some x) = Some s \<longleftrightarrow> tp_MsgType x = Some (TssP2PMsg_KeyGenStartMsg s)"
  "GetKeySignPrepareMsg (Some x) = Some p \<longleftrightarrow> tp_MsgType x = Some (TssP2PMsg_KeySignPrepareMsg p)"
  by (auto simp: go_simps split: option.splits MsgType.splits)

text \<open>The two enum tables are inverse to each other.\<close>

lemma KeyStatus_name_value: "KeyStatus_name n = Some s \<Longrightarrow> KeyStatus_value s = Some n"
  by (auto simp: KeyStatus_name_def KeyStatus_value_def split: if_splits)

lemma KeyStatus_value_name: "KeyStatus_value s = Some n \<Longrightarrow> KeyStatus_name n = Some s"
  by (auto simp: KeyStatus_name_def KeyStatus_value_def split: if_splits)

end
