(* ===== verification/Storage.thy ===== *)
theory Storage
  imports Proto
begin

text \<open>
  \<open>tss/tss_storage.go\<close>: the \<open>LocalStorage\<close> interface and its LevelDB implementation. The
  database (\<open>tm-db\<close>) and the protobuf codec are outside the repository: they are parameters,
  the records \<open>DB\<close> and \<open>KeyDataCodec\<close>, with their documented behaviour as the locales
  \<open>tm_db\<close> and \<open>kd_codec\<close>. The contract the manager relies on is the locale
  \<open>local_storage\<close>; \<open>leveldb\<close> proves it for the code's implementation.
\<close>

section \<open>What the storage uses\<close>

text \<open>
  The calls of \<open>dbm.DB\<close> the code makes. An iterator is the list of entries it yields, in order.
\<close>

record 'db DB =
  db_Get :: "'db \<Rightarrow> bytes \<Rightarrow> bytes option"
  db_SetSync :: "'db \<Rightarrow> bytes \<Rightarrow> bytes \<Rightarrow> 'db"
  db_DeleteSync :: "'db \<Rightarrow> bytes \<Rightarrow> 'db"
  db_Iterator :: "'db \<Rightarrow> bytes \<Rightarrow> bytes option \<Rightarrow> (bytes \<times> bytes) list"

record KeyDataCodec =
  pb_Marshal :: "KeyData \<Rightarrow> error + bytes"
  pb_Unmarshal :: "bytes \<Rightarrow> error + KeyData"

locale tm_db =
  fixes D :: "'db DB" and db_inv :: "'db \<Rightarrow> bool"
  assumes Get_SetSync: "db_inv s \<Longrightarrow> db_Get D (db_SetSync D s k v) = (db_Get D s)(k \<mapsto> v)"
    and Get_DeleteSync: "db_inv s \<Longrightarrow> db_Get D (db_DeleteSync D s k) = (db_Get D s)(k := None)"
    and SetSync_inv: "db_inv s \<Longrightarrow> db_inv (db_SetSync D s k v)"
    and DeleteSync_inv: "db_inv s \<Longrightarrow> db_inv (db_DeleteSync D s k)"
    and Iterator_sorted: "db_inv s \<Longrightarrow> sorted_wrt (<) (map fst (db_Iterator D s start None))"
    and Iterator_set: "db_inv s \<Longrightarrow>
      set (db_Iterator D s start None) = {(k, v). start \<le> k \<and> db_Get D s k = Some v}"

locale kd_codec =
  fixes C :: KeyDataCodec
  assumes Unmarshal_Marshal: "pb_Marshal C d = Inr bs \<Longrightarrow> pb_Unmarshal C bs = Inr d"

section \<open>The interface\<close>

record 's LocalStorage =
  ls_GetKeyDataListByKeyId :: "'s \<Rightarrow> string \<Rightarrow> error + KeyData list"
  ls_GetKeyDataByKeyIdAndKeySessionId :: "'s \<Rightarrow> string \<Rightarrow> string \<Rightarrow> error + KeyData option"
  ls_SetKeyData :: "'s \<Rightarrow> KeyData \<Rightarrow> error option \<times> 's"
  ls_DeleteKeyData :: "'s \<Rightarrow> string \<Rightarrow> string \<Rightarrow> error option \<times> 's"

text \<open>The name a record is filed under: key id and session id joined by a colon.\<close>

definition row_key :: "string \<Rightarrow> string \<Rightarrow> string" where
  "row_key keyId keySessionId = keyId @ '':'' @ keySessionId"

abbreviation row_of :: "KeyData \<Rightarrow> string" where
  "row_of d \<equiv> row_key (kd_KeyId d) (kd_KeySessionId d)"

text \<open>
  The contract. \<open>rows s\<close> is the abstract content of the store: a map from row keys to records;
  \<open>storable d\<close> says that the record can be serialised. The list operation returns the rows whose
  name extends \<open>keyId:\<close>, which is more than the rows of \<open>keyId\<close> when key ids hold colons.
\<close>

locale local_storage =
  fixes ls :: "'s LocalStorage"
    and ls_inv :: "'s \<Rightarrow> bool"
    and rows :: "'s \<Rightarrow> string \<Rightarrow> KeyData option"
    and storable :: "KeyData \<Rightarrow> bool"
  assumes get_list: "ls_inv s \<Longrightarrow> \<exists>ds. ls_GetKeyDataListByKeyId ls s keyId = Inr ds \<and> distinct ds \<and>
      set ds = {d. rows s (row_of d) = Some d \<and> prefix (row_key keyId []) (row_of d)}"
    and get_one: "ls_inv s \<Longrightarrow>
      ls_GetKeyDataByKeyIdAndKeySessionId ls s keyId sid = Inr (rows s (row_key keyId sid))"
    and rows_row: "ls_inv s \<Longrightarrow> rows s r = Some d \<Longrightarrow> r = row_of d"
    and set_ok: "ls_inv s \<Longrightarrow> storable d \<Longrightarrow> \<exists>s'. ls_SetKeyData ls s d = (None, s') \<and> ls_inv s' \<and>
      rows s' = (rows s)(row_of d \<mapsto> d)"
    and set_fail: "ls_inv s \<Longrightarrow> \<not> storable d \<Longrightarrow> \<exists>e. ls_SetKeyData ls s d = (Some e, s)"
    and delete_ok: "ls_inv s \<Longrightarrow> \<exists>s'. ls_DeleteKeyData ls s keyId sid = (None, s') \<and> ls_inv s' \<and>
      rows s' = (rows s)(row_key keyId sid := None)"

section \<open>LevelDBStorage\<close>

text \<open>The loop of \<open>GetKeyDataListByKeyId\<close> over the iterator, with its accumulator.\<close>

fun scan_rows :: "KeyDataCodec \<Rightarrow> bytes \<Rightarrow> KeyData list \<Rightarrow> (bytes \<times> bytes) list
    \<Rightarrow> error + KeyData list" where
  "scan_rows C p keyDataList [] = Inr keyDataList"
| "scan_rows C p keyDataList ((k, v) # itr) =
     (if \<not> prefix p k then Inr keyDataList
      else case pb_Unmarshal C v of
          Inl err \<Rightarrow> Inl err
        | Inr keyData \<Rightarrow> scan_rows C p (keyDataList @ [keyData]) itr)"

definition GetKeyDataListByKeyId ::
    "'db DB \<Rightarrow> KeyDataCodec \<Rightarrow> 'db \<Rightarrow> string \<Rightarrow> error + KeyData list" where
  "GetKeyDataListByKeyId D C s keyId =
     (let p = bytes_of (keyId @ '':'') in scan_rows C p [] (db_Iterator D s p None))"

definition GetKeyDataByKeyIdAndKeySessionId ::
    "'db DB \<Rightarrow> KeyDataCodec \<Rightarrow> 'db \<Rightarrow> string \<Rightarrow> string \<Rightarrow> error + KeyData option" where
  "GetKeyDataByKeyIdAndKeySessionId D C s keyId keySessionId =
     (case db_Get D s (bytes_of (keyId @ '':'' @ keySessionId)) of
        None \<Rightarrow> Inr None
      | Some bs \<Rightarrow> (case pb_Unmarshal C bs of Inl err \<Rightarrow> Inl err | Inr keyData \<Rightarrow> Inr (Some keyData)))"

definition SetKeyData :: "'db DB \<Rightarrow> KeyDataCodec \<Rightarrow> 'db \<Rightarrow> KeyData \<Rightarrow> error option \<times> 'db" where
  "SetKeyData D C s keyData =
     (let keyId = KeyData_GetKeyId (Some keyData);
          keySessionId = KeyData_GetKeySessionId (Some keyData)
      in case pb_Marshal C keyData of
           Inl err \<Rightarrow> (Some err, s)
         | Inr data \<Rightarrow> (None, db_SetSync D s (bytes_of (keyId @ '':'' @ keySessionId)) data))"

definition DeleteKeyData ::
    "'db DB \<Rightarrow> KeyDataCodec \<Rightarrow> 'db \<Rightarrow> string \<Rightarrow> string \<Rightarrow> error option \<times> 'db" where
  "DeleteKeyData D C s keyId keySessionId =
     (None, db_DeleteSync D s (bytes_of (keyId @ '':'' @ keySessionId)))"

text \<open>The value of type \<open>LocalStorage\<close> that a \<open>*LevelDBStorage\<close> is.\<close>

definition LevelDBStorage :: "'db DB \<Rightarrow> KeyDataCodec \<Rightarrow> 'db LocalStorage" where
  "LevelDBStorage D C =
     \<lparr>ls_GetKeyDataListByKeyId = GetKeyDataListByKeyId D C,
      ls_GetKeyDataByKeyIdAndKeySessionId = GetKeyDataByKeyIdAndKeySessionId D C,
      ls_SetKeyData = SetKeyData D C,
      ls_DeleteKeyData = DeleteKeyData D C\<rparr>"

section \<open>Sorted rows with a common prefix are contiguous\<close>

lemma prefix_le: "prefix p (k :: 'a :: linorder list) \<Longrightarrow> p \<le> k"
proof (induction p arbitrary: k)
  case (Cons x p)
  then show ?case by (cases k) auto
qed simp

lemma prefix_between:
  fixes p k m :: "'a :: linorder list"
  shows "p \<le> k \<Longrightarrow> k \<le> m \<Longrightarrow> prefix p m \<Longrightarrow> prefix p k"
proof (induction p arbitrary: k m)
  case (Cons x p)
  from Cons.prems(3) obtain m' where m: "m = x # m'" "prefix p m'"
    by (cases m) auto
  from Cons.prems(1) obtain y k' where k: "k = y # k'"
    by (cases k) auto
  from Cons.prems(1,2) m k have "x = y" "p \<le> k'" "k' \<le> m'"
    by auto
  with Cons.IH m k show ?case by auto
qed simp

lemma scan_prefix_filter:
  fixes p :: bytes
  assumes "sorted_wrt (<) (map fst itr)" and "\<forall>(k, v) \<in> set itr. p \<le> k"
    and "\<forall>(k, v) \<in> set itr. pb_Unmarshal C v = Inr (f v)"
  shows "scan_rows C p acc itr = Inr (acc @ map (f \<circ> snd) (filter (\<lambda>(k, v). prefix p k) itr))"
  using assms
proof (induction itr arbitrary: acc)
  case (Cons kv itr)
  obtain k v where kv: "kv = (k, v)" by fastforce
  show ?case
  proof (cases "prefix p k")
    case True
    with Cons kv show ?thesis by auto
  next
    case False
    have "\<not> prefix p k'" if "(k', v') \<in> set itr" for k' v'
    proof
      assume "prefix p k'"
      moreover from that Cons.prems(1) kv have "k \<le> k'"
        by (force simp: less_imp_le)
      moreover from Cons.prems(2) kv have "p \<le> k" by simp
      ultimately have "prefix p k" by (blast intro: prefix_between)
      with False show False by simp
    qed
    then have "filter (\<lambda>(k, v). prefix p k) itr = []"
      by (auto simp: filter_empty_conv)
    with False kv show ?thesis by simp
  qed
qed simp

section \<open>The LevelDB store meets the contract\<close>

text \<open>
  Well-formed content: every value decodes, to the record its key names. It holds of an empty
  database and is kept by every operation.
\<close>

locale leveldb = tm_db D db_inv + kd_codec C
  for D :: "'db DB" and db_inv :: "'db \<Rightarrow> bool" and C :: KeyDataCodec
begin

definition lv_inv :: "'db \<Rightarrow> bool" where
  "lv_inv s \<longleftrightarrow> db_inv s \<and> (\<forall>k v. db_Get D s k = Some v \<longrightarrow>
     (\<exists>d. pb_Unmarshal C v = Inr d \<and> k = bytes_of (row_of d)))"

definition lv_rows :: "'db \<Rightarrow> string \<Rightarrow> KeyData option" where
  "lv_rows s r = (case db_Get D s (bytes_of r) of
     None \<Rightarrow> None
   | Some v \<Rightarrow> (case pb_Unmarshal C v of Inl _ \<Rightarrow> None | Inr d \<Rightarrow> Some d))"

definition lv_storable :: "KeyData \<Rightarrow> bool" where
  "lv_storable d \<longleftrightarrow> (\<exists>bs. pb_Marshal C d = Inr bs)"

lemma lv_rows_iff:
  "lv_inv s \<Longrightarrow> lv_rows s r = Some d \<longleftrightarrow>
     (\<exists>v. db_Get D s (bytes_of r) = Some v \<and> pb_Unmarshal C v = Inr d)"
  by (fastforce simp: lv_rows_def lv_inv_def split: option.splits sum.splits)

lemma lv_rows_row: "lv_inv s \<Longrightarrow> lv_rows s r = Some d \<Longrightarrow> r = row_of d"
  by (fastforce simp: lv_rows_iff lv_inv_def)

lemma lv_inv_empty: "db_inv s \<Longrightarrow> db_Get D s = Map.empty \<Longrightarrow> lv_inv s"
  by (simp add: lv_inv_def)

lemma lv_rows_empty: "db_Get D s = Map.empty \<Longrightarrow> lv_rows s = Map.empty"
  by (auto simp: lv_rows_def)

text \<open>The record a value decodes to.\<close>

definition decoded :: "bytes \<Rightarrow> KeyData" where
  "decoded v = (case pb_Unmarshal C v of Inr d \<Rightarrow> d | Inl _ \<Rightarrow> undefined)"

lemma iterator_entry:
  assumes inv: "lv_inv s" and kv: "(k, v) \<in> set (db_Iterator D s p None)"
  shows "pb_Unmarshal C v = Inr (decoded v)" and "k = bytes_of (row_of (decoded v))"
    and "db_Get D s k = Some v" and "p \<le> k"
proof -
  from inv have "db_inv s" by (simp add: lv_inv_def)
  from kv show get: "db_Get D s k = Some v" and "p \<le> k" by (simp_all add: Iterator_set [OF \<open>db_inv s\<close>])
  from get inv obtain d where "pb_Unmarshal C v = Inr d" "k = bytes_of (row_of d)"
    unfolding lv_inv_def by blast
  then show "pb_Unmarshal C v = Inr (decoded v)" "k = bytes_of (row_of (decoded v))"
    by (simp_all add: decoded_def)
qed

lemma iterator_distinct:
  assumes inv: "lv_inv s"
  shows "distinct (map (decoded \<circ> snd) (filter P (db_Iterator D s p None)))"
proof -
  let ?itr = "db_Iterator D s p None"
  from inv have "db_inv s" by (simp add: lv_inv_def)
  from Iterator_sorted [OF this] have "distinct (map fst ?itr)" by (simp add: strict_sorted_iff)
  then have "distinct (map fst (filter P ?itr))" by (rule distinct_map_filter)
  then have "distinct (filter P ?itr)" by (simp add: distinct_map)
  moreover have "inj_on (decoded \<circ> snd) (set (filter P ?itr))"
  proof (rule inj_onI)
    fix a b
    assume "a \<in> set (filter P ?itr)" "b \<in> set (filter P ?itr)" and eq: "(decoded \<circ> snd) a = (decoded \<circ> snd) b"
    then have a: "(fst a, snd a) \<in> set ?itr" and b: "(fst b, snd b) \<in> set ?itr" by simp_all
    from iterator_entry(2) [OF inv a] iterator_entry(2) [OF inv b] eq have "fst a = fst b" by simp
    with iterator_entry(3) [OF inv a] iterator_entry(3) [OF inv b] show "a = b" by (simp add: prod_eq_iff)
  qed
  ultimately show ?thesis by (simp add: distinct_map)
qed

lemma iterator_rows:
  assumes inv: "lv_inv s"
  shows "set (map (decoded \<circ> snd) (filter (\<lambda>(k, v). prefix (bytes_of q) k) (db_Iterator D s (bytes_of q) None))) =
    {d. lv_rows s (row_of d) = Some d \<and> prefix q (row_of d)}" (is "?hits = _")
proof (intro set_eqI iffI)
  fix d
  assume "d \<in> ?hits"
  then obtain k v where kv: "(k, v) \<in> set (db_Iterator D s (bytes_of q) None)" "prefix (bytes_of q) k" "d = decoded v"
    by auto
  with iterator_entry [OF inv kv(1)] show "d \<in> {d. lv_rows s (row_of d) = Some d \<and> prefix q (row_of d)}"
    by (auto simp: lv_rows_iff [OF inv])
next
  fix d
  assume "d \<in> {d. lv_rows s (row_of d) = Some d \<and> prefix q (row_of d)}"
  then obtain v where v: "db_Get D s (bytes_of (row_of d)) = Some v" "pb_Unmarshal C v = Inr d"
    and p: "prefix (bytes_of q) (bytes_of (row_of d))"
    by (auto simp: lv_rows_iff [OF inv])
  from inv have "db_inv s" by (simp add: lv_inv_def)
  with v p have "(bytes_of (row_of d), v) \<in> set (db_Iterator D s (bytes_of q) None)"
    by (simp add: Iterator_set prefix_le)
  with v p show "d \<in> ?hits" by (force simp: decoded_def)
qed

lemma lv_get_list:
  assumes inv: "lv_inv s"
  shows "\<exists>ds. GetKeyDataListByKeyId D C s keyId = Inr ds \<and> distinct ds \<and>
    set ds = {d. lv_rows s (row_of d) = Some d \<and> prefix (row_key keyId []) (row_of d)}"
proof -
  let ?p = "bytes_of (row_key keyId [])"
  let ?itr = "db_Iterator D s ?p None"
  from inv have db: "db_inv s" by (simp add: lv_inv_def)
  have "\<forall>(k, v) \<in> set ?itr. ?p \<le> k" "\<forall>(k, v) \<in> set ?itr. pb_Unmarshal C v = Inr (decoded v)"
    using iterator_entry(1,4) [OF inv] by blast+
  from scan_prefix_filter [OF Iterator_sorted [OF db] this, of "[]"]
  have "scan_rows C ?p [] ?itr = Inr (map (decoded \<circ> snd) (filter (\<lambda>(k, v). prefix ?p k) ?itr))"
    by simp
  with iterator_distinct [OF inv] iterator_rows [OF inv] show ?thesis
    by (auto simp: GetKeyDataListByKeyId_def Let_def row_key_def)
qed

lemma lv_get_one:
  "lv_inv s \<Longrightarrow> GetKeyDataByKeyIdAndKeySessionId D C s k sid = Inr (lv_rows s (row_key k sid))"
  by (fastforce simp: GetKeyDataByKeyIdAndKeySessionId_def lv_rows_def row_key_def lv_inv_def
      split: option.splits sum.splits)

lemma lv_set_ok:
  assumes "lv_inv s" and "lv_storable d"
  shows "\<exists>s'. SetKeyData D C s d = (None, s') \<and> lv_inv s' \<and> lv_rows s' = (lv_rows s)(row_of d \<mapsto> d)"
proof -
  from assms obtain bs where bs: "pb_Marshal C d = Inr bs" by (auto simp: lv_storable_def)
  let ?s = "db_SetSync D s (bytes_of (row_of d)) bs"
  from assms have db: "db_inv s" by (simp add: lv_inv_def)
  have "lv_inv ?s"
    using assms Unmarshal_Marshal [OF bs]
    by (auto simp: lv_inv_def Get_SetSync [OF db] SetSync_inv)
  moreover have "lv_rows ?s = (lv_rows s)(row_of d \<mapsto> d)"
    using Unmarshal_Marshal [OF bs] by (auto simp: lv_rows_def Get_SetSync [OF db] fun_eq_iff)
  ultimately show ?thesis
    using bs by (auto simp: SetKeyData_def go_simps row_key_def)
qed

lemma lv_set_fail: "\<not> lv_storable d \<Longrightarrow> \<exists>e. SetKeyData D C s d = (Some e, s)"
  by (auto simp: SetKeyData_def lv_storable_def Let_def split: sum.splits)

lemma lv_delete:
  assumes "lv_inv s"
  shows "\<exists>s'. DeleteKeyData D C s k sid = (None, s') \<and> lv_inv s' \<and>
    lv_rows s' = (lv_rows s)(row_key k sid := None)"
proof -
  from assms have db: "db_inv s" by (simp add: lv_inv_def)
  show ?thesis
    using assms DeleteSync_inv [OF db]
    by (auto simp: DeleteKeyData_def lv_inv_def lv_rows_def Get_DeleteSync [OF db] row_key_def
        fun_eq_iff)
qed

end

sublocale leveldb \<subseteq> lv: local_storage "LevelDBStorage D C" lv_inv lv_rows lv_storable
  by unfold_locales
    (simp_all add: LevelDBStorage_def lv_get_list lv_get_one lv_rows_row lv_set_ok lv_set_fail
      lv_delete)

context leveldb
begin

lemma lv_storage: "local_storage (LevelDBStorage D C) lv_inv lv_rows lv_storable"
  by (rule lv.local_storage_axioms)

end

end
