(* ===== verification/TssLib.thy ===== *)
theory TssLib
  imports Proto
begin

text \<open>
  The third-party cryptography the code calls, as parameters of the model: \<open>tss-lib\<close> (party
  ids, wire messages, pre-parameters, save data) and \<open>btcec\<close>. The standard library's
  \<open>elliptic.MarshalCompressed\<close> and \<open>ecdsa.Verify\<close> are modelled over the curve they are given.
\<close>

text \<open>What \<open>GetId\<close>, \<open>GetMoniker\<close> and \<open>GetKey\<close> of a \<open>tsslib.PartyID\<close> return.\<close>

record TssPartyID =
  tpid_Id :: string
  tpid_Moniker :: string
  tpid_Key :: bytes

text \<open>An \<open>ecdsa.PublicKey\<close> without its curve: the affine coordinates.\<close>

record EcdsaPub =
  ep_X :: nat
  ep_Y :: nat

text \<open>
  \<open>'pre\<close> is \<open>keygen.LocalPreParams\<close>, \<open>'sd\<close> \<open>keygen.LocalPartySaveData\<close>, \<open>'pm\<close>
  \<open>tss.ParsedMessage\<close>, \<open>'pk\<close> \<open>btcec.PublicKey\<close>. The number given to \<open>GeneratePreParams\<close>
  is the moment of the call: its outcome depends on chance and on the machine's speed.
  \<open>NewSigningParty\<close> is \<open>signing.NewLocalParty\<close> on the message number, the sorted parties, the
  local party, the threshold and the save data; it panics (\<open>Some\<close>) when a party is not one of
  those the save data was made with.
\<close>

record ('pre, 'sd, 'pm, 'pk) TssLib =
  NewPartyID :: "string \<Rightarrow> string \<Rightarrow> nat \<Rightarrow> TssPartyID"
  SortPartyIDs :: "TssPartyID list \<Rightarrow> TssPartyID list"
  GeneratePreParams :: "nat \<Rightarrow> 'pre option \<times> error option"
  ParseWireMessage :: "bytes \<Rightarrow> TssPartyID \<Rightarrow> bool \<Rightarrow> error + 'pm"
  NewSigningParty :: "nat \<Rightarrow> TssPartyID list \<Rightarrow> TssPartyID \<Rightarrow> int32 \<Rightarrow> 'sd \<Rightarrow> string option"
  sd_json_Marshal :: "'sd \<Rightarrow> error + string"
  sd_json_Unmarshal :: "string \<Rightarrow> error + 'sd"
  sd_ECDSAPub :: "'sd \<Rightarrow> EcdsaPub"
  IsOnCurve :: "nat \<Rightarrow> nat \<Rightarrow> bool"
  btcec_ParsePubKey :: "bytes \<Rightarrow> error + 'pk"
  SerializeCompressed :: "'pk \<Rightarrow> bytes"

text \<open>The documented behaviour of the party-id functions.\<close>

definition party_ids_ok :: "('pre, 'sd, 'pm, 'pk) TssLib \<Rightarrow> bool" where
  "party_ids_ok T \<longleftrightarrow>
     (\<forall>i m k. NewPartyID T i m k = \<lparr>tpid_Id = i, tpid_Moniker = m, tpid_Key = nat_be k\<rparr>) \<and>
     (\<forall>ps. set (SortPartyIDs T ps) = set ps \<and> length (SortPartyIDs T ps) = length ps)"

section \<open>Compressed points\<close>

text \<open>
  \<open>x.FillBytes(buf)\<close>: big-endian, padded on the left to the length of the buffer; it panics when
  the number does not fit.
\<close>

definition FillBytes :: "nat \<Rightarrow> nat \<Rightarrow> bytes outcome" where
  "FillBytes x n =
     (let bs = nat_be x in
      if n < length bs then Panicked ''math/big: buffer too small to fit value''
      else Returned (replicate (n - length bs) 0 @ bs))"

text \<open>\<open>elliptic.MarshalCompressed\<close> for a curve of 256 bits.\<close>

definition MarshalCompressed :: "(nat \<Rightarrow> nat \<Rightarrow> bool) \<Rightarrow> nat \<Rightarrow> nat \<Rightarrow> bytes outcome" where
  "MarshalCompressed onCurve x y =
     (if \<not> onCurve x y then Panicked ''crypto/elliptic: attempted operation on invalid point''
      else case FillBytes x 32 of
          Returned bs \<Rightarrow> Returned ((if odd y then 3 else 2) # bs)
        | Panicked m \<Rightarrow> Panicked m
        | Waiting \<Rightarrow> Waiting)"

section \<open>\<open>ecdsa.Verify\<close>\<close>

text \<open>
  The generic implementation, which is the one a curve that is not in the standard library gets.
  A point is a pair of coordinates, \<open>(0, 0)\<close> the point at infinity.
\<close>

record Curve =
  cv_N :: nat
  cv_NBits :: nat
  cv_ScalarBaseMult :: "bytes \<Rightarrow> nat \<times> nat"
  cv_ScalarMult :: "nat \<Rightarrow> nat \<Rightarrow> bytes \<Rightarrow> nat \<times> nat"
  cv_Add :: "nat \<times> nat \<Rightarrow> nat \<times> nat \<Rightarrow> nat \<times> nat"

definition hashToInt :: "Curve \<Rightarrow> bytes \<Rightarrow> nat" where
  "hashToInt c hash =
     (let orderBytes = (cv_NBits c + 7) div 8;
          hash = (if orderBytes < length hash then take orderBytes hash else hash);
          ret = be_nat hash;
          excess = length hash * 8 - cv_NBits c
      in ret div 2 ^ excess)"

definition ModInverse :: "nat \<Rightarrow> nat \<Rightarrow> nat" where
  "ModInverse g n = nat (fst (bezw g n) mod int n)"

definition ecdsa_Verify :: "Curve \<Rightarrow> EcdsaPub \<Rightarrow> bytes \<Rightarrow> nat \<Rightarrow> nat \<Rightarrow> bool" where
  "ecdsa_Verify c pub hash r s =
     (if r = 0 \<or> s = 0 \<or> cv_N c \<le> r \<or> cv_N c \<le> s then False
      else
        (let e = hashToInt c hash;
             w = ModInverse s (cv_N c);
             u1 = (e * w) mod cv_N c;
             u2 = (w * r) mod cv_N c;
             p1 = cv_ScalarBaseMult c (nat_be u1);
             p2 = cv_ScalarMult c (ep_X pub) (ep_Y pub) (nat_be u2);
             (x, y) = cv_Add c p1 p2
         in if x = 0 \<and> y = 0 then False else x mod cv_N c = r))"

lemma ecdsa_Verify_range:
  "ecdsa_Verify c pub hash r s \<Longrightarrow> 0 < r \<and> r < cv_N c \<and> 0 < s \<and> s < cv_N c"
  by (auto simp: ecdsa_Verify_def split: if_splits)

text \<open>Only the leading bytes of the hash, as many as the group order has, are looked at.\<close>

lemma hashToInt_prefix:
  assumes "(cv_NBits c + 7) div 8 \<le> length h"
  shows "hashToInt c (h @ t) = hashToInt c h"
  using assms by (cases t) (auto simp: hashToInt_def Let_def)

lemma ecdsa_Verify_prefix:
  "(cv_NBits c + 7) div 8 \<le> length h \<Longrightarrow> ecdsa_Verify c pub (h @ t) r s = ecdsa_Verify c pub h r s"
  by (simp add: ecdsa_Verify_def hashToInt_prefix)

lemma length_MarshalCompressed:
  "MarshalCompressed onCurve x y = Returned bs \<Longrightarrow> length bs = 33 \<and> (hd bs = 2 \<or> hd bs = 3)"
  by (auto simp: MarshalCompressed_def FillBytes_def Let_def split: if_splits)

end
