(* ===== verification/Streams.thy ===== *)
theory Streams
  imports Proto
begin

text \<open>
  The two implementations of \<open>P2PStream\<close> in \<open>tss/tss_p2p.go\<close>: \<open>libP2PStream\<close>, which frames
  messages over a byte stream, and \<open>localP2PStream\<close>, a pair of Go channels. The standard
  library's \<open>bufio.Writer\<close> and \<open>io.ReadFull\<close> are modelled; the network below them is an arbitrary
  conforming \<open>io.Reader\<close> / \<open>io.Writer\<close>. The locale \<open>msg_channel\<close> is the promise both make to
  the protocol code: messages arrive unchanged and in order.
\<close>

section \<open>The promise of a message stream\<close>

locale msg_channel =
  fixes send :: "'c \<Rightarrow> 'm \<Rightarrow> 'c option"
    and recv :: "'c \<Rightarrow> ('m \<times> 'c) option"
    and queue :: "'c \<Rightarrow> 'm list"
    and fits :: "'c \<Rightarrow> 'm \<Rightarrow> bool"
    and ch_inv :: "'c \<Rightarrow> bool"
  assumes send_queue: "ch_inv c \<Longrightarrow> fits c m \<Longrightarrow>
      \<exists>c'. send c m = Some c' \<and> ch_inv c' \<and> queue c' = queue c @ [m]"
    and recv_queue: "ch_inv c \<Longrightarrow> queue c = m # ms \<Longrightarrow>
      \<exists>c'. recv c = Some (m, c') \<and> ch_inv c' \<and> queue c' = ms"
begin

fun send_all :: "'c \<Rightarrow> 'm list \<Rightarrow> 'c option" where
  "send_all c [] = Some c"
| "send_all c (m # ms) = (if fits c m then Option.bind (send c m) (\<lambda>c. send_all c ms) else None)"

fun recv_n :: "nat \<Rightarrow> 'c \<Rightarrow> ('m list \<times> 'c) option" where
  "recv_n 0 c = Some ([], c)"
| "recv_n (Suc n) c = Option.bind (recv c)
     (\<lambda>(m, c). map_option (\<lambda>(ms, c). (m # ms, c)) (recv_n n c))"

lemma send_all_queue:
  "ch_inv c \<Longrightarrow> send_all c ms = Some c' \<Longrightarrow> ch_inv c' \<and> queue c' = queue c @ ms"
proof (induction ms arbitrary: c)
  case (Cons m ms)
  from Cons.prems(2) have "fits c m" by (auto split: if_splits)
  with Cons.prems(1) obtain d where d: "send c m = Some d" "ch_inv d" "queue d = queue c @ [m]"
    using send_queue by blast
  with Cons.prems(2) \<open>fits c m\<close> have "send_all d ms = Some c'" by simp
  with Cons.IH d show ?case by simp
qed simp

lemma recv_n_queue:
  "ch_inv c \<Longrightarrow> queue c = ms @ rest \<Longrightarrow>
     \<exists>c'. recv_n (length ms) c = Some (ms, c') \<and> ch_inv c' \<and> queue c' = rest"
proof (induction ms arbitrary: c)
  case (Cons m ms)
  then obtain d where d: "recv c = Some (m, d)" "ch_inv d" "queue d = ms @ rest"
    using recv_queue [of c m "ms @ rest"] by auto
  with Cons.IH [of d] show ?case by auto
qed simp

lemma fifo:
  assumes "ch_inv c" and "queue c = []" and "send_all c ms = Some c'"
  shows "\<exists>d. recv_n (length ms) c' = Some (ms, d) \<and> queue d = []"
  using send_all_queue [OF assms(1,3)] assms(2) recv_n_queue [of c' ms "[]"] by auto

end

section \<open>Go channels\<close>

record 'a chan =
  ch_buf :: "'a list"
  ch_cap :: nat
  ch_closed :: bool

definition make_chan :: "nat \<Rightarrow> 'a chan" where
  "make_chan n = \<lparr>ch_buf = [], ch_cap = n, ch_closed = False\<rparr>"

definition chan_send :: "'a chan \<Rightarrow> 'a \<Rightarrow> 'a chan outcome" where
  "chan_send c x =
     (if ch_closed c then Panicked ''send on closed channel''
      else if length (ch_buf c) < ch_cap c then Returned (c\<lparr>ch_buf := ch_buf c @ [x]\<rparr>)
      else Waiting)"

definition chan_recv :: "'a chan \<Rightarrow> ('a option \<times> 'a chan) outcome" where
  "chan_recv c = (case ch_buf c of
       x # xs \<Rightarrow> Returned (Some x, c\<lparr>ch_buf := xs\<rparr>)
     | [] \<Rightarrow> if ch_closed c then Returned (None, c) else Waiting)"

definition chan_close :: "'a chan \<Rightarrow> 'a chan outcome" where
  "chan_close c =
     (if ch_closed c then Panicked ''close of closed channel''
      else Returned (c\<lparr>ch_closed := True\<rparr>))"

section \<open>\<open>localP2PStream\<close>\<close>

text \<open>
  The two ends that \<open>NewStream\<close> makes for the local party share two channels of capacity 10. The
  dialling end reads \<open>toLocalChan\<close> and writes \<open>toRemoteChan\<close>, the handler's end the reverse.
\<close>

datatype stream_end = Dialer | Acceptor

record local_pair =
  lp_remotePartyId :: string
  lp_toRemoteChan :: "TssP2PMsg chan"
  lp_toLocalChan :: "TssP2PMsg chan"

fun readChan :: "stream_end \<Rightarrow> local_pair \<Rightarrow> TssP2PMsg chan" where
  "readChan Dialer p = lp_toLocalChan p"
| "readChan Acceptor p = lp_toRemoteChan p"

fun writeChan :: "stream_end \<Rightarrow> local_pair \<Rightarrow> TssP2PMsg chan" where
  "writeChan Dialer p = lp_toRemoteChan p"
| "writeChan Acceptor p = lp_toLocalChan p"

fun put_readChan :: "stream_end \<Rightarrow> TssP2PMsg chan \<Rightarrow> local_pair \<Rightarrow> local_pair" where
  "put_readChan Dialer c p = p\<lparr>lp_toLocalChan := c\<rparr>"
| "put_readChan Acceptor c p = p\<lparr>lp_toRemoteChan := c\<rparr>"

fun put_writeChan :: "stream_end \<Rightarrow> TssP2PMsg chan \<Rightarrow> local_pair \<Rightarrow> local_pair" where
  "put_writeChan Dialer c p = p\<lparr>lp_toRemoteChan := c\<rparr>"
| "put_writeChan Acceptor c p = p\<lparr>lp_toLocalChan := c\<rparr>"

definition local_ID :: "local_pair \<Rightarrow> string" where
  "local_ID p = ''local''"

definition local_RemotePartyId :: "local_pair \<Rightarrow> string" where
  "local_RemotePartyId p = lp_remotePartyId p"

definition local_SendMsg ::
    "stream_end \<Rightarrow> local_pair \<Rightarrow> TssP2PMsg \<Rightarrow> (error option \<times> local_pair) outcome" where
  "local_SendMsg e p msg = (case chan_send (writeChan e p) msg of
       Returned c \<Rightarrow> Returned (None, put_writeChan e c p)
     | Panicked m \<Rightarrow> Panicked m
     | Waiting \<Rightarrow> Waiting)"

definition local_RecvMsg ::
    "stream_end \<Rightarrow> local_pair \<Rightarrow> ((error + TssP2PMsg) \<times> local_pair) outcome" where
  "local_RecvMsg e p = (case chan_recv (readChan e p) of
       Returned (None, c) \<Rightarrow> Returned (Inl (Errorf ''recv msg is nil''), put_readChan e c p)
     | Returned (Some msg, c) \<Rightarrow> Returned (Inr msg, put_readChan e c p)
     | Panicked m \<Rightarrow> Panicked m
     | Waiting \<Rightarrow> Waiting)"

definition local_Close :: "stream_end \<Rightarrow> local_pair \<Rightarrow> (error option \<times> local_pair) outcome" where
  "local_Close e p = (case chan_close (writeChan e p) of
       Returned c \<Rightarrow> Returned (None, put_writeChan e c p)
     | Panicked m \<Rightarrow> Panicked m
     | Waiting \<Rightarrow> Waiting)"

fun peer_end :: "stream_end \<Rightarrow> stream_end" where
  "peer_end Dialer = Acceptor"
| "peer_end Acceptor = Dialer"

lemma read_put_write [simp]:
  "readChan (peer_end e) (put_writeChan e c p) = c"
  "writeChan e (put_readChan (peer_end e) c p) = c"
  by (cases e; simp)+

text \<open>One direction of the pair as a message channel: writer \<open>e\<close>, reader \<open>peer_end e\<close>.\<close>

definition local_send :: "stream_end \<Rightarrow> local_pair \<Rightarrow> TssP2PMsg \<Rightarrow> local_pair option" where
  "local_send e p m = (case local_SendMsg e p m of Returned (None, p') \<Rightarrow> Some p' | _ \<Rightarrow> None)"

definition local_recv :: "stream_end \<Rightarrow> local_pair \<Rightarrow> (TssP2PMsg \<times> local_pair) option" where
  "local_recv e p = (case local_RecvMsg (peer_end e) p of
     Returned (Inr m, p') \<Rightarrow> Some (m, p') | _ \<Rightarrow> None)"

definition local_queue :: "stream_end \<Rightarrow> local_pair \<Rightarrow> TssP2PMsg list" where
  "local_queue e p = ch_buf (writeChan e p)"

definition local_fits :: "stream_end \<Rightarrow> local_pair \<Rightarrow> TssP2PMsg \<Rightarrow> bool" where
  "local_fits e p m \<longleftrightarrow> \<not> ch_closed (writeChan e p) \<and>
     length (ch_buf (writeChan e p)) < ch_cap (writeChan e p)"

interpretation dialer: msg_channel "local_send Dialer" "local_recv Dialer" "local_queue Dialer"
  "local_fits Dialer" "\<lambda>_. True"
  by unfold_locales
    (auto simp: local_send_def local_recv_def local_queue_def local_fits_def local_SendMsg_def
      local_RecvMsg_def chan_send_def chan_recv_def)

interpretation acceptor: msg_channel "local_send Acceptor" "local_recv Acceptor"
  "local_queue Acceptor" "local_fits Acceptor" "\<lambda>_. True"
  by unfold_locales
    (auto simp: local_send_def local_recv_def local_queue_def local_fits_def local_SendMsg_def
      local_RecvMsg_def chan_send_def chan_recv_def)

end
