(* ===== verification/P2P.thy ===== *)
theory P2P
  imports Streams
begin

text \<open>
  \<open>LibP2PManager\<close> of \<open>tss/tss_p2p.go\<close>: construction, start, bootstrap, the table of stream
  handlers, opening of streams, and the (currently unused) reconnect loop. The libp2p library is
  a parameter, the record \<open>LibP2P\<close>: what its calls return. Types: \<open>'ai\<close> is
  \<open>peer.AddrInfo\<close>, \<open>'ma\<close> \<open>multiaddr.Multiaddr\<close>, \<open>'sk\<close> \<open>crypto.PrivKey\<close>, \<open>'pid\<close>
  \<open>peer.ID\<close>, \<open>'st\<close> \<open>network.Stream\<close>, \<open>'h\<close> a \<open>P2PStreamHandler\<close>.
\<close>

record ('ai, 'ma, 'sk, 'pid, 'st) LibP2P =
  IDFromPrivateKey :: "'sk \<Rightarrow> error + string"
  PublicKeyRaw :: "'sk \<Rightarrow> error + bytes"
  NewConnManager :: "nat \<Rightarrow> nat \<Rightarrow> error option"
  libp2p_New :: "'ma \<Rightarrow> 'sk \<Rightarrow> error option"
  host_Connect :: "'ai \<Rightarrow> error option"
  peer_Decode :: "string \<Rightarrow> error + 'pid"
  host_NewStream :: "'pid \<Rightarrow> string \<Rightarrow> error + 'st"
  host_Close :: "error option"

record ('ai, 'ma, 'sk, 'h) LibP2PManager =
  lm_bootstrapPeers :: "'ai list"
  lm_listenAddr :: 'ma
  lm_privateKey :: 'sk
  lm_localPartyId :: PartyID
  lm_localHandlerMap :: "(string \<times> 'h) list"
  lm_host :: "(string \<times> 'h) list option"

text \<open>
  \<open>lm_host\<close> is nil before \<open>Start\<close>; then it is the host, of which the model keeps the protocol
  handlers registered with it.
\<close>

definition nil_deref :: string where
  "nil_deref = ''invalid memory address or nil pointer dereference''"

section \<open>Construction and start\<close>

definition NewLibP2PManager ::
    "('ai, 'ma, 'sk, 'pid, 'st) LibP2P \<Rightarrow> 'ai list \<Rightarrow> 'ma \<Rightarrow> 'sk \<Rightarrow> string
     \<Rightarrow> error + ('ai, 'ma, 'sk, 'h) LibP2PManager" where
  "NewLibP2PManager E bootstrapPeers listenAddr privateKey moniker =
     (if length bootstrapPeers < 1 then Inl (Errorf ''not enough bootstrap peers'')
      else case IDFromPrivateKey E privateKey of
          Inl err \<Rightarrow> Inl err
        | Inr peerId \<Rightarrow>
          (case PublicKeyRaw E privateKey of
             Inl err \<Rightarrow> Inl err
           | Inr pubKeyBytes \<Rightarrow>
               Inr \<lparr>lm_bootstrapPeers = bootstrapPeers, lm_listenAddr = listenAddr,
                    lm_privateKey = privateKey,
                    lm_localPartyId = \<lparr>pid_Id = peerId, pid_Moniker = moniker, pid_Key = pubKeyBytes\<rparr>,
                    lm_localHandlerMap = [], lm_host = None\<rparr>))"

definition LocalPartyId :: "('ai, 'ma, 'sk, 'h) LibP2PManager \<Rightarrow> PartyID" where
  "LocalPartyId m = lm_localPartyId m"

text \<open>
  \<open>bootstrapConnect\<close> dials every peer in its own goroutine; a failed dial puts its error into
  \<open>errs\<close>, a channel with room for one error per peer. After all are done the errors are counted
  and the result is nil. The model returns the errors too, as what was logged.
\<close>

definition bootstrapConnect ::
    "('ai, 'ma, 'sk, 'pid, 'st) LibP2P \<Rightarrow> ('ai, 'ma, 'sk, 'h) LibP2PManager
     \<Rightarrow> (error option \<times> error list) outcome" where
  "bootstrapConnect E m =
     (if length (lm_bootstrapPeers m) < 1
      then Returned (Some (Errorf ''not enough bootstrap peers''), [])
      else case lm_host m of
          None \<Rightarrow> Panicked nil_deref
        | Some _ \<Rightarrow>
          (let errs = List.map_filter (host_Connect E) (lm_bootstrapPeers m);
               count = length errs
           in Returned (None, errs)))"

definition Start ::
    "('ai, 'ma, 'sk, 'pid, 'st) LibP2P \<Rightarrow> ('ai, 'ma, 'sk, 'h) LibP2PManager
     \<Rightarrow> (error option \<times> ('ai, 'ma, 'sk, 'h) LibP2PManager) outcome" where
  "Start E m =
     (case NewConnManager E 100 400 of
        Some err \<Rightarrow> Returned (Some err, m)
      | None \<Rightarrow>
        (case libp2p_New E (lm_listenAddr m) (lm_privateKey m) of
           Some err \<Rightarrow> Returned (Some err, m)
         | None \<Rightarrow>
           (let m = m\<lparr>lm_host := Some []\<rparr> in
            case bootstrapConnect E m of
              Returned (Some err, _) \<Rightarrow> Returned (Some err, m)
            | Returned (None, _) \<Rightarrow> Returned (None, m)
            | Panicked msg \<Rightarrow> Panicked msg
            | Waiting \<Rightarrow> Waiting)))"

definition Stop ::
    "('ai, 'ma, 'sk, 'pid, 'st) LibP2P \<Rightarrow> ('ai, 'ma, 'sk, 'h) LibP2PManager
     \<Rightarrow> error option outcome" where
  "Stop E m = (case lm_host m of
     None \<Rightarrow> Panicked nil_deref
   | Some _ \<Rightarrow> (let err = host_Close E in Returned err))"

section \<open>Handlers and streams\<close>

definition SetStreamHandler ::
    "string \<Rightarrow> 'h \<Rightarrow> ('ai, 'ma, 'sk, 'h) LibP2PManager
     \<Rightarrow> ('ai, 'ma, 'sk, 'h) LibP2PManager outcome" where
  "SetStreamHandler protocolId handler m =
     (let m = m\<lparr>lm_localHandlerMap := AList.update protocolId handler (lm_localHandlerMap m)\<rparr> in
      case lm_host m of
        None \<Rightarrow> Panicked nil_deref
      | Some hs \<Rightarrow> Returned (m\<lparr>lm_host := Some (AList.update protocolId handler hs)\<rparr>))"

definition RemoveStreamHandler ::
    "string \<Rightarrow> ('ai, 'ma, 'sk, 'h) LibP2PManager
     \<Rightarrow> ('ai, 'ma, 'sk, 'h) LibP2PManager outcome" where
  "RemoveStreamHandler protocolId m =
     (let m = m\<lparr>lm_localHandlerMap := AList.delete protocolId (lm_localHandlerMap m)\<rparr> in
      case lm_host m of
        None \<Rightarrow> Panicked nil_deref
      | Some hs \<Rightarrow> Returned (m\<lparr>lm_host := Some (AList.delete protocolId hs)\<rparr>))"

text \<open>
  A stream to the local party is a pair of channels whose other end is given to the registered
  handler in a new goroutine; any other stream is opened by the host.
\<close>

datatype ('st, 'h) P2PStream = LocalStream local_pair 'h | RemoteStream 'st

definition NewStream ::
    "('ai, 'ma, 'sk, 'pid, 'st) LibP2P \<Rightarrow> ('ai, 'ma, 'sk, 'h) LibP2PManager
     \<Rightarrow> string \<Rightarrow> string \<Rightarrow> (error + ('st, 'h) P2PStream) outcome" where
  "NewStream E m remotePartyId protocolId =
     (if remotePartyId = pid_Id (lm_localPartyId m) then
        (case map_of (lm_localHandlerMap m) protocolId of
           Some localHandler \<Rightarrow>
             (let toRemoteChan = make_chan 10; toLocalChan = make_chan 10 in
              Returned (Inr (LocalStream
                \<lparr>lp_remotePartyId = remotePartyId, lp_toRemoteChan = toRemoteChan,
                 lp_toLocalChan = toLocalChan\<rparr> localHandler)))
         | None \<Rightarrow> Returned (Inl (Errorf (''no local handler for protocol '' @ protocolId))))
      else
        (case peer_Decode E remotePartyId of
           Inl err \<Rightarrow> Returned (Inl err)
         | Inr peerId \<Rightarrow>
           (case lm_host m of
              None \<Rightarrow> Panicked nil_deref
            | Some _ \<Rightarrow>
              (case host_NewStream E peerId protocolId of
                 Inl err \<Rightarrow> Returned (Inl err)
               | Inr stream \<Rightarrow> Returned (Inr (RemoteStream stream))))))"

text \<open>
  \<open>libP2PStream\<close> wraps a \<open>network.Stream\<close>; beside its bytes, which theory \<open>Framing\<close> is about, it
  answers for its id, the peer at its other end and its close. What libp2p returns is a parameter.
\<close>

record ('st, 'pid) NetStream =
  stream_ID :: "'st \<Rightarrow> string"
  conn_RemotePeer :: "'st \<Rightarrow> 'pid"
  peer_String :: "'pid \<Rightarrow> string"
  stream_Close :: "'st \<Rightarrow> error option"

record 'st libP2PStream =
  lps_stream :: 'st

definition lib_ID :: "('st, 'pid) NetStream \<Rightarrow> 'st libP2PStream \<Rightarrow> string" where
  "lib_ID N l = stream_ID N (lps_stream l)"

definition lib_RemotePartyId :: "('st, 'pid) NetStream \<Rightarrow> 'st libP2PStream \<Rightarrow> string" where
  "lib_RemotePartyId N l = peer_String N (conn_RemotePeer N (lps_stream l))"

definition lib_Close :: "('st, 'pid) NetStream \<Rightarrow> 'st libP2PStream \<Rightarrow> error option" where
  "lib_Close N l = stream_Close N (lps_stream l)"

text \<open>The id and the remote party of a stream, through the interface.\<close>

fun stream_RemotePartyId :: "('st, 'pid) NetStream \<Rightarrow> ('st, 'h) P2PStream \<Rightarrow> string" where
  "stream_RemotePartyId N (LocalStream lp h) = local_RemotePartyId lp"
| "stream_RemotePartyId N (RemoteStream st) = lib_RemotePartyId N \<lparr>lps_stream = st\<rparr>"

section \<open>The reconnect loop\<close>

text \<open>
  \<open>strconv.ParseInt(s, 10, 64)\<close> with its error dropped: 0 for a syntax error, the nearest
  bound for a number out of range. Digits are read from the left, and the range error is
  reported at the first digit that overflows 64 bits.
\<close>

datatype parse_result = SyntaxErr | RangeErr | Parsed nat

definition digit_of :: "char \<Rightarrow> nat option" where
  "digit_of c = (let n = (of_char c :: nat) in if 48 \<le> n \<and> n \<le> 57 then Some (n - 48) else None)"

fun parse_uint :: "nat \<Rightarrow> string \<Rightarrow> parse_result" where
  "parse_uint n [] = Parsed n"
| "parse_uint n (c # s) = (case digit_of c of
     None \<Rightarrow> SyntaxErr
   | Some d \<Rightarrow> if 2 ^ 64 \<le> n * 10 + d then RangeErr else parse_uint (n * 10 + d) s)"

definition ParseInt64 :: "string \<Rightarrow> int64" where
  "ParseInt64 s =
     (let neg = (case s of c # _ \<Rightarrow> c = CHR ''-'' | [] \<Rightarrow> False);
          ds = (case s of c # t \<Rightarrow> if c = CHR ''+'' \<or> c = CHR ''-'' then t else s | [] \<Rightarrow> s);
          res = (if ds = [] then SyntaxErr else parse_uint 0 ds)
      in case res of
           SyntaxErr \<Rightarrow> 0
         | RangeErr \<Rightarrow> if neg then word_of_int (- (2 ^ 63)) else word_of_int (2 ^ 63 - 1)
         | Parsed un \<Rightarrow>
             if \<not> neg \<and> 2 ^ 63 \<le> un then word_of_int (2 ^ 63 - 1)
             else if neg \<and> 2 ^ 63 < un then word_of_int (- (2 ^ 63))
             else if neg then - word_of_nat un else word_of_nat un)"

definition autoReconnectTimeSec :: "string \<Rightarrow> int64" where
  "autoReconnectTimeSec autoReconnectTime =
     (let sec = ParseInt64 autoReconnectTime in if sec = 0 then 3600 else sec)"

text \<open>\<open>time.NewTicker\<close> panics for a duration that is not positive.\<close>

definition reconnect_ticker :: "string \<Rightarrow> int64 outcome" where
  "reconnect_ticker autoReconnectTime =
     (let d = autoReconnectTimeSec autoReconnectTime * 1000000000 in
      if d \<le>s 0 then Panicked ''non-positive interval for NewTicker'' else Returned d)"

text \<open>The body of one tick: try again until \<open>bootstrapConnect\<close> returns nil; counts the tries.\<close>

partial_function (option) reconnect_until ::
    "('ai, 'ma, 'sk, 'pid, 'st) LibP2P \<Rightarrow> ('ai, 'ma, 'sk, 'h) LibP2PManager \<Rightarrow> nat \<Rightarrow> nat option" where
  "reconnect_until E m tries =
     (case bootstrapConnect E m of
        Returned (None, _) \<Rightarrow> Some (Suc tries)
      | _ \<Rightarrow> reconnect_until E m (Suc tries))"

section \<open>Lemmas\<close>

lemma bootstrapConnect_nil:
  "lm_bootstrapPeers m \<noteq> [] \<Longrightarrow> lm_host m \<noteq> None \<Longrightarrow>
     bootstrapConnect E m = Returned (None, List.map_filter (host_Connect E) (lm_bootstrapPeers m))"
  by (auto simp: bootstrapConnect_def Suc_le_eq)

lemma map_filter_length: "length (List.map_filter f xs) \<le> length xs"
  by (induction xs) (auto split: option.splits)

lemma SetStreamHandler_lookup:
  "lm_host m = Some hs \<Longrightarrow> \<exists>m'. SetStreamHandler p h m = Returned m' \<and>
     map_of (lm_localHandlerMap m') = (map_of (lm_localHandlerMap m))(p \<mapsto> h) \<and>
     (\<exists>hs'. lm_host m' = Some hs' \<and> map_of hs' = (map_of hs)(p \<mapsto> h)) \<and>
     lm_localPartyId m' = lm_localPartyId m"
  by (simp add: SetStreamHandler_def update_conv')

lemma RemoveStreamHandler_lookup:
  "lm_host m = Some hs \<Longrightarrow> \<exists>m'. RemoveStreamHandler p m = Returned m' \<and>
     map_of (lm_localHandlerMap m') = (map_of (lm_localHandlerMap m))(p := None) \<and>
     (\<exists>hs'. lm_host m' = Some hs' \<and> map_of hs' = (map_of hs)(p := None)) \<and>
     lm_localPartyId m' = lm_localPartyId m"
  by (simp add: RemoveStreamHandler_def delete_conv')

text \<open>
  A handler table in which both copies agree: what a remote peer can reach is what the local
  party can reach. \<open>Start\<close> establishes it for a fresh manager, the two operations keep it.
\<close>

definition handlers_agree :: "('ai, 'ma, 'sk, 'h) LibP2PManager \<Rightarrow> bool" where
  "handlers_agree m \<longleftrightarrow> (\<exists>hs. lm_host m = Some hs \<and> map_of hs = map_of (lm_localHandlerMap m))"

lemma handlers_agree_Set:
  assumes "handlers_agree m"
  shows "\<exists>m'. SetStreamHandler p h m = Returned m' \<and> handlers_agree m' \<and>
    map_of (lm_localHandlerMap m') = (map_of (lm_localHandlerMap m))(p \<mapsto> h)"
proof -
  from assms obtain hs where hs: "lm_host m = Some hs" "map_of hs = map_of (lm_localHandlerMap m)"
    by (auto simp: handlers_agree_def)
  from hs(2) SetStreamHandler_lookup [OF hs(1)] show ?thesis
    unfolding handlers_agree_def by fastforce
qed

lemma handlers_agree_Remove:
  assumes "handlers_agree m"
  shows "\<exists>m'. RemoveStreamHandler p m = Returned m' \<and> handlers_agree m' \<and>
    map_of (lm_localHandlerMap m') = (map_of (lm_localHandlerMap m))(p := None)"
proof -
  from assms obtain hs where hs: "lm_host m = Some hs" "map_of hs = map_of (lm_localHandlerMap m)"
    by (auto simp: handlers_agree_def)
  from hs(2) RemoveStreamHandler_lookup [OF hs(1)] show ?thesis
    unfolding handlers_agree_def by fastforce
qed

lemma Start_agree:
  "Start E m = Returned (None, m') \<Longrightarrow> lm_localHandlerMap m = [] \<Longrightarrow> handlers_agree m'"
  by (auto simp: Start_def handlers_agree_def Let_def
      split: option.splits outcome.splits prod.splits)

lemma reconnect_once:
  "lm_bootstrapPeers m \<noteq> [] \<Longrightarrow> lm_host m \<noteq> None \<Longrightarrow> reconnect_until E m n = Some (Suc n)"
  by (subst reconnect_until.simps) (simp add: bootstrapConnect_nil)

lemma local_NewStream:
  assumes "map_of (lm_localHandlerMap m) p = Some h"
  shows "\<exists>lp. NewStream E m (pid_Id (LocalPartyId m)) p = Returned (Inr (LocalStream lp h)) \<and>
    local_RemotePartyId lp = pid_Id (LocalPartyId m) \<and>
    local_queue Dialer lp = [] \<and> local_queue Acceptor lp = []"
  using assms
  by (simp add: NewStream_def LocalPartyId_def local_RemotePartyId_def local_queue_def make_chan_def)

text \<open>
  What an opened stream says its other end is: the id it was opened with when that is the local
  party, otherwise the spelling libp2p prints for the peer the id decodes to. The coordinators file
  their ready streams under it.
\<close>

definition reported_id ::
    "('ai, 'ma, 'sk, 'pid, 'st) LibP2P \<Rightarrow> ('st, 'pid) NetStream \<Rightarrow> ('ai, 'ma, 'sk, 'h) LibP2PManager
     \<Rightarrow> string \<Rightarrow> string" where
  "reported_id E N m i =
     (if i = pid_Id (LocalPartyId m) then i
      else case peer_Decode E i of Inl err \<Rightarrow> i | Inr pid \<Rightarrow> peer_String N pid)"

lemma NewStream_reports:
  assumes "NewStream E m i p = Returned (Inr s)"
    and "\<And>pid st. host_NewStream E pid p = Inr st \<Longrightarrow> conn_RemotePeer N st = pid"
  shows "stream_RemotePartyId N s = reported_id E N m i"
  using assms(1)
  by (auto simp: NewStream_def reported_id_def LocalPartyId_def local_RemotePartyId_def lib_RemotePartyId_def Let_def
      dest: assms(2) split: if_splits option.splits sum.splits)

text \<open>
  Two parties of a list are told apart by their streams when their ids decode to different peers
  and none is another spelling of the local party.
\<close>

lemma reported_id_inj:
  assumes "inj (peer_String N)" and "i \<noteq> pid_Id (LocalPartyId m)" "j \<noteq> pid_Id (LocalPartyId m)"
    and "peer_Decode E i = Inr a" "peer_Decode E j = Inr b"
  shows "reported_id E N m i = reported_id E N m j \<longleftrightarrow> a = b"
  using assms by (simp add: reported_id_def inj_eq)

end
