(* ===== verification/Format.thy ===== *)
theory Format
  imports Prelude
begin

text \<open>
  Two parts of the standard library that several components use: UTF-8 (\<open>unicode/utf8\<close>) and
  \<open>fmt.Sprintf\<close> on a format without operands, which is what the code calls when it passes a
  text it did not write as the format.
\<close>

section \<open>UTF-8\<close>

definition RuneError :: nat where "RuneError = 65533"

text \<open>
  What the first byte of a sequence says: its length and the range of the second byte; none for a
  byte that cannot start a sequence.
\<close>

definition utf8_first :: "nat \<Rightarrow> (nat \<times> nat \<times> nat) option" where
  "utf8_first b =
     (if b < 194 then None
      else if b < 224 then Some (2, 128, 191)
      else if b = 224 then Some (3, 160, 191)
      else if b = 237 then Some (3, 128, 159)
      else if b < 240 then Some (3, 128, 191)
      else if b = 240 then Some (4, 144, 191)
      else if b < 244 then Some (4, 128, 191)
      else if b = 244 then Some (4, 128, 143)
      else None)"

definition cont :: "byte \<Rightarrow> bool" where
  "cont b \<longleftrightarrow> 128 \<le> unat b \<and> unat b \<le> 191"

text \<open>\<open>utf8.DecodeRune\<close>: the rune and the number of bytes it takes; one for an invalid byte.\<close>

fun DecodeRune :: "bytes \<Rightarrow> nat \<times> nat" where
  "DecodeRune [] = (RuneError, 0)"
| "DecodeRune (b # bs) =
     (if unat b < 128 then (unat b, 1)
      else case utf8_first (unat b) of
          None \<Rightarrow> (RuneError, 1)
        | Some (sz, lo, hi) \<Rightarrow>
            if Suc (length bs) < sz \<or> \<not> (lo \<le> unat (bs ! 0) \<and> unat (bs ! 0) \<le> hi) \<or>
               \<not> list_all cont (take (sz - 2) (tl bs))
            then (RuneError, 1)
            else (foldl (\<lambda>r c. r * 64 + unat c mod 64)
                    (unat b mod (if sz = 2 then 32 else if sz = 3 then 16 else 8))
                    (take (sz - 1) bs), sz))"

lemma DecodeRune_size: "bs \<noteq> [] \<Longrightarrow> 0 < snd (DecodeRune bs) \<and> snd (DecodeRune bs) \<le> length bs"
  by (cases bs) (auto simp: utf8_first_def Let_def Suc_le_eq split: option.splits if_splits)

function runes :: "bytes \<Rightarrow> nat list" where
  "runes bs = (if bs = [] then []
     else (let (r, n) = DecodeRune bs in r # runes (drop n bs)))"
  by pat_completeness auto
termination
proof (relation "measure length", goal_cases)
  case (2 bs x r n)
  with DecodeRune_size [of bs] show ?case by (cases "DecodeRune bs") auto
qed simp

declare runes.simps [simp del]

definition EncodeRune :: "nat \<Rightarrow> bytes" where
  "EncodeRune r =
     (if r < 128 then [of_nat r]
      else if r < 2048 then [of_nat (192 + r div 64), of_nat (128 + r mod 64)]
      else if r < 65536 \<and> \<not> (55296 \<le> r \<and> r < 57344)
      then [of_nat (224 + r div 4096), of_nat (128 + r div 64 mod 64), of_nat (128 + r mod 64)]
      else if 65536 \<le> r \<and> r < 1114112
      then [of_nat (240 + r div 262144), of_nat (128 + r div 4096 mod 64),
            of_nat (128 + r div 64 mod 64), of_nat (128 + r mod 64)]
      else [239, 191, 189])"

lemma DecodeRune_ascii [simp]: "unat b < 128 \<Longrightarrow> DecodeRune (b # bs) = (unat b, 1)"
  by simp

lemma DecodeRune_invalid: "245 \<le> unat b \<Longrightarrow> DecodeRune (b # bs) = (RuneError, 1)"
  by (simp add: utf8_first_def)

declare DecodeRune.simps(2) [simp del]

section \<open>Formats without operands\<close>

definition is_digit :: "char \<Rightarrow> bool" where
  "is_digit c \<longleftrightarrow> 48 \<le> (of_char c :: nat) \<and> (of_char c :: nat) \<le> 57"

text \<open>A number is given up, with the rest of its text, once it exceeds a million.\<close>

fun too_large :: "nat \<Rightarrow> string \<Rightarrow> bool" where
  "too_large n [] = False"
| "too_large n (c # cs) =
     (is_digit c \<and> (1000000 < n \<or> too_large (n * 10 + (of_char c - 48)) cs))"

definition has_num :: "string \<Rightarrow> bool" where
  "has_num s \<longleftrightarrow> \<not> too_large 0 s \<and> s \<noteq> [] \<and> is_digit (hd s)"

definition after_num :: "string \<Rightarrow> string" where
  "after_num s = (if too_large 0 s then [] else dropWhile is_digit s)"

definition starts :: "char \<Rightarrow> string \<Rightarrow> bool" where
  "starts c s \<longleftrightarrow> (case s of [] \<Rightarrow> False | d # _ \<Rightarrow> d = c)"

text \<open>
  An argument index in brackets: whether it is one, whether it names an operand (it never does),
  and what follows.
\<close>

definition argNumber :: "string \<Rightarrow> bool \<times> bool \<times> string" where
  "argNumber s =
     (if \<not> starts (CHR ''['') s then (False, True, s)
      else
        (let cs = tl s; ds = takeWhile (\<lambda>c. c \<noteq> CHR '']'') cs in
         if length s < 3 \<or> length ds = length cs then (False, False, cs)
         else (has_num ds \<and> after_num ds = [], False, drop (Suc (length ds)) cs)))"

text \<open>
  The state while a directive is read: what was written, whether an index came last, whether every
  index named an operand, and the rest of the format.
\<close>

type_synonym fmt_state = "string \<times> bool \<times> bool \<times> string"

fun fmt_index :: "fmt_state \<Rightarrow> fmt_state" where
  "fmt_index (out, _, good, s) = (let (afterIndex, g, s) = argNumber s in (out, afterIndex, good \<and> g, s))"

fun fmt_width :: "fmt_state \<Rightarrow> fmt_state" where
  "fmt_width (out, afterIndex, good, s) =
     (if starts (CHR ''*'') s then (out @ ''%!(BADWIDTH)'', False, good, tl s)
      else (out, afterIndex, good \<and> \<not> (afterIndex \<and> has_num s), after_num s))"

fun fmt_star :: "fmt_state \<Rightarrow> fmt_state" where
  "fmt_star (out, afterIndex, good, s) =
     (if starts (CHR ''*'') s then (out @ ''%!(BADPREC)'', False, good, tl s)
      else (out, afterIndex, good, after_num s))"

fun fmt_prec :: "fmt_state \<Rightarrow> fmt_state" where
  "fmt_prec (out, afterIndex, good, s) =
     (if starts (CHR ''.'') s then fmt_star (fmt_index (out, afterIndex, good \<and> \<not> afterIndex, tl s))
      else (out, afterIndex, good, s))"

fun fmt_last :: "fmt_state \<Rightarrow> fmt_state" where
  "fmt_last (out, afterIndex, good, s) =
     (if afterIndex then (out, afterIndex, good, s) else fmt_index (out, afterIndex, good, s))"

fun fmt_verb :: "fmt_state \<Rightarrow> string \<times> string" where
  "fmt_verb (out, _, good, s) =
     (if s = [] then (out @ ''%!(NOVERB)'', [])
      else
        (let (verb, size) = DecodeRune (bytes_of s) in
         (out @ (if verb = 37 then ''%''
                 else ''%!'' @ string_of (EncodeRune verb) @ (if good then ''(MISSING)'' else ''(BADINDEX)'')),
          drop size s)))"

text \<open>What is written for the directive whose text after the percent sign is \<open>s\<close>, and the rest.\<close>

definition directive :: "string \<Rightarrow> string \<times> string" where
  "directive s = fmt_verb (fmt_last (fmt_prec (fmt_width (fmt_index
     ([], False, True, dropWhile (\<lambda>c. c \<in> set ''#0+- '') s)))))"

function Sprintf :: "string \<Rightarrow> string" where
  "Sprintf [] = []"
| "Sprintf (c # cs) =
     (if c \<noteq> CHR ''%'' then c # Sprintf cs
      else let (out, rest) = directive cs in out @ Sprintf rest)"
  by pat_completeness auto

abbreviation fmt_rest :: "fmt_state \<Rightarrow> nat" where
  "fmt_rest st \<equiv> length (snd (snd (snd st)))"

lemma length_after_num: "length (after_num s) \<le> length s"
  by (simp add: after_num_def length_dropWhile_le)

lemma length_argNumber: "argNumber s = (a, g, s') \<Longrightarrow> length s' \<le> length s"
  by (auto simp: argNumber_def Let_def split: if_splits)

lemma fmt_rests:
  "fmt_rest (fmt_index st) \<le> fmt_rest st" "fmt_rest (fmt_width st) \<le> fmt_rest st"
  "fmt_rest (fmt_star st) \<le> fmt_rest st"
  by (cases st; auto dest: length_argNumber simp: length_after_num split: prod.splits)+

lemma fmt_rests_prec: "fmt_rest (fmt_prec st) \<le> fmt_rest st" "fmt_rest (fmt_last st) \<le> fmt_rest st"
proof -
  obtain out a g s where st: "st = (out, a, g, s)" by (cases st)
  let ?i = "fmt_index (out, a, g \<and> \<not> a, tl s)"
  have "fmt_rest (fmt_star ?i) \<le> fmt_rest ?i" by (rule fmt_rests)
  also have "\<dots> \<le> fmt_rest (out, a, g \<and> \<not> a, tl s)" by (rule fmt_rests)
  also have "\<dots> \<le> length s" by simp
  finally show "fmt_rest (fmt_prec st) \<le> fmt_rest st"
    by (simp add: st del: fmt_index.simps fmt_star.simps)
  show "fmt_rest (fmt_last st) \<le> fmt_rest st"
    using fmt_rests(1) [of st] by (auto simp: st simp del: fmt_index.simps)
qed

lemma fmt_verb_rest: "length (snd (fmt_verb st)) \<le> fmt_rest st"
  by (cases st) (auto split: prod.splits)

declare fmt_index.simps [simp del] fmt_width.simps [simp del] fmt_prec.simps [simp del]
  fmt_last.simps [simp del] fmt_verb.simps [simp del]

lemma length_directive: "length (snd (directive s)) \<le> length s"
proof -
  let ?s = "dropWhile (\<lambda>c. c \<in> set ''#0+- '') s"
  let ?a = "fmt_index ([], False, True, ?s)"
  let ?c = "fmt_prec (fmt_width ?a)"
  have "length (snd (fmt_verb (fmt_last ?c))) \<le> fmt_rest (fmt_last ?c)" by (rule fmt_verb_rest)
  also have "\<dots> \<le> fmt_rest ?c" by (rule fmt_rests_prec)
  also have "\<dots> \<le> fmt_rest (fmt_width ?a)" by (rule fmt_rests_prec)
  also have "\<dots> \<le> fmt_rest ?a" by (rule fmt_rests)
  also have "\<dots> \<le> fmt_rest ([], False, True, ?s)" by (rule fmt_rests)
  also have "\<dots> \<le> length s" by (simp only: snd_conv length_dropWhile_le)
  finally show ?thesis by (simp only: directive_def)
qed

termination Sprintf
proof (relation "measure length", goal_cases)
  case (3 c cs x out rest)
  with length_directive [of cs] show ?case by (cases "directive cs") auto
qed simp_all

lemma Sprintf_plain: "CHR ''%'' \<notin> set s \<Longrightarrow> Sprintf s = s"
  by (induction s) auto

end
