(* ===== verification/Manager.thy ===== *)
theory Manager
  imports Storage TssLib P2P Format
begin

text \<open>
  \<open>tss/tss_manager.go\<close>: the manager's construction, its start and stop, the read-only service
  methods, and the operations on the key store that the protocol handlers share. Every store
  operation holds the manager's mutex from its first to its last line, so each is one atomic
  function of the store. Logging is left out.
\<close>

text \<open>
  The \<open>Validator\<close> interface. Its answers come from another service and change over time: the
  first argument is the moment of the call.
\<close>

record Validator =
  v_KeyGenValidate :: "nat \<Rightarrow> string \<Rightarrow> int32 \<Rightarrow> PartyID list \<Rightarrow> error option"
  v_KeySignValidate :: "nat \<Rightarrow> string \<Rightarrow> string \<Rightarrow> bytes \<Rightarrow> error + bytes"

text \<open>The manager; of its communicator it needs the local party id (the streams are inputs).\<close>

record 's Manager =
  m_localStorage :: "'s LocalStorage"
  m_LocalPartyId :: PartyID
  m_validator :: Validator
  m_dev :: bool

definition NewManager :: "'s LocalStorage \<Rightarrow> PartyID \<Rightarrow> Validator \<Rightarrow> bool \<Rightarrow> 's Manager" where
  "NewManager localStorage localPartyId validator dev =
     \<lparr>m_localStorage = localStorage, m_LocalPartyId = localPartyId, m_validator = validator,
      m_dev = dev\<rparr>"

section \<open>Start and stop\<close>

text \<open>The functions the node registers as stream handlers; a session handler has its session id.\<close>

datatype node_handler =
  HandleKeyGen | HandleKeySign | KeyGenSessionHandler string | KeySignSessionHandler string

definition Manager_Start ::
    "('ai, 'ma, 'sk, node_handler) LibP2PManager
     \<Rightarrow> ('ai, 'ma, 'sk, node_handler) LibP2PManager outcome" where
  "Manager_Start p2p =
     (case SetStreamHandler ''/tss/keyGen'' HandleKeyGen p2p of
        Returned p2p \<Rightarrow> SetStreamHandler ''/tss/keySign'' HandleKeySign p2p
      | Panicked m \<Rightarrow> Panicked m | Waiting \<Rightarrow> Waiting)"

definition Manager_Stop ::
    "('ai, 'ma, 'sk, node_handler) LibP2PManager
     \<Rightarrow> ('ai, 'ma, 'sk, node_handler) LibP2PManager outcome" where
  "Manager_Stop p2p =
     (case RemoveStreamHandler ''/tss/keySign'' p2p of
        Returned p2p \<Rightarrow> RemoveStreamHandler ''/tss/keyGen'' p2p
      | Panicked m \<Rightarrow> Panicked m | Waiting \<Rightarrow> Waiting)"

section \<open>The key store\<close>

fun findActive :: "KeyData list \<Rightarrow> error option" where
  "findActive [] = None"
| "findActive (d # ds) =
     (if kd_Status d = KEY_STATUS_READY then Some (Errorf ''key already exist'')
      else if kd_Status d = KEY_STATUS_PENDING
      then Some (Errorf ''key is generating, please do not repeat'')
      else findActive ds)"

definition pendingKeyData ::
    "string \<Rightarrow> string \<Rightarrow> int32 \<Rightarrow> PartyID list \<Rightarrow> Timestamp option \<Rightarrow> KeyData" where
  "pendingKeyData keyId sessionId threshold allPartyId createdTime =
     \<lparr>kd_KeyId = keyId, kd_KeySessionId = sessionId, kd_Threshold = threshold,
      kd_AllPartyId = allPartyId, kd_Pubkey = [], kd_Status = KEY_STATUS_PENDING,
      kd_SaveDataJson = [], kd_CreatedTime = createdTime, kd_UpdatedTime = createdTime\<rparr>"

definition checkAndSetKeyGenStorage ::
    "'s LocalStorage \<Rightarrow> string \<Rightarrow> string \<Rightarrow> int32 \<Rightarrow> PartyID list \<Rightarrow> Timestamp option
     \<Rightarrow> 's \<Rightarrow> error option \<times> 's" where
  "checkAndSetKeyGenStorage ls keyId sessionId threshold allPartyId createdTime s =
     (case ls_GetKeyDataListByKeyId ls s keyId of
        Inl err \<Rightarrow> (Some err, s)
      | Inr keyDataList \<Rightarrow>
        (case findActive keyDataList of
           Some err \<Rightarrow> (Some err, s)
         | None \<Rightarrow>
             ls_SetKeyData ls s (pendingKeyData keyId sessionId threshold allPartyId createdTime)))"

fun findSession :: "string \<Rightarrow> KeyData list \<Rightarrow> error option" where
  "findSession sessionId [] = None"
| "findSession sessionId (d # ds) =
     (if kd_KeySessionId d = sessionId then Some (Errorf ''key already exist'')
      else findSession sessionId ds)"

definition checkAndSetKeyResharingStorage ::
    "'s LocalStorage \<Rightarrow> string \<Rightarrow> string \<Rightarrow> int32 \<Rightarrow> PartyID list \<Rightarrow> Timestamp option
     \<Rightarrow> 's \<Rightarrow> error option \<times> 's" where
  "checkAndSetKeyResharingStorage ls keyId sessionId threshold allPartyId createdTime s =
     (case ls_GetKeyDataListByKeyId ls s keyId of
        Inl err \<Rightarrow> (Some err, s)
      | Inr keyDataList \<Rightarrow>
        (case findSession sessionId keyDataList of
           Some err \<Rightarrow> (Some err, s)
         | None \<Rightarrow>
             ls_SetKeyData ls s (pendingKeyData keyId sessionId threshold allPartyId createdTime)))"

text \<open>The loop of \<open>getLatestReadyKeyDataByKeyIdFromStorage\<close> with its variable.\<close>

fun latestReady :: "KeyData option \<Rightarrow> KeyData list \<Rightarrow> KeyData option" where
  "latestReady latestKeyData [] = latestKeyData"
| "latestReady latestKeyData (d # ds) =
     (if kd_Status d \<noteq> KEY_STATUS_READY then latestReady latestKeyData ds
      else if (case latestKeyData of None \<Rightarrow> True
               | Some l \<Rightarrow> time_After (AsTime (kd_CreatedTime d)) (AsTime (kd_CreatedTime l)))
      then latestReady (Some d) ds
      else latestReady latestKeyData ds)"

definition getLatestReadyKeyDataByKeyIdFromStorage ::
    "'s LocalStorage \<Rightarrow> string \<Rightarrow> 's \<Rightarrow> error + KeyData option" where
  "getLatestReadyKeyDataByKeyIdFromStorage ls keyId s =
     (case ls_GetKeyDataListByKeyId ls s keyId of
        Inl err \<Rightarrow> Inl err
      | Inr keyDataList \<Rightarrow> Inr (latestReady None keyDataList))"

definition getKeyDataByKeyIdAndKeySessionIdFromStorage ::
    "'s LocalStorage \<Rightarrow> string \<Rightarrow> string \<Rightarrow> 's \<Rightarrow> error + KeyData option" where
  "getKeyDataByKeyIdAndKeySessionIdFromStorage ls keyId keySessionId s =
     ls_GetKeyDataByKeyIdAndKeySessionId ls s keyId keySessionId"

definition compareAndSetKeyStatusStorage ::
    "'s LocalStorage \<Rightarrow> string \<Rightarrow> string \<Rightarrow> bytes \<Rightarrow> KeyStatus \<Rightarrow> KeyStatus \<Rightarrow> string
     \<Rightarrow> Timestamp option \<Rightarrow> 's \<Rightarrow> error option \<times> 's" where
  "compareAndSetKeyStatusStorage ls keyId keySessionId pubKey expectStatus updateStatus
       updateSavedDataJson updatedTime s =
     (case ls_GetKeyDataByKeyIdAndKeySessionId ls s keyId keySessionId of
        Inl err \<Rightarrow> (Some err, s)
      | Inr None \<Rightarrow> (Some (Errorf ''key data not found''), s)
      | Inr (Some keyData) \<Rightarrow>
          if kd_Status keyData \<noteq> expectStatus
          then (Some (Errorf ''key data status not equal expect status''), s)
          else ls_SetKeyData ls s
            (keyData\<lparr>kd_Status := updateStatus, kd_SaveDataJson := updateSavedDataJson,
                     kd_UpdatedTime := updatedTime, kd_Pubkey := pubKey\<rparr>))"

section \<open>Read-only service methods\<close>

definition GetLocalPartyId :: "'s Manager \<Rightarrow> GetLocalPartyIdRequest \<Rightarrow> error + GetLocalPartyIdResponse" where
  "GetLocalPartyId m request = Inr \<lparr>lpr_PartyId = Some (m_LocalPartyId m)\<rparr>"

text \<open>The error text is used as a format string without operands.\<close>

definition GetKey :: "'s Manager \<Rightarrow> 's \<Rightarrow> GetKeyRequest \<Rightarrow> error + GetKeyResponse" where
  "GetKey m s request =
     (case getLatestReadyKeyDataByKeyIdFromStorage (m_localStorage m) (gkq_KeyId request) s of
        Inl err \<Rightarrow> Inl (Status NotFound (Sprintf (err_text err)))
      | Inr None \<Rightarrow> Inl (Status NotFound ''key data is nil'')
      | Inr (Some keyData) \<Rightarrow>
          Inr \<lparr>gkr_KeyId = gkq_KeyId request, gkr_PublicKey = kd_Pubkey keyData,
               gkr_Threshold = kd_Threshold keyData, gkr_AllPartyId = kd_AllPartyId keyData,
               gkr_Status = kd_Status keyData\<rparr>)"

text \<open>\<open>ToECDSA\<close> of a parsed \<open>btcec\<close> key is the parameter \<open>toECDSA\<close>.\<close>

definition VerifySignature ::
    "Curve \<Rightarrow> ('pre, 'sd, 'pm, 'pk) TssLib \<Rightarrow> ('pk \<Rightarrow> EcdsaPub)
     \<Rightarrow> VerifySignatureRequest \<Rightarrow> error + VerifySignatureResponse" where
  "VerifySignature c T toECDSA request =
     (case btcec_ParsePubKey T (vsq_PublicKey request) of
        Inl err \<Rightarrow> Inl (Status Internal (Sprintf (err_text err)))
      | Inr pubKey \<Rightarrow>
        (let isValid = ecdsa_Verify c (toECDSA pubKey)
               (VerifySignatureRequest_GetSignMsg (Some request))
               (be_nat (VerifySignatureRequest_GetSignatureR (Some request)))
               (be_nat (VerifySignatureRequest_GetSignatureS (Some request)))
         in Inr \<lparr>vsr_IsValid = isValid\<rparr>))"

definition convertToTssPartyId :: "('pre, 'sd, 'pm, 'pk) TssLib \<Rightarrow> PartyID \<Rightarrow> TssPartyID" where
  "convertToTssPartyId T p = NewPartyID T (pid_Id p) (pid_Moniker p) (be_nat (pid_Key p))"

definition convertToPbPartyId :: "TssPartyID \<Rightarrow> PartyID" where
  "convertToPbPartyId p = \<lparr>pid_Id = tpid_Id p, pid_Moniker = tpid_Moniker p, pid_Key = tpid_Key p\<rparr>"

section \<open>Lemmas about the loops\<close>

definition live :: "KeyData \<Rightarrow> bool" where
  "live d \<longleftrightarrow> kd_Status d = KEY_STATUS_READY \<or> kd_Status d = KEY_STATUS_PENDING"

lemma findActive_None: "findActive ds = None \<longleftrightarrow> (\<forall>d \<in> set ds. \<not> live d)"
  by (induction ds) (auto simp: live_def)

lemma findSession_None: "findSession sid ds = None \<longleftrightarrow> (\<forall>d \<in> set ds. kd_KeySessionId d \<noteq> sid)"
  by (induction ds) auto

abbreviation created :: "KeyData \<Rightarrow> int" where
  "created d \<equiv> time_key (AsTime (kd_CreatedTime d))"

lemma latestReady_Some:
  "\<exists>r. latestReady (Some l) ds = Some r \<and> created l \<le> created r \<and>
     (r = l \<or> r \<in> set ds \<and> kd_Status r = KEY_STATUS_READY) \<and>
     (\<forall>d \<in> set ds. kd_Status d = KEY_STATUS_READY \<longrightarrow> created d \<le> created r)"
proof (induction ds arbitrary: l)
  case (Cons d ds)
  show ?case
  proof (cases "kd_Status d = KEY_STATUS_READY \<and> created l < created d")
    case True
    then show ?thesis using Cons.IH [of d] by (auto simp: time_After_key)
  next
    case False
    then show ?thesis using Cons.IH [of l] by (auto simp: time_After_key)
  qed
qed simp

lemma latestReady_None_eq:
  "latestReady None ds = None \<longleftrightarrow> (\<forall>d \<in> set ds. kd_Status d \<noteq> KEY_STATUS_READY)"
proof (induction ds)
  case (Cons d ds)
  then show ?case using latestReady_Some [of d ds] by auto
qed simp

lemma latestReady_max:
  "latestReady None ds = Some r \<Longrightarrow> r \<in> set ds \<and> kd_Status r = KEY_STATUS_READY \<and>
     (\<forall>d \<in> set ds. kd_Status d = KEY_STATUS_READY \<longrightarrow> created d \<le> created r)"
proof (induction ds)
  case (Cons d ds)
  then show ?case using latestReady_Some [of d ds] by (auto split: if_splits)
qed simp

section \<open>The operations under the contract of the store\<close>

lemma prefix_row_key [simp]: "prefix (row_key k []) (row_key k sid)"
  by (simp add: row_key_def)

context local_storage
begin

definition key_rows :: "'s \<Rightarrow> string \<Rightarrow> KeyData set" where
  "key_rows s keyId = {d. rows s (row_of d) = Some d \<and> prefix (row_key keyId []) (row_of d)}"

lemma get_list_rows:
  assumes "ls_inv s"
  obtains ds where "ls_GetKeyDataListByKeyId ls s keyId = Inr ds" and "set ds = key_rows s keyId"
  using get_list [OF assms, of keyId] by (auto simp: key_rows_def)

lemma own_row: "rows s (row_key keyId sid) = Some d \<Longrightarrow> ls_inv s \<Longrightarrow> d \<in> key_rows s keyId"
  using rows_row [of s "row_key keyId sid" d] prefix_row_key [of keyId sid]
  by (simp add: key_rows_def)

lemma key_rows_iff:
  assumes inv: "ls_inv s"
  shows "d \<in> key_rows s keyId \<longleftrightarrow> (\<exists>sid. rows s (row_key keyId sid) = Some d)"
proof
  assume "d \<in> key_rows s keyId"
  then have r: "rows s (row_of d) = Some d" "prefix (row_key keyId []) (row_of d)"
    by (simp_all add: key_rows_def)
  from r(2) obtain z where "row_of d = row_key keyId z" by (auto simp: row_key_def prefix_def)
  with r(1) show "\<exists>sid. rows s (row_key keyId sid) = Some d" by metis
qed (use own_row inv in blast)

text \<open>Key generation is admitted exactly when no row under the key id is pending or ready.\<close>

lemma keygen_admitted:
  assumes inv: "ls_inv s" and free: "\<forall>d \<in> key_rows s keyId. \<not> live d"
    and ok: "storable (pendingKeyData keyId sid t ps c)"
  shows "\<exists>s'. checkAndSetKeyGenStorage ls keyId sid t ps c s = (None, s') \<and> ls_inv s' \<and>
    rows s' = (rows s)(row_key keyId sid \<mapsto> pendingKeyData keyId sid t ps c)"
proof -
  obtain ds where "ls_GetKeyDataListByKeyId ls s keyId = Inr ds" "set ds = key_rows s keyId"
    by (rule get_list_rows [OF inv])
  moreover from this free have "findActive ds = None" by (simp add: findActive_None)
  ultimately show ?thesis
    using set_ok [OF inv ok] by (auto simp: checkAndSetKeyGenStorage_def pendingKeyData_def)
qed

lemma keygen_refused:
  assumes inv: "ls_inv s" and d: "d \<in> key_rows s keyId" "live d"
  shows "\<exists>e. checkAndSetKeyGenStorage ls keyId sid t ps c s = (Some e, s) \<and>
    e \<in> {Errorf ''key already exist'', Errorf ''key is generating, please do not repeat''}"
proof -
  obtain ds where ds: "ls_GetKeyDataListByKeyId ls s keyId = Inr ds" "set ds = key_rows s keyId"
    by (rule get_list_rows [OF inv])
  have act: "findActive xs = None \<or> findActive xs \<in> Some ` {Errorf ''key already exist'',
      Errorf ''key is generating, please do not repeat''}" for xs
    by (induction xs) auto
  from ds d have "findActive ds \<noteq> None" by (auto simp: findActive_None)
  with act [of ds] ds show ?thesis by (auto simp: checkAndSetKeyGenStorage_def)
qed

lemma keygen_cases:
  assumes inv: "ls_inv s" and r: "checkAndSetKeyGenStorage ls keyId sid t ps c s = (e, s')"
  shows "e \<noteq> None \<and> s' = s \<or>
    e = None \<and> ls_inv s' \<and> (\<forall>d \<in> key_rows s keyId. \<not> live d) \<and>
      rows s' = (rows s)(row_key keyId sid \<mapsto> pendingKeyData keyId sid t ps c)"
proof (cases "\<forall>d \<in> key_rows s keyId. \<not> live d")
  case True
  show ?thesis
  proof (cases "storable (pendingKeyData keyId sid t ps c)")
    case ok: True
    from keygen_admitted [OF inv True ok] r True show ?thesis by auto
  next
    case False
    obtain ds where "ls_GetKeyDataListByKeyId ls s keyId = Inr ds" "set ds = key_rows s keyId"
      by (rule get_list_rows [OF inv])
    moreover from this True have "findActive ds = None" by (simp add: findActive_None)
    ultimately show ?thesis
      using set_fail [OF inv False] r by (auto simp: checkAndSetKeyGenStorage_def)
  qed
next
  case False
  then obtain d where "d \<in> key_rows s keyId" "live d" by blast
  from keygen_refused [OF inv this, of sid t ps c] r show ?thesis by auto
qed

text \<open>A status change happens exactly when the row has the expected status.\<close>

lemma cas_cases:
  assumes inv: "ls_inv s"
    and r: "compareAndSetKeyStatusStorage ls keyId sid pk ex up js u s = (e, s')"
  shows "e \<noteq> None \<and> s' = s \<or>
    e = None \<and> ls_inv s' \<and> (\<exists>d. rows s (row_key keyId sid) = Some d \<and> kd_Status d = ex \<and>
      rows s' = (rows s)(row_key keyId sid \<mapsto>
        d\<lparr>kd_Status := up, kd_SaveDataJson := js, kd_UpdatedTime := u, kd_Pubkey := pk\<rparr>))"
proof (cases "rows s (row_key keyId sid)")
  case None
  with r get_one [OF inv] show ?thesis by (auto simp: compareAndSetKeyStatusStorage_def)
next
  case (Some d)
  let ?d = "d\<lparr>kd_Status := up, kd_SaveDataJson := js, kd_UpdatedTime := u, kd_Pubkey := pk\<rparr>"
  from rows_row [OF inv Some] have key: "row_of ?d = row_key keyId sid" by simp
  show ?thesis
  proof (cases "kd_Status d = ex")
    case st: True
    show ?thesis
    proof (cases "storable ?d")
      case True
      from set_ok [OF inv True] st Some key r get_one [OF inv] show ?thesis
        by (auto simp: compareAndSetKeyStatusStorage_def)
    next
      case False
      from set_fail [OF inv False] st Some r get_one [OF inv] show ?thesis
        by (auto simp: compareAndSetKeyStatusStorage_def)
    qed
  next
    case False
    with Some r get_one [OF inv] show ?thesis
      by (auto simp: compareAndSetKeyStatusStorage_def)
  qed
qed

lemma latest_ready_spec:
  assumes inv: "ls_inv s"
  shows "\<exists>res. getLatestReadyKeyDataByKeyIdFromStorage ls keyId s = Inr res \<and>
    (case res of
       None \<Rightarrow> \<forall>d \<in> key_rows s keyId. kd_Status d \<noteq> KEY_STATUS_READY
     | Some r \<Rightarrow> r \<in> key_rows s keyId \<and> kd_Status r = KEY_STATUS_READY \<and>
         (\<forall>d \<in> key_rows s keyId. kd_Status d = KEY_STATUS_READY \<longrightarrow> created d \<le> created r))"
proof -
  obtain ds where "ls_GetKeyDataListByKeyId ls s keyId = Inr ds" "set ds = key_rows s keyId"
    by (rule get_list_rows [OF inv])
  then show ?thesis
    using latestReady_None_eq [of ds] latestReady_max [of ds]
    by (auto simp: getLatestReadyKeyDataByKeyIdFromStorage_def split: option.splits)
qed

end

section \<open>Key ids without colons\<close>

text \<open>
  The rows under a key id are the records of that key id, provided no key id involved holds a
  colon: then the prefix \<open>keyId:\<close> determines the key id.
\<close>

lemma row_key_prefix:
  assumes "CHR '':'' \<notin> set k" and "CHR '':'' \<notin> set k'"
  shows "prefix (row_key k []) (row_key k' sid) \<longleftrightarrow> k = k'"
proof
  assume "prefix (row_key k []) (row_key k' sid)"
  then obtain z where "k @ CHR '':'' # z = k' @ CHR '':'' # sid"
    by (auto simp: row_key_def prefix_def)
  with assms show "k = k'"
    by (auto simp: append_eq_append_conv2 append_eq_Cons_conv Cons_eq_append_conv)
qed (simp add: row_key_def)

lemma row_key_inject:
  assumes "CHR '':'' \<notin> set k" and "CHR '':'' \<notin> set k'"
  shows "row_key k sid = row_key k' sid' \<longleftrightarrow> k = k' \<and> sid = sid'"
proof
  assume eq: "row_key k sid = row_key k' sid'"
  then have "prefix (row_key k []) (row_key k' sid')" by (metis prefix_row_key)
  then have "k = k'" using row_key_prefix [OF assms] by blast
  with eq show "k = k' \<and> sid = sid'" by (simp add: row_key_def)
qed simp

end
