(* ===== verification/Instance.thy ===== *)
theory Instance
  imports Manager
begin

text \<open>
  Concrete functions for the parameters of the storage model: a sorted association list as the
  database and a self-delimiting byte code as the codec. They show that the hypotheses
  \<open>tm_db\<close> and \<open>kd_codec\<close> can hold together, and the witnesses evaluate on them.
\<close>

section \<open>An in-memory database\<close>

type_synonym memdb = "(bytes \<times> bytes) list"

fun mem_set :: "bytes \<Rightarrow> bytes \<Rightarrow> memdb \<Rightarrow> memdb" where
  "mem_set k v [] = [(k, v)]"
| "mem_set k v ((k', v') # s) =
     (if k < k' then (k, v) # (k', v') # s
      else if k = k' then (k, v) # s else (k', v') # mem_set k v s)"

definition MemDB :: "memdb DB" where
  "MemDB = \<lparr>db_Get = map_of,
     db_SetSync = (\<lambda>s k v. mem_set k v s),
     db_DeleteSync = (\<lambda>s k. filter (\<lambda>(k', _). k' \<noteq> k) s),
     db_Iterator = (\<lambda>s start stop. filter (\<lambda>(k, _). start \<le> k \<and>
       (case stop of None \<Rightarrow> True | Some e \<Rightarrow> k < e)) s)\<rparr>"

definition mem_inv :: "memdb \<Rightarrow> bool" where
  "mem_inv s \<longleftrightarrow> sorted_wrt (<) (map fst s)"

lemma map_of_mem_set: "sorted_wrt (<) (map fst s) \<Longrightarrow> map_of (mem_set k v s) = (map_of s)(k \<mapsto> v)"
  by (induction k v s rule: mem_set.induct) (auto simp: fun_eq_iff)

lemma fst_set_mem_set: "fst ` set (mem_set k v s) = insert k (fst ` set s)"
  by (induction k v s rule: mem_set.induct) auto

lemma sorted_mem_set: "sorted_wrt (<) (map fst s) \<Longrightarrow> sorted_wrt (<) (map fst (mem_set k v s))"
proof (induction k v s rule: mem_set.induct)
  case (2 k v k' v' s)
  then show ?case
    using fst_set_mem_set [of k v s] by auto
qed simp

lemma map_of_filter_key: "map_of (filter (\<lambda>(k', _). k' \<noteq> k) s) = (map_of s)(k := None)"
  by (induction s) (auto simp: fun_eq_iff)

lemma sorted_map_fst_filter:
  "sorted_wrt (<) (map fst s) \<Longrightarrow> sorted_wrt (<) (map fst (filter P s))"
  by (induction s) auto

lemma sorted_keys_distinct: "sorted_wrt (<) (map fst (s :: memdb)) \<Longrightarrow> distinct (map fst s)"
  by (simp add: strict_sorted_iff)

interpretation mem: tm_db MemDB mem_inv
  by unfold_locales
    (auto simp: MemDB_def mem_inv_def map_of_mem_set map_of_filter_key sorted_mem_set
      sorted_map_fst_filter sorted_keys_distinct)

section \<open>Self-delimiting codes\<close>

text \<open>A code is an encoder and a decoder that reads one value and returns the rest.\<close>

definition code :: "('a \<Rightarrow> bytes) \<Rightarrow> (bytes \<Rightarrow> ('a \<times> bytes) option) \<Rightarrow> bool" where
  "code e d \<longleftrightarrow> (\<forall>x r. d (e x @ r) = Some (x, r))"

fun enc_nat :: "nat \<Rightarrow> bytes" where
  "enc_nat 0 = [0]"
| "enc_nat (Suc n) = 1 # enc_nat n"

fun dec_nat :: "bytes \<Rightarrow> (nat \<times> bytes) option" where
  "dec_nat [] = None"
| "dec_nat (b # r) = (if b = 0 then Some (0, r) else map_option (\<lambda>(n, r). (Suc n, r)) (dec_nat r))"

lemma code_nat: "code enc_nat dec_nat"
proof -
  have "dec_nat (enc_nat n @ r) = Some (n, r)" for n r
    by (induction n) auto
  then show ?thesis by (simp add: code_def)
qed

fun dec_seq :: "(bytes \<Rightarrow> ('a \<times> bytes) option) \<Rightarrow> nat \<Rightarrow> bytes \<Rightarrow> ('a list \<times> bytes) option" where
  "dec_seq d 0 r = Some ([], r)"
| "dec_seq d (Suc n) r = (case d r of None \<Rightarrow> None
     | Some (x, r) \<Rightarrow> map_option (\<lambda>(xs, r). (x # xs, r)) (dec_seq d n r))"

definition enc_list :: "('a \<Rightarrow> bytes) \<Rightarrow> 'a list \<Rightarrow> bytes" where
  "enc_list e xs = enc_nat (length xs) @ concat (map e xs)"

definition dec_list :: "(bytes \<Rightarrow> ('a \<times> bytes) option) \<Rightarrow> bytes \<Rightarrow> ('a list \<times> bytes) option" where
  "dec_list d bs = (case dec_nat bs of None \<Rightarrow> None | Some (n, r) \<Rightarrow> dec_seq d n r)"

lemma code_list: "code e d \<Longrightarrow> code (enc_list e) (dec_list d)"
proof -
  assume c: "code e d"
  have "dec_seq d (length xs) (concat (map e xs) @ r) = Some (xs, r)" for xs r
    using c by (induction xs) (auto simp: code_def)
  then show ?thesis
    using code_nat by (auto simp: code_def enc_list_def dec_list_def)
qed

definition enc_pair :: "('a \<Rightarrow> bytes) \<Rightarrow> ('b \<Rightarrow> bytes) \<Rightarrow> 'a \<times> 'b \<Rightarrow> bytes" where
  "enc_pair e f p = e (fst p) @ f (snd p)"

definition dec_pair :: "(bytes \<Rightarrow> ('a \<times> bytes) option) \<Rightarrow> (bytes \<Rightarrow> ('b \<times> bytes) option)
    \<Rightarrow> bytes \<Rightarrow> (('a \<times> 'b) \<times> bytes) option" where
  "dec_pair d g bs = (case d bs of None \<Rightarrow> None
     | Some (x, r) \<Rightarrow> map_option (\<lambda>(y, r). ((x, y), r)) (g r))"

lemma code_pair: "code e d \<Longrightarrow> code f g \<Longrightarrow> code (enc_pair e f) (dec_pair d g)"
  by (auto simp: code_def enc_pair_def dec_pair_def)

text \<open>A code for one type gives a code for any type that embeds into it.\<close>

definition enc_via :: "('b \<Rightarrow> 'a) \<Rightarrow> ('a \<Rightarrow> bytes) \<Rightarrow> 'b \<Rightarrow> bytes" where
  "enc_via f e x = e (f x)"

definition dec_via :: "('a \<Rightarrow> 'b) \<Rightarrow> (bytes \<Rightarrow> ('a \<times> bytes) option) \<Rightarrow> bytes
    \<Rightarrow> ('b \<times> bytes) option" where
  "dec_via g d bs = map_option (\<lambda>(x, r). (g x, r)) (d bs)"

lemma code_via: "code e d \<Longrightarrow> (\<And>x. g (f x) = x) \<Longrightarrow> code (enc_via f e) (dec_via g d)"
  by (auto simp: code_def enc_via_def dec_via_def)

fun dec_byte :: "bytes \<Rightarrow> (byte \<times> bytes) option" where
  "dec_byte [] = None"
| "dec_byte (b # r) = Some (b, r)"

lemma code_byte: "code (\<lambda>b. [b]) dec_byte"
  by (simp add: code_def)

abbreviation "enc_bytes \<equiv> enc_list (\<lambda>b. [b :: byte])"
abbreviation "dec_bytes \<equiv> dec_list dec_byte"
abbreviation "enc_string \<equiv> enc_via bytes_of enc_bytes"
abbreviation "dec_string \<equiv> dec_via string_of dec_bytes"

lemma code_bytes: "code enc_bytes dec_bytes"
  by (intro code_list code_byte)

lemma code_string: "code enc_string dec_string"
  by (intro code_via code_bytes) simp

fun dec_u32 :: "bytes \<Rightarrow> (int32 \<times> bytes) option" where
  "dec_u32 (a # b # c # d # r) = Some (get_uint32 [a, b, c, d], r)"
| "dec_u32 _ = None"

lemma code_u32: "code put_uint32 dec_u32"
  using get_put_uint32 by (simp add: code_def put_uint32_def)

abbreviation "enc_u64 \<equiv> enc_via (\<lambda>w. (ucast w :: int32, ucast (drop_bit 32 w) :: int32))
   (enc_pair put_uint32 put_uint32)"
abbreviation "dec_u64 \<equiv> dec_via (\<lambda>(l, h). (ucast l :: int64) OR push_bit 32 (ucast h))
   (dec_pair dec_u32 dec_u32)"

lemma split_u64: "(ucast (ucast w :: int32) :: int64) OR push_bit 32 (ucast (ucast (drop_bit 32 w) :: int32)) = w"
  by (rule bit_word_eqI) (auto simp: bit_simps)

lemma code_u64: "code enc_u64 dec_u64"
  by (intro code_via code_pair code_u32) (simp add: split_u64)

section \<open>A codec for \<open>KeyData\<close>\<close>

abbreviation "enc_party \<equiv> enc_via (\<lambda>p. (pid_Id p, pid_Moniker p, pid_Key p))
   (enc_pair enc_string (enc_pair enc_string enc_bytes))"
abbreviation "dec_party \<equiv> dec_via (\<lambda>(i, m, k). \<lparr>pid_Id = i, pid_Moniker = m, pid_Key = k\<rparr>)
   (dec_pair dec_string (dec_pair dec_string dec_bytes))"

abbreviation "enc_time \<equiv> enc_via (\<lambda>t. case t of None \<Rightarrow> [] | Some t \<Rightarrow> [(ts_Seconds t, ts_Nanos t)])
   (enc_list (enc_pair enc_u64 put_uint32))"
abbreviation "dec_time \<equiv> dec_via (\<lambda>ts. case ts of [] \<Rightarrow> None
     | (s, n) # _ \<Rightarrow> Some \<lparr>ts_Seconds = s, ts_Nanos = n\<rparr>)
   (dec_list (dec_pair dec_u64 dec_u32))"

lemma code_party: "code enc_party dec_party"
  by (intro code_via code_pair code_string code_bytes) simp

lemma code_time: "code enc_time dec_time"
  by (intro code_via code_list code_pair code_u64 code_u32) (simp split: option.splits)

definition enc_KeyData :: "KeyData \<Rightarrow> bytes" where
  "enc_KeyData = enc_via
     (\<lambda>d. (kd_KeyId d, kd_KeySessionId d, kd_Threshold d, kd_AllPartyId d, kd_Pubkey d,
           kd_Status d, kd_SaveDataJson d, kd_CreatedTime d, kd_UpdatedTime d))
     (enc_pair enc_string (enc_pair enc_string (enc_pair put_uint32 (enc_pair (enc_list enc_party)
       (enc_pair enc_bytes (enc_pair put_uint32 (enc_pair enc_string (enc_pair enc_time enc_time))))))))"

definition dec_KeyData :: "bytes \<Rightarrow> (KeyData \<times> bytes) option" where
  "dec_KeyData = dec_via
     (\<lambda>(i, s, t, ps, k, st, j, c, u). \<lparr>kd_KeyId = i, kd_KeySessionId = s, kd_Threshold = t,
        kd_AllPartyId = ps, kd_Pubkey = k, kd_Status = st, kd_SaveDataJson = j,
        kd_CreatedTime = c, kd_UpdatedTime = u\<rparr>)
     (dec_pair dec_string (dec_pair dec_string (dec_pair dec_u32 (dec_pair (dec_list dec_party)
       (dec_pair dec_bytes (dec_pair dec_u32 (dec_pair dec_string (dec_pair dec_time dec_time))))))))"

lemma code_KeyData: "code enc_KeyData dec_KeyData"
  unfolding enc_KeyData_def dec_KeyData_def
  by (intro code_via code_pair code_string code_u32 code_list code_party code_bytes code_time) simp

text \<open>As protobuf does, the codec refuses a key id that is not valid UTF-8 (here: not ASCII).\<close>

definition DemoCodec :: KeyDataCodec where
  "DemoCodec =
     \<lparr>pb_Marshal = (\<lambda>d. if list_all (\<lambda>c. (of_char c :: nat) < 128) (kd_KeyId d)
        then Inr (enc_KeyData d) else Inl (Errorf ''string field contains invalid UTF-8'')),
      pb_Unmarshal = (\<lambda>bs. case dec_KeyData bs of
          Some (d, []) \<Rightarrow>
            if list_all (\<lambda>c. (of_char c :: nat) < 128) (kd_KeyId d) then Inr d
            else Inl (Errorf ''string field contains invalid UTF-8'')
        | _ \<Rightarrow> Inl (Errorf ''cannot parse invalid wire-format data''))\<rparr>"

lemma dec_enc_KeyData [simp]: "dec_KeyData (enc_KeyData d) = Some (d, [])"
  using code_KeyData by (metis code_def append_Nil2)

interpretation demo: leveldb MemDB mem_inv DemoCodec
  by unfold_locales (auto simp: DemoCodec_def split: if_splits)

lemma demo_leveldb: "leveldb MemDB mem_inv DemoCodec"
  by (rule demo.leveldb_axioms)

lemma demo_empty: "demo.lv_inv []"
  by (rule demo.lv_inv_empty) (simp_all add: mem_inv_def MemDB_def)

lemma demo_empty_rows: "demo.lv_rows [] = Map.empty"
  by (rule demo.lv_rows_empty) (simp add: MemDB_def)

end
