(* ===== verification/Framing.thy ===== *)
theory Framing
  imports Streams
begin

text \<open>
  \<open>libP2PStream\<close> of \<open>tss/tss_p2p.go\<close>: a message is a four-byte little-endian length and the
  protobuf bytes. The codec is a parameter (\<open>MsgCodec\<close>). The stream below is any conforming
  \<open>io.Reader\<close> (bytes arrive in arbitrary chunks, then an error) and any conforming \<open>io.Writer\<close>
  (each call accepts everything, or a part together with an error).
\<close>

record MsgCodec =
  mc_Marshal :: "TssP2PMsg \<Rightarrow> error + bytes"
  mc_Unmarshal :: "bytes \<Rightarrow> error + TssP2PMsg"

definition EOF_error :: error where "EOF_error = Errorf ''EOF''"
definition UnexpectedEOF_error :: error where "UnexpectedEOF_error = Errorf ''unexpected EOF''"

section \<open>\<open>io.ReadFull\<close>\<close>

record reader =
  rd_chunks :: "bytes list"
  rd_err :: error

text \<open>
  \<open>io.ReadFull\<close> keeps reading into the rest of the buffer until it is full or the reader fails.
  A read returns at most the bytes asked for; what is left of a chunk stays for the next read.
\<close>

function read_loop :: "bytes list \<Rightarrow> nat \<Rightarrow> bytes \<Rightarrow> bytes \<times> bytes list" where
  "read_loop cs n acc =
     (if n \<le> length acc then (acc, cs)
      else case cs of
          [] \<Rightarrow> (acc, [])
        | c # cs' \<Rightarrow>
            (let k = n - length acc
             in read_loop (if length c \<le> k then cs' else drop k c # cs') n (acc @ take k c)))"
  by pat_completeness auto
termination
  by (relation "measures [\<lambda>(cs, n, acc). length cs, \<lambda>(cs, n, acc). n - length acc]") auto

declare read_loop.simps [simp del]

definition ReadFull :: "reader \<Rightarrow> nat \<Rightarrow> (bytes \<times> error option) \<times> reader" where
  "ReadFull r n =
     (let (bs, cs) = read_loop (rd_chunks r) n [] in
      ((bs, if n \<le> length bs then None
            else if 0 < length bs \<and> rd_err r = EOF_error then Some UnexpectedEOF_error
            else Some (rd_err r)),
       r\<lparr>rd_chunks := cs\<rparr>))"

lemma read_loop_concat:
  "length acc \<le> n \<Longrightarrow> read_loop cs n acc = (bs, cs') \<Longrightarrow>
     bs = acc @ take (n - length acc) (concat cs) \<and> concat cs' = drop (n - length acc) (concat cs)"
proof (induction cs n acc arbitrary: bs cs' rule: read_loop.induct)
  case (1 cs n acc)
  show ?case
  proof (cases "n \<le> length acc")
    case True
    with "1.prems" show ?thesis by (simp add: read_loop.simps)
  next
    case False
    note n = False
    show ?thesis
    proof (cases cs)
      case Nil
      with n "1.prems" show ?thesis by (simp add: read_loop.simps [of "[]" n acc])
    next
      case (Cons c cs2)
      let ?k = "n - length acc"
      from n Cons "1.prems"(2) have step:
        "read_loop (if length c \<le> ?k then cs2 else drop ?k c # cs2) n (acc @ take ?k c) = (bs, cs')"
        by (simp add: read_loop.simps [of "c # cs2" n acc] Let_def)
      from "1.IH" [OF n Cons refl _ step] n Cons show ?thesis
        by (cases "length c \<le> ?k") auto
    qed
  qed
qed

text \<open>How the bytes were cut into chunks does not matter to \<open>ReadFull\<close>.\<close>

lemma ReadFull_enough:
  assumes "n \<le> length (concat (rd_chunks r))"
  shows "\<exists>r'. ReadFull r n = ((take n (concat (rd_chunks r)), None), r') \<and>
    concat (rd_chunks r') = drop n (concat (rd_chunks r)) \<and> rd_err r' = rd_err r"
proof -
  obtain bs cs where rl: "read_loop (rd_chunks r) n [] = (bs, cs)" by fastforce
  from read_loop_concat [OF _ rl] have "bs = take n (concat (rd_chunks r))"
    and "concat cs = drop n (concat (rd_chunks r))" by simp_all
  with rl assms show ?thesis by (simp add: ReadFull_def)
qed

lemma ReadFull_short:
  assumes "length (concat (rd_chunks r)) < n"
  shows "\<exists>e r'. ReadFull r n = ((concat (rd_chunks r), Some e), r')"
proof -
  obtain bs cs where rl: "read_loop (rd_chunks r) n [] = (bs, cs)" by fastforce
  from read_loop_concat [OF _ rl] assms have "bs = concat (rd_chunks r)" by simp
  with rl assms show ?thesis by (simp add: ReadFull_def)
qed

section \<open>\<open>bufio.Writer\<close>\<close>

text \<open>
  The writer below: \<open>wr_out\<close> is what it has accepted, \<open>wr_script\<close> what its next calls do
  (\<open>None\<close>: accept everything; \<open>Some (n, e)\<close>: accept \<open>n\<close> bytes and fail with \<open>e\<close>); after the
  script every call succeeds.
\<close>

record writer =
  wr_out :: bytes
  wr_script :: "(nat \<times> error) option list"

definition stream_Write :: "writer \<Rightarrow> bytes \<Rightarrow> (nat \<times> error option) \<times> writer" where
  "stream_Write w p = (case wr_script w of
       [] \<Rightarrow> ((length p, None), w\<lparr>wr_out := wr_out w @ p\<rparr>)
     | None # rest \<Rightarrow> ((length p, None), w\<lparr>wr_out := wr_out w @ p, wr_script := rest\<rparr>)
     | Some (n, e) # rest \<Rightarrow>
         ((min n (length p), Some e), w\<lparr>wr_out := wr_out w @ take n p, wr_script := rest\<rparr>))"

record bufio_Writer =
  bw_buf :: bytes
  bw_err :: "error option"
  bw_wr :: writer

definition defaultBufSize :: nat where "defaultBufSize = 4096"

definition NewWriter :: "writer \<Rightarrow> bufio_Writer" where
  "NewWriter w = \<lparr>bw_buf = [], bw_err = None, bw_wr = w\<rparr>"

definition Flush :: "bufio_Writer \<Rightarrow> error option \<times> bufio_Writer" where
  "Flush b =
     (case bw_err b of
        Some e \<Rightarrow> (Some e, b)
      | None \<Rightarrow>
          if bw_buf b = [] then (None, b)
          else case stream_Write (bw_wr b) (bw_buf b) of
              ((n, None), w) \<Rightarrow> (None, b\<lparr>bw_buf := [], bw_wr := w\<rparr>)
            | ((n, Some e), w) \<Rightarrow>
                (Some e, b\<lparr>bw_buf := drop n (bw_buf b), bw_err := Some e, bw_wr := w\<rparr>))"

text \<open>\<open>(b *Writer) Write\<close>: the loop that drains what does not fit, and the final copy.\<close>

function bufio_Write :: "bufio_Writer \<Rightarrow> bytes \<Rightarrow> nat \<Rightarrow> (nat \<times> error option) \<times> bufio_Writer" where
  "bufio_Write b p nn =
     (let avail = defaultBufSize - length (bw_buf b) in
      if avail < length p \<and> bw_err b = None then
        (if bw_buf b = [] then
           (let ((n, e), w) = stream_Write (bw_wr b) p
            in bufio_Write (b\<lparr>bw_err := e, bw_wr := w\<rparr>) (drop n p) (nn + n))
         else
           bufio_Write (snd (Flush (b\<lparr>bw_buf := bw_buf b @ take avail p\<rparr>))) (drop avail p) (nn + avail))
      else
        (case bw_err b of
           Some e \<Rightarrow> ((nn, Some e), b)
         | None \<Rightarrow> ((nn + length p, None), b\<lparr>bw_buf := bw_buf b @ p\<rparr>)))"
  by pat_completeness auto
termination
proof (relation "measure (\<lambda>(b, p, nn). if bw_err b = None
    then 2 * length p + (if bw_buf b = [] then 1 else 2) else 0)", goal_cases)
  case (2 b p nn avail x y n e w)
  then show ?case
    by (auto simp: stream_Write_def split: list.splits option.splits prod.splits)
next
  case (3 b p nn avail)
  then show ?case
    by (auto simp: Flush_def stream_Write_def split: list.splits option.splits prod.splits)
qed simp

declare bufio_Write.simps [simp del]

text \<open>What has been handed to the writer: accepted below, then buffered.\<close>

definition handed :: "bufio_Writer \<Rightarrow> bytes" where
  "handed b = wr_out (bw_wr b) @ bw_buf b"

lemma stream_Write_out:
  "stream_Write w p = ((n, e), w') \<Longrightarrow> wr_out w' = wr_out w @ take n p \<and> n \<le> length p \<and>
     (e = None \<longrightarrow> n = length p) \<and> (wr_script w = [] \<longrightarrow> e = None \<and> wr_script w' = [])"
  by (auto simp: stream_Write_def min_def split: list.splits option.splits prod.splits)

lemma Flush_handed:
  "Flush b = (e, b') \<Longrightarrow> handed b' = handed b \<and> bw_err b' = e \<and> (e = None \<longrightarrow> bw_buf b' = []) \<and>
     prefix (wr_out (bw_wr b)) (wr_out (bw_wr b'))"
  by (auto simp: Flush_def handed_def split: option.splits if_splits prod.splits
      dest!: stream_Write_out)

lemma Flush_no_fail:
  "bw_err b = None \<Longrightarrow> wr_script (bw_wr b) = [] \<Longrightarrow>
     \<exists>b'. Flush b = (None, b') \<and> wr_script (bw_wr b') = []"
  by (auto simp: Flush_def stream_Write_def)

text \<open>A write hands over the whole slice, or a prefix of it together with an error.\<close>

lemma bufio_Write_handed:
  "bufio_Write b p nn = ((n, e), b') \<Longrightarrow>
     (e = None \<longrightarrow> handed b' = handed b @ p \<and> n = nn + length p \<and> bw_err b' = None) \<and>
     (\<exists>q. prefix q p \<and> handed b' = handed b @ q) \<and>
     prefix (wr_out (bw_wr b)) (wr_out (bw_wr b'))"
proof (induction b p nn arbitrary: n e b' rule: bufio_Write.induct)
  case (1 b p nn)
  let ?avail = "defaultBufSize - length (bw_buf b)"
  show ?case
  proof (cases "?avail < length p \<and> bw_err b = None")
    case False
    with "1.prems" show ?thesis
      by (auto simp: bufio_Write.simps [of b p nn] handed_def split: option.splits)
  next
    case loop: True
    show ?thesis
    proof (cases "bw_buf b = []")
      case True
      obtain m f w where w: "stream_Write (bw_wr b) p = ((m, f), w)" by (metis prod.exhaust)
      with loop True "1.prems" have step: "bufio_Write (b\<lparr>bw_err := f, bw_wr := w\<rparr>) (drop m p) (nn + m) = ((n, e), b')"
        by (simp add: bufio_Write.simps [of b p nn] Let_def)
      have ih: "(e = None \<longrightarrow> handed b' = handed (b\<lparr>bw_err := f, bw_wr := w\<rparr>) @ drop m p \<and>
            n = nn + m + length (drop m p) \<and> bw_err b' = None) \<and>
          (\<exists>q. prefix q (drop m p) \<and> handed b' = handed (b\<lparr>bw_err := f, bw_wr := w\<rparr>) @ q) \<and>
          prefix (wr_out w) (wr_out (bw_wr b'))"
        using "1.IH"(1) [OF refl loop True w [symmetric] refl refl step] by simp
      moreover have "handed (b\<lparr>bw_err := f, bw_wr := w\<rparr>) = handed b @ take m p" "m \<le> length p"
        "prefix (wr_out (bw_wr b)) (wr_out w)"
        using stream_Write_out [OF w] True by (simp_all add: handed_def)
      ultimately show ?thesis
        by (auto simp: prefix_def) (metis append_take_drop_id append.assoc)
    next
      case False
      let ?b = "b\<lparr>bw_buf := bw_buf b @ take ?avail p\<rparr>"
      obtain f c where c: "Flush ?b = (f, c)" by fastforce
      with loop False "1.prems" have step: "bufio_Write c (drop ?avail p) (nn + ?avail) = ((n, e), b')"
        by (simp add: bufio_Write.simps [of b p nn] Let_def)
      have ih: "(e = None \<longrightarrow> handed b' = handed c @ drop ?avail p \<and>
            n = nn + ?avail + length (drop ?avail p) \<and> bw_err b' = None) \<and>
          (\<exists>q. prefix q (drop ?avail p) \<and> handed b' = handed c @ q) \<and>
          prefix (wr_out (bw_wr c)) (wr_out (bw_wr b'))"
        using "1.IH"(2) [OF refl loop False] step c by simp
      moreover have "handed c = handed b @ take ?avail p"
        "prefix (wr_out (bw_wr b)) (wr_out (bw_wr c))"
        using Flush_handed [OF c] by (simp_all add: handed_def)
      ultimately show ?thesis
        using loop by (auto simp: prefix_def) (metis append_take_drop_id append.assoc)
    qed
  qed
qed

lemma bufio_Write_no_fail:
  "bw_err b = None \<Longrightarrow> wr_script (bw_wr b) = [] \<Longrightarrow>
     \<exists>b'. bufio_Write b p nn = ((nn + length p, None), b') \<and> wr_script (bw_wr b') = []"
proof (induction b p nn rule: bufio_Write.induct)
  case (1 b p nn)
  let ?avail = "defaultBufSize - length (bw_buf b)"
  show ?case
  proof (cases "?avail < length p")
    case False
    with "1.prems" show ?thesis by (simp add: bufio_Write.simps [of b p nn])
  next
    case loop: True
    show ?thesis
    proof (cases "bw_buf b = []")
      case True
      let ?w = "(bw_wr b)\<lparr>wr_out := wr_out (bw_wr b) @ p\<rparr>"
      have "bufio_Write b p nn = bufio_Write (b\<lparr>bw_err := None, bw_wr := ?w\<rparr>) [] (nn + length p)"
        using loop True "1.prems"
        by (simp add: bufio_Write.simps [of b p nn] stream_Write_def Let_def)
      with "1.prems" show ?thesis by (simp add: bufio_Write.simps [of _ "[]"])
    next
      case False
      let ?b = "b\<lparr>bw_buf := bw_buf b @ take ?avail p\<rparr>"
      obtain c where c: "Flush ?b = (None, c)" "wr_script (bw_wr c) = []"
        using Flush_no_fail [of ?b] "1.prems" by auto
      moreover have "bw_err c = None" using Flush_handed [OF c(1)] by simp
      moreover have "bufio_Write b p nn = bufio_Write c (drop ?avail p) (nn + ?avail)"
        using loop False c "1.prems" by (simp add: bufio_Write.simps [of b p nn] Let_def)
      ultimately show ?thesis
        using "1.IH"(2) [OF refl _ False] loop "1.prems" by simp
    qed
  qed
qed

section \<open>\<open>SendMsg\<close> and \<open>RecvMsg\<close>\<close>

definition SendMsg :: "MsgCodec \<Rightarrow> writer \<Rightarrow> TssP2PMsg \<Rightarrow> error option \<times> writer" where
  "SendMsg M stream msg =
     (case mc_Marshal M msg of
        Inl err \<Rightarrow> (Some err, stream)
      | Inr bytes \<Rightarrow>
          (let len = (of_nat (length bytes) :: uint32);
               lengthBytes = put_uint32 len;
               ((n, err), wr) = bufio_Write (NewWriter stream) lengthBytes 0
           in case err of
                Some e \<Rightarrow> (Some e, bw_wr wr)
              | None \<Rightarrow>
                if n \<noteq> length lengthBytes
                then (Some (Errorf ''failed to write all bytes to stream''), bw_wr wr)
                else
                  (let ((n, err), wr) = bufio_Write wr bytes 0
                   in case err of
                        Some e \<Rightarrow> (Some e, bw_wr wr)
                      | None \<Rightarrow>
                        if n \<noteq> length bytes
                        then (Some (Errorf ''failed to write all bytes to stream''), bw_wr wr)
                        else
                          (let (err, wr) = Flush wr
                           in case err of
                                Some e \<Rightarrow> (Some (Errorf (''fail to flush stream: '' @ err_text e)), bw_wr wr)
                              | None \<Rightarrow> (None, bw_wr wr)))))"

definition maxMsgLen :: uint32 where
  "maxMsgLen = 20 * 1024 * 1024"

definition RecvMsg :: "MsgCodec \<Rightarrow> reader \<Rightarrow> (error + TssP2PMsg) \<times> reader" where
  "RecvMsg M stream =
     (let ((lengthBytes, err), stream) = ReadFull stream 4
      in case err of
           Some e \<Rightarrow> (Inl e, stream)
         | None \<Rightarrow>
           if length lengthBytes \<noteq> 4
           then (Inl (Errorf ''failed to read all bytes from stream''), stream)
           else
             (let len = get_uint32 lengthBytes
              in if maxMsgLen < len then (Inl (Errorf ''message length is too large''), stream)
                 else
                   (let ((bytes, err), stream) = ReadFull stream (unat len)
                    in case err of
                         Some e \<Rightarrow> (Inl e, stream)
                       | None \<Rightarrow>
                         if length bytes \<noteq> unat len
                         then (Inl (Errorf ''failed to read all bytes from stream''), stream)
                         else (case mc_Unmarshal M bytes of
                             Inl err \<Rightarrow> (Inl err, stream)
                           | Inr msg \<Rightarrow> (Inr msg, stream)))))"

text \<open>The bytes of one message on the wire.\<close>

definition frame :: "bytes \<Rightarrow> bytes" where
  "frame bs = put_uint32 (of_nat (length bs)) @ bs"

text \<open>What a writer has accepted, when more may still be in its buffer.\<close>

lemma accepted_prefix:
  assumes "handed b = out @ q" and "prefix q f" and "prefix out (wr_out (bw_wr b))"
  shows "\<exists>q'. prefix q' f \<and> wr_out (bw_wr b) = out @ q'"
proof -
  from assms(3) obtain q' where q': "wr_out (bw_wr b) = out @ q'" by (auto simp: prefix_def)
  with assms(1) have "prefix q' q" by (auto simp: handed_def)
  with assms(2) q' show ?thesis by (auto intro: prefix_order.trans)
qed

lemma length_frame [simp]: "length (frame bs) = 4 + length bs"
  by (simp add: frame_def)

lemma SendMsg_out:
  assumes m: "mc_Marshal M m = Inr bs" and s: "SendMsg M w m = (e, w')"
  shows "(e = None \<longrightarrow> wr_out w' = wr_out w @ frame bs) \<and>
    (\<exists>q. prefix q (frame bs) \<and> wr_out w' = wr_out w @ q)"
proof -
  let ?lb = "put_uint32 (of_nat (length bs))"
  obtain n1 e1 b1 where b1: "bufio_Write (NewWriter w) ?lb 0 = ((n1, e1), b1)" by (metis prod.exhaust)
  obtain n2 e2 b2 where b2: "bufio_Write b1 bs 0 = ((n2, e2), b2)" by (metis prod.exhaust)
  obtain e3 b3 where b3: "Flush b2 = (e3, b3)" by fastforce
  note h1 = bufio_Write_handed [OF b1] and h2 = bufio_Write_handed [OF b2] and h3 = Flush_handed [OF b3]
  have hN: "handed (NewWriter w) = wr_out w" "wr_out (bw_wr (NewWriter w)) = wr_out w"
    by (simp_all add: handed_def NewWriter_def)
  show ?thesis
  proof (cases e1)
    case (Some x)
    with s m b1 have "w' = bw_wr b1" "e \<noteq> None" by (auto simp: SendMsg_def)
    moreover from h1 hN obtain q where "prefix q (frame bs)" "handed b1 = wr_out w @ q"
      by (auto simp: frame_def intro: prefix_append [THEN iffD2])
    ultimately show ?thesis using accepted_prefix [of b1 "wr_out w" q "frame bs"] h1 hN by auto
  next
    case None
    with h1 hN have 1: "handed b1 = wr_out w @ ?lb" "n1 = 4" "prefix (wr_out w) (wr_out (bw_wr b1))"
      by auto
    then have 2: "prefix (wr_out w) (wr_out (bw_wr b2))"
      using h2 by (auto intro: prefix_order.trans)
    from h2 obtain q0 where "prefix q0 bs" "handed b2 = handed b1 @ q0" by blast
    with 1 have q: "prefix (?lb @ q0) (frame bs)" "handed b2 = wr_out w @ ?lb @ q0"
      by (simp_all add: frame_def)
    show ?thesis
    proof (cases e2)
      case (Some x)
      with s m b1 b2 None 1 have "w' = bw_wr b2" "e \<noteq> None" by (auto simp: SendMsg_def)
      then show ?thesis using accepted_prefix [OF q(2,1) 2] by auto
    next
      case ok2: None
      with h2 1 have f: "handed b2 = wr_out w @ frame bs" "n2 = length bs"
        by (simp_all add: frame_def)
      from s m b1 b2 b3 None ok2 1 f have w': "w' = bw_wr b3" "e = None \<longleftrightarrow> e3 = None"
        by (auto simp: SendMsg_def split: option.splits)
      have "prefix (wr_out w) (wr_out (bw_wr b3))"
        using 2 h3 by (auto intro: prefix_order.trans)
      from accepted_prefix [OF _ _ this, of "frame bs"] h3 f w' show ?thesis
        by (auto simp: handed_def)
    qed
  qed
qed

lemma SendMsg_no_fail:
  assumes "mc_Marshal M m = Inr bs" and "wr_script w = []"
  shows "\<exists>w'. SendMsg M w m = (None, w') \<and> wr_script w' = [] \<and> wr_out w' = wr_out w @ frame bs"
proof -
  let ?lb = "put_uint32 (of_nat (length bs))"
  obtain b1 where b1: "bufio_Write (NewWriter w) ?lb 0 = ((4, None), b1)" "wr_script (bw_wr b1) = []"
  proof -
    have "bw_err (NewWriter w) = None" "wr_script (bw_wr (NewWriter w)) = []"
      using assms(2) by (simp_all add: NewWriter_def)
    from bufio_Write_no_fail [OF this, of ?lb 0] that show ?thesis by auto
  qed
  have "bw_err b1 = None" using bufio_Write_handed [OF b1(1)] by blast
  then obtain b2 where b2: "bufio_Write b1 bs 0 = ((length bs, None), b2)" "wr_script (bw_wr b2) = []"
    using bufio_Write_no_fail [of b1 bs 0] b1 by auto
  have "bw_err b2 = None" using bufio_Write_handed [OF b2(1)] by blast
  then obtain b3 where b3: "Flush b2 = (None, b3)" "wr_script (bw_wr b3) = []"
    using Flush_no_fail b2 by blast
  have "SendMsg M w m = (None, bw_wr b3)"
    using assms b1 b2 b3 by (simp add: SendMsg_def)
  with SendMsg_out [OF assms(1) this] b3 show ?thesis by auto
qed

section \<open>What \<open>RecvMsg\<close> reads\<close>

text \<open>The first frame of the incoming bytes, for every way of cutting them into chunks.\<close>

lemma RecvMsg_frame:
  assumes c: "concat (rd_chunks r) = frame bs @ rest" and len: "length bs \<le> unat maxMsgLen"
  shows "\<exists>r'. RecvMsg M r = (mc_Unmarshal M bs, r') \<and> concat (rd_chunks r') = rest \<and> rd_err r' = rd_err r"
proof -
  have "length bs < 2 ^ 32" using len by (simp add: maxMsgLen_def)
  then have u: "unat (of_nat (length bs) :: uint32) = length bs" by (simp add: unat_of_nat)
  with len have l: "\<not> maxMsgLen < (of_nat (length bs) :: uint32)"
    by (simp add: word_less_nat_alt)
  obtain r1 where r1: "ReadFull r 4 = ((put_uint32 (of_nat (length bs)), None), r1)"
    "concat (rd_chunks r1) = bs @ rest" "rd_err r1 = rd_err r"
    using ReadFull_enough [of 4 r] c by (auto simp: frame_def)
  obtain r2 where r2: "ReadFull r1 (length bs) = ((bs, None), r2)"
    "concat (rd_chunks r2) = rest" "rd_err r2 = rd_err r"
    using ReadFull_enough [of "length bs" r1] r1 by auto
  show ?thesis
    using r1 r2 u l by (auto simp: RecvMsg_def split: sum.splits)
qed

lemma RecvMsg_too_large:
  assumes c: "concat (rd_chunks r) = frame bs @ rest"
    and len: "unat maxMsgLen < length bs" "length bs < 2 ^ 32"
  shows "\<exists>r'. RecvMsg M r = (Inl (Errorf ''message length is too large''), r')"
proof -
  from len(2) have u: "unat (of_nat (length bs) :: uint32) = length bs" by (simp add: unat_of_nat)
  with len have l: "maxMsgLen < (of_nat (length bs) :: uint32)"
    by (simp add: word_less_nat_alt)
  obtain r1 where "ReadFull r 4 = ((put_uint32 (of_nat (length bs)), None), r1)"
    using ReadFull_enough [of 4 r] c by (auto simp: frame_def)
  with l show ?thesis by (simp add: RecvMsg_def)
qed

text \<open>A stream that ends inside a frame gives an error, never a message.\<close>

lemma RecvMsg_truncated:
  assumes c: "concat (rd_chunks r) = q" and q: "strict_prefix q (frame bs)" and len: "length bs < 2 ^ 32"
  shows "\<exists>e r'. RecvMsg M r = (Inl e, r')"
proof (cases "length q < 4")
  case True
  then obtain e r' where "ReadFull r 4 = ((q, Some e), r')"
    using ReadFull_short [of r 4] c by auto
  then show ?thesis by (simp add: RecvMsg_def)
next
  case False
  from q obtain z where z: "frame bs = q @ z" "z \<noteq> []" by (auto simp: strict_prefix_def prefix_def)
  have "take 4 (frame bs) = take 4 (q @ z)" and "drop 4 (frame bs) = drop 4 (q @ z)"
    using z(1) by simp_all
  with False have q4: "take 4 q = put_uint32 (of_nat (length bs))" and qd: "bs = drop 4 q @ z"
    by (simp_all add: frame_def)
  obtain r1 where r1: "ReadFull r 4 = ((put_uint32 (of_nat (length bs)), None), r1)"
    "concat (rd_chunks r1) = drop 4 q"
    using ReadFull_enough [of 4 r] c False q4 by auto
  have u: "unat (of_nat (length bs) :: uint32) = length bs" using len by (simp add: unat_of_nat)
  have "length (drop 4 q) < length bs" using qd z(2) by simp
  then obtain e r2 where "ReadFull r1 (length bs) = ((drop 4 q, Some e), r2)"
    using ReadFull_short [of r1 "length bs"] r1 by auto
  with r1 u show ?thesis by (simp add: RecvMsg_def Let_def)
qed

section \<open>\<open>libP2PStream\<close> as a message channel\<close>

locale p2p_codec =
  fixes M :: MsgCodec
  assumes Unmarshal_Marshal: "mc_Marshal M m = Inr bs \<Longrightarrow> mc_Unmarshal M bs = Inr m"

text \<open>The channel's state is the bytes written and not yet read, \<open>frames\<close> the messages in them.\<close>

definition wire_send :: "MsgCodec \<Rightarrow> bytes \<Rightarrow> TssP2PMsg \<Rightarrow> bytes option" where
  "wire_send M w m = (case SendMsg M \<lparr>wr_out = w, wr_script = []\<rparr> m of
     (None, w') \<Rightarrow> Some (wr_out w') | _ \<Rightarrow> None)"

definition wire_recv :: "MsgCodec \<Rightarrow> bytes \<Rightarrow> (TssP2PMsg \<times> bytes) option" where
  "wire_recv M w = (case RecvMsg M \<lparr>rd_chunks = [w], rd_err = EOF_error\<rparr> of
     (Inr m, r) \<Rightarrow> Some (m, concat (rd_chunks r)) | _ \<Rightarrow> None)"

function frames :: "MsgCodec \<Rightarrow> bytes \<Rightarrow> TssP2PMsg list" where
  "frames M w = (case wire_recv M w of
     None \<Rightarrow> [] | Some (m, w') \<Rightarrow> if length w' < length w then m # frames M w' else [])"
  by pat_completeness auto
termination
  by (relation "measure (\<lambda>(M, w). length w)") auto

declare frames.simps [simp del]

definition sendable :: "MsgCodec \<Rightarrow> TssP2PMsg \<Rightarrow> bool" where
  "sendable M m \<longleftrightarrow>
     (case mc_Marshal M m of Inl _ \<Rightarrow> False | Inr bs \<Rightarrow> length bs \<le> unat maxMsgLen)"

definition wire_inv :: "MsgCodec \<Rightarrow> bytes \<Rightarrow> bool" where
  "wire_inv M w \<longleftrightarrow> (\<exists>bss. w = concat (map frame bss) \<and>
     (\<forall>bs \<in> set bss. length bs \<le> unat maxMsgLen \<and> (\<exists>m. mc_Unmarshal M bs = Inr m)))"

lemma wire_recv_frame:
  "length bs \<le> unat maxMsgLen \<Longrightarrow> mc_Unmarshal M bs = Inr m \<Longrightarrow>
     wire_recv M (frame bs @ rest) = Some (m, rest)"
  using RecvMsg_frame [of "\<lparr>rd_chunks = [frame bs @ rest], rd_err = EOF_error\<rparr>" bs rest M]
  by (auto simp: wire_recv_def)

lemma frames_frame:
  "length bs \<le> unat maxMsgLen \<Longrightarrow> mc_Unmarshal M bs = Inr m \<Longrightarrow>
     frames M (frame bs @ rest) = m # frames M rest"
  by (subst frames.simps) (simp add: wire_recv_frame)

lemma frames_Nil [simp]: "frames M [] = []"
  by (subst frames.simps) (simp split: option.splits)

lemma frames_concat:
  "\<forall>bs \<in> set bss. length bs \<le> unat maxMsgLen \<and> (\<exists>m. mc_Unmarshal M bs = Inr m) \<Longrightarrow>
     frames M (concat (map frame bss) @ rest) = map (\<lambda>bs. projr (mc_Unmarshal M bs)) bss @ frames M rest"
  by (induction bss) (auto simp: frames_frame)

sublocale p2p_codec \<subseteq> wire: msg_channel "wire_send M" "wire_recv M" "frames M"
    "\<lambda>_. sendable M" "wire_inv M"
proof
  fix w m
  assume inv: "wire_inv M w" and "sendable M m"
  then obtain bs where bs: "mc_Marshal M m = Inr bs" "length bs \<le> unat maxMsgLen"
    by (auto simp: sendable_def split: sum.splits)
  from inv obtain bss where bss: "w = concat (map frame bss)"
    "\<forall>bs \<in> set bss. length bs \<le> unat maxMsgLen \<and> (\<exists>m. mc_Unmarshal M bs = Inr m)"
    by (auto simp: wire_inv_def)
  have send: "wire_send M w m = Some (w @ frame bs)"
    using SendMsg_no_fail [OF bs(1), of "\<lparr>wr_out = w, wr_script = []\<rparr>"]
    by (auto simp: wire_send_def)
  have "wire_inv M (w @ frame bs)"
    unfolding wire_inv_def using bss bs Unmarshal_Marshal [OF bs(1)]
    by (intro exI [of _ "bss @ [bs]"]) auto
  moreover have "frames M (w @ frame bs) = frames M w @ [m]"
    using frames_concat [OF bss(2)] bss(1) Unmarshal_Marshal [OF bs(1)] bs
      frames_frame [OF bs(2) Unmarshal_Marshal [OF bs(1)], of "[]"] frames_concat [OF bss(2), of "[]"]
    by simp
  ultimately show "\<exists>c'. wire_send M w m = Some c' \<and> wire_inv M c' \<and> frames M c' = frames M w @ [m]"
    using send by blast
next
  fix w m ms
  assume inv: "wire_inv M w" and q: "frames M w = m # ms"
  from inv obtain bss where bss: "w = concat (map frame bss)"
    "\<forall>bs \<in> set bss. length bs \<le> unat maxMsgLen \<and> (\<exists>m. mc_Unmarshal M bs = Inr m)"
    by (auto simp: wire_inv_def)
  with q obtain bs rest where bss': "bss = bs # rest"
    by (cases bss) auto
  with bss obtain m' where m': "length bs \<le> unat maxMsgLen" "mc_Unmarshal M bs = Inr m'"
    by auto
  from bss bss' have w: "w = frame bs @ concat (map frame rest)" by simp
  with q frames_frame [OF m'] have "m = m'" "frames M (concat (map frame rest)) = ms" by simp_all
  moreover have "wire_inv M (concat (map frame rest))"
    unfolding wire_inv_def using bss bss' by auto
  ultimately show "\<exists>c'. wire_recv M w = Some (m, c') \<and> wire_inv M c' \<and> frames M c' = ms"
    using wire_recv_frame [OF m'] w by auto
qed

end
