(* ===== verification/InstanceMsg.thy ===== *)
theory InstanceMsg
  imports Instance Framing
begin

text \<open>
  A concrete codec for \<open>TssP2PMsg\<close>, built from the self-delimiting codes of theory
  \<open>Instance\<close>: a tag for the member of the oneof that is set, then its fields. It shows that the
  hypothesis \<open>p2p_codec\<close> can hold, and the witnesses about streams run on it.
\<close>

abbreviation "enc_bool \<equiv> enc_via (\<lambda>b. if b then 1 else (0 :: nat)) enc_nat"
abbreviation "dec_bool \<equiv> dec_via (\<lambda>n. n = (1 :: nat)) dec_nat"

lemma code_bool: "code enc_bool dec_bool"
  by (intro code_via code_nat) simp

definition "enc_kgp = enc_via (\<lambda>m. (kgp_SessionId m, kgp_KeyId m, kgp_Threshold m, kgp_AllPartyId m,
     kgp_Deadline m))
   (enc_pair enc_string (enc_pair enc_string (enc_pair put_uint32 (enc_pair (enc_list enc_party) enc_time))))"
definition "dec_kgp = dec_via (\<lambda>(s, k, t, ps, d). \<lparr>kgp_SessionId = s, kgp_KeyId = k,
     kgp_Threshold = t, kgp_AllPartyId = ps, kgp_Deadline = d\<rparr>)
   (dec_pair dec_string (dec_pair dec_string (dec_pair dec_u32 (dec_pair (dec_list dec_party) dec_time))))"

definition "enc_kgf = enc_via (\<lambda>m. (kgf_IsSuccess m, kgf_FailureReason m, kgf_PublicKey m))
   (enc_pair enc_bool (enc_pair enc_string enc_bytes))"
definition "dec_kgf = dec_via (\<lambda>(b, r, k). \<lparr>kgf_IsSuccess = b, kgf_FailureReason = r,
     kgf_PublicKey = k\<rparr>)
   (dec_pair dec_bool (dec_pair dec_string dec_bytes))"

definition "enc_ksp = enc_via (\<lambda>m. (ksp_SignId m, ksp_SessionId m, ksp_KeyId m, ksp_KeySessionId m,
     ksp_SignMsg m, ksp_Deadline m))
   (enc_pair enc_string (enc_pair enc_string (enc_pair enc_string (enc_pair enc_string
     (enc_pair enc_bytes enc_time)))))"
definition "dec_ksp = dec_via (\<lambda>(i, s, k, ks, m, d). \<lparr>ksp_SignId = i, ksp_SessionId = s,
     ksp_KeyId = k, ksp_KeySessionId = ks, ksp_SignMsg = m, ksp_Deadline = d\<rparr>)
   (dec_pair dec_string (dec_pair dec_string (dec_pair dec_string (dec_pair dec_string
     (dec_pair dec_bytes dec_time)))))"

definition "enc_kss = enc_via kss_SignPartyId (enc_list enc_party)"
definition "dec_kss = dec_via (\<lambda>ps. \<lparr>kss_SignPartyId = ps\<rparr>) (dec_list dec_party)"

definition "enc_ksf = enc_via (\<lambda>m. (ksf_IsSuccess m, ksf_FailureReason m, ksf_SignatureR m,
     ksf_SignatureS m, ksf_SignatureV m))
   (enc_pair enc_bool (enc_pair enc_string (enc_pair enc_bytes (enc_pair enc_bytes enc_bytes))))"
definition "dec_ksf = dec_via (\<lambda>(b, f, r, s, v). \<lparr>ksf_IsSuccess = b, ksf_FailureReason = f,
     ksf_SignatureR = r, ksf_SignatureS = s, ksf_SignatureV = v\<rparr>)
   (dec_pair dec_bool (dec_pair dec_string (dec_pair dec_bytes (dec_pair dec_bytes dec_bytes))))"

definition "enc_pum = enc_via (\<lambda>m. (pum_FromPartyId m, pum_MsgWireBytes m, pum_IsBroadcast m))
   (enc_pair enc_string (enc_pair enc_bytes enc_bool))"
definition "dec_pum = dec_via (\<lambda>(p, w, b). \<lparr>pum_FromPartyId = p, pum_MsgWireBytes = w,
     pum_IsBroadcast = b\<rparr>)
   (dec_pair dec_string (dec_pair dec_bytes dec_bool))"

definition "enc_pem = enc_via pem_ErrorMsg enc_string"
definition "dec_pem = dec_via (\<lambda>e. \<lparr>pem_ErrorMsg = e\<rparr>) dec_string"

lemma code_messages:
  "code enc_kgp dec_kgp" "code enc_kgf dec_kgf" "code enc_ksp dec_ksp" "code enc_kss dec_kss"
  "code enc_ksf dec_ksf" "code enc_pum dec_pum" "code enc_pem dec_pem"
  unfolding enc_kgp_def dec_kgp_def enc_kgf_def dec_kgf_def enc_ksp_def dec_ksp_def enc_kss_def
    dec_kss_def enc_ksf_def dec_ksf_def enc_pum_def dec_pum_def enc_pem_def dec_pem_def
  by (intro code_via code_pair code_string code_u32 code_list code_party code_bytes code_time
      code_bool, simp)+

fun enc_MsgType :: "MsgType option \<Rightarrow> bytes" where
  "enc_MsgType None = enc_nat 0"
| "enc_MsgType (Some (TssP2PMsg_KeyGenPrepareMsg m)) = enc_nat 1 @ enc_kgp m"
| "enc_MsgType (Some (TssP2PMsg_KeyGenReadyMsg m)) = enc_nat 2"
| "enc_MsgType (Some (TssP2PMsg_KeyGenStartMsg m)) = enc_nat 3"
| "enc_MsgType (Some (TssP2PMsg_KeyGenFinishMsg m)) = enc_nat 4 @ enc_kgf m"
| "enc_MsgType (Some (TssP2PMsg_KeySignPrepareMsg m)) = enc_nat 5 @ enc_ksp m"
| "enc_MsgType (Some (TssP2PMsg_KeySignReadyMsg m)) = enc_nat 6"
| "enc_MsgType (Some (TssP2PMsg_KeySignStartMsg m)) = enc_nat 7 @ enc_kss m"
| "enc_MsgType (Some (TssP2PMsg_KeySignCancelMsg m)) = enc_nat 8"
| "enc_MsgType (Some (TssP2PMsg_KeySignFinishMsg m)) = enc_nat 9 @ enc_ksf m"
| "enc_MsgType (Some (TssP2PMsg_ProcessUpdateMsg m)) = enc_nat 10 @ enc_pum m"
| "enc_MsgType (Some (TssP2PMsg_ProcessErrorMsg m)) = enc_nat 11 @ enc_pem m"

definition dec_member :: "('a \<Rightarrow> MsgType) \<Rightarrow> (bytes \<Rightarrow> ('a \<times> bytes) option) \<Rightarrow> bytes
    \<Rightarrow> (MsgType option \<times> bytes) option" where
  "dec_member f d r = map_option (\<lambda>(m, r). (Some (f m), r)) (d r)"

definition dec_MsgType :: "bytes \<Rightarrow> (MsgType option \<times> bytes) option" where
  "dec_MsgType bs = (case dec_nat bs of None \<Rightarrow> None | Some (n, r) \<Rightarrow>
     if n = 0 then Some (None, r)
     else if n = 1 then dec_member TssP2PMsg_KeyGenPrepareMsg dec_kgp r
     else if n = 2 then Some (Some (TssP2PMsg_KeyGenReadyMsg KeyGenReadyMsg), r)
     else if n = 3 then Some (Some (TssP2PMsg_KeyGenStartMsg KeyGenStartMsg), r)
     else if n = 4 then dec_member TssP2PMsg_KeyGenFinishMsg dec_kgf r
     else if n = 5 then dec_member TssP2PMsg_KeySignPrepareMsg dec_ksp r
     else if n = 6 then Some (Some (TssP2PMsg_KeySignReadyMsg KeySignReadyMsg), r)
     else if n = 7 then dec_member TssP2PMsg_KeySignStartMsg dec_kss r
     else if n = 8 then Some (Some (TssP2PMsg_KeySignCancelMsg KeySignCancelMsg), r)
     else if n = 9 then dec_member TssP2PMsg_KeySignFinishMsg dec_ksf r
     else if n = 10 then dec_member TssP2PMsg_ProcessUpdateMsg dec_pum r
     else if n = 11 then dec_member TssP2PMsg_ProcessErrorMsg dec_pem r
     else None)"

lemma dec_enc_nat: "dec_nat (enc_nat n @ r) = Some (n, r)"
  using code_nat by (simp add: code_def)

lemma dec_enc_nat_end: "dec_nat (enc_nat n) = Some (n, [])"
  using dec_enc_nat [of n "[]"] by simp

lemma dec_enc_end: "code e d \<Longrightarrow> d (e x) = Some (x, [])"
  by (metis code_def append_Nil2)

lemma dec_enc_MsgType: "dec_MsgType (enc_MsgType m) = Some (m, [])"
proof (induction m rule: enc_MsgType.induct)
  case (3 m) then show ?case by (cases m) (simp add: dec_MsgType_def dec_enc_nat_end del: enc_nat.simps)
next
  case (4 m) then show ?case by (cases m) (simp add: dec_MsgType_def dec_enc_nat_end del: enc_nat.simps)
next
  case (7 m) then show ?case by (cases m) (simp add: dec_MsgType_def dec_enc_nat_end del: enc_nat.simps)
next
  case (9 m) then show ?case by (cases m) (simp add: dec_MsgType_def dec_enc_nat_end del: enc_nat.simps)
qed (simp_all add: dec_MsgType_def dec_member_def dec_enc_nat dec_enc_nat_end
    code_messages [THEN dec_enc_end] del: enc_nat.simps)

definition DemoMsgCodec :: MsgCodec where
  "DemoMsgCodec =
     \<lparr>mc_Marshal = (\<lambda>m. Inr (enc_MsgType (tp_MsgType m))),
      mc_Unmarshal = (\<lambda>bs. case dec_MsgType bs of
          Some (m, []) \<Rightarrow> Inr \<lparr>tp_MsgType = m\<rparr>
        | _ \<Rightarrow> Inl (Errorf ''cannot parse invalid wire-format data''))\<rparr>"

interpretation demo_msgs: p2p_codec DemoMsgCodec
  by unfold_locales (auto simp: DemoMsgCodec_def dec_enc_MsgType)

lemma demo_p2p_codec: "p2p_codec DemoMsgCodec"
  by (rule demo_msgs.p2p_codec_axioms)

end
