(* ===== verification/Lifecycle.thy ===== *)
theory Lifecycle
  imports Instance
begin

text \<open>
  The life of a key record. The handlers of all running sessions share the store; each of their
  accesses is atomic under the manager's mutex, so a node's history is a sequence of store
  operations in some interleaving. This theory proves, for every interleaving, what the store
  guarantees: one live record per key id, ready keys never change, only the intended status
  changes, and what a record left pending does.
\<close>

section \<open>The operations of the handlers\<close>

datatype store_op =
    OpKeyGen string string int32 "PartyID list" "Timestamp option"
  | OpStatus string string bytes KeyStatus KeyStatus string "Timestamp option"

fun apply_op :: "'s LocalStorage \<Rightarrow> store_op \<Rightarrow> 's \<Rightarrow> error option \<times> 's" where
  "apply_op ls (OpKeyGen k sid t ps c) s = checkAndSetKeyGenStorage ls k sid t ps c s"
| "apply_op ls (OpStatus k sid pk ex up js u) s =
     compareAndSetKeyStatusStorage ls k sid pk ex up js u s"

text \<open>
  Every status change the handlers ask for starts from PENDING and ends in READY, or in ERROR
  with neither public key nor saved data.
\<close>

fun handler_op :: "store_op \<Rightarrow> bool" where
  "handler_op (OpKeyGen k sid t ps c) = True"
| "handler_op (OpStatus k sid pk ex up js u) =
     (ex = KEY_STATUS_PENDING \<and>
      (up = KEY_STATUS_ERROR \<and> pk = [] \<and> js = [] \<or> up = KEY_STATUS_READY))"

inductive store_run :: "'s LocalStorage \<Rightarrow> 's \<Rightarrow> store_op list \<Rightarrow> 's \<Rightarrow> bool" for ls where
  run_nil: "store_run ls s [] s"
| run_op: "store_run ls s ops s' \<Longrightarrow> handler_op op \<Longrightarrow> apply_op ls op s' = (e, s'') \<Longrightarrow>
    store_run ls s (ops @ [op]) s''"

inductive_cases store_run_snocE: "store_run ls s (ops @ [op]) s'"

fun op_key :: "store_op \<Rightarrow> string" where
  "op_key (OpKeyGen k sid t ps c) = row_key k sid"
| "op_key (OpStatus k sid pk ex up js u) = row_key k sid"

text \<open>The status changes a row may make in one operation.\<close>

fun allowed :: "KeyData option \<Rightarrow> KeyData option \<Rightarrow> bool" where
  "allowed None (Some d) = (kd_Status d = KEY_STATUS_PENDING)"
| "allowed (Some d) (Some d') =
     (d' = d \<or>
      kd_Status d = KEY_STATUS_PENDING \<and> kd_Status d' \<in> {KEY_STATUS_READY, KEY_STATUS_ERROR} \<or>
      \<not> live d \<and> kd_Status d' = KEY_STATUS_PENDING)"
| "allowed None None = True"
| "allowed (Some d) None = False"

lemma allowed_refl [simp]: "allowed x x"
  by (cases x) auto

text \<open>The operations by which the session of a row ends it.\<close>

definition reports :: "string \<Rightarrow> store_op \<Rightarrow> bool" where
  "reports r op \<longleftrightarrow> (case op of OpKeyGen _ _ _ _ _ \<Rightarrow> False
     | OpStatus k sid _ _ _ _ _ \<Rightarrow> row_key k sid = r)"

section \<open>One operation\<close>

context local_storage
begin

text \<open>What one operation does to the rows: nothing, or one row gets a new record.\<close>

lemma op_rows:
  assumes inv: "ls_inv s" and op: "handler_op op" and r: "apply_op ls op s = (e, s')"
  shows "ls_inv s'" and "s' = s \<or> (\<exists>d. rows s' = (rows s)(op_key op \<mapsto> d) \<and>
     allowed (rows s (op_key op)) (Some d) \<and>
     (case op of OpKeyGen k sid t ps c \<Rightarrow> (\<forall>d' \<in> key_rows s k. \<not> live d') \<and> kd_KeyId d = k
      | OpStatus k sid pk ex up js u \<Rightarrow> \<exists>d0. rows s (row_key k sid) = Some d0 \<and> live d0 \<and>
           kd_KeyId d = kd_KeyId d0))"
proof -
  have "ls_inv s' \<and> (s' = s \<or> (\<exists>d. rows s' = (rows s)(op_key op \<mapsto> d) \<and>
     allowed (rows s (op_key op)) (Some d) \<and>
     (case op of OpKeyGen k sid t ps c \<Rightarrow> (\<forall>d' \<in> key_rows s k. \<not> live d') \<and> kd_KeyId d = k
      | OpStatus k sid pk ex up js u \<Rightarrow> \<exists>d0. rows s (row_key k sid) = Some d0 \<and> live d0 \<and>
           kd_KeyId d = kd_KeyId d0)))"
  proof (cases op)
    case (OpKeyGen k sid t ps c)
    with r have "checkAndSetKeyGenStorage ls k sid t ps c s = (e, s')" by simp
    from keygen_cases [OF inv this] show ?thesis
    proof (elim disjE conjE)
      assume "s' = s" with inv show ?thesis by simp
    next
      assume h: "ls_inv s'" "\<forall>d \<in> key_rows s k. \<not> live d"
        "rows s' = (rows s)(row_key k sid \<mapsto> pendingKeyData k sid t ps c)"
      have "allowed (rows s (row_key k sid)) (Some (pendingKeyData k sid t ps c))"
        using own_row [OF _ inv, of k sid] h(2)
        by (cases "rows s (row_key k sid)") (auto simp: pendingKeyData_def)
      with h OpKeyGen show ?thesis by (auto simp: pendingKeyData_def)
    qed
  next
    case (OpStatus k sid pk ex up js u)
    with r have "compareAndSetKeyStatusStorage ls k sid pk ex up js u s = (e, s')" by simp
    from cas_cases [OF inv this] show ?thesis
    proof (elim disjE conjE exE)
      assume "s' = s" with inv show ?thesis by simp
    next
      fix d
      assume h: "ls_inv s'" "rows s (row_key k sid) = Some d" "kd_Status d = ex"
        "rows s' = (rows s)(row_key k sid \<mapsto>
          d\<lparr>kd_Status := up, kd_SaveDataJson := js, kd_UpdatedTime := u, kd_Pubkey := pk\<rparr>)"
      with op OpStatus show ?thesis by (auto simp: live_def)
    qed
  qed
  then show "ls_inv s'" and "s' = s \<or> (\<exists>d. rows s' = (rows s)(op_key op \<mapsto> d) \<and>
     allowed (rows s (op_key op)) (Some d) \<and>
     (case op of OpKeyGen k sid t ps c \<Rightarrow> (\<forall>d' \<in> key_rows s k. \<not> live d') \<and> kd_KeyId d = k
      | OpStatus k sid pk ex up js u \<Rightarrow> \<exists>d0. rows s (row_key k sid) = Some d0 \<and> live d0 \<and>
           kd_KeyId d = kd_KeyId d0))"
    by blast+
qed

lemma op_allowed:
  "ls_inv s \<Longrightarrow> handler_op op \<Longrightarrow> apply_op ls op s = (e, s') \<Longrightarrow> allowed (rows s r) (rows s' r)"
  using op_rows(2) [of s op e s'] by (cases "r = op_key op") fastforce+

text \<open>The invariant: two live records of one key id are the same record.\<close>

definition one_live :: "'s \<Rightarrow> bool" where
  "one_live s \<longleftrightarrow> (\<forall>r r' d d'. rows s r = Some d \<longrightarrow> rows s r' = Some d' \<longrightarrow> live d \<longrightarrow> live d' \<longrightarrow>
     kd_KeyId d = kd_KeyId d' \<longrightarrow> r = r')"

text \<open>An operation that writes a row writes it for a key id no other live row has.\<close>

lemma op_only_live:
  assumes inv: "ls_inv s" and one: "one_live s" and op: "handler_op op" and r: "apply_op ls op s = (e, s')"
  obtains (same) "s' = s"
  | (row) d where "rows s' = (rows s)(op_key op \<mapsto> d)"
      "\<And>r d'. rows s r = Some d' \<Longrightarrow> live d' \<Longrightarrow> kd_KeyId d' = kd_KeyId d \<Longrightarrow> r = op_key op"
proof -
  consider "s' = s" | d where "rows s' = (rows s)(op_key op \<mapsto> d)"
    "case op of OpKeyGen k sid t ps c \<Rightarrow> (\<forall>d' \<in> key_rows s k. \<not> live d') \<and> kd_KeyId d = k
      | OpStatus k sid pk ex up js u \<Rightarrow> \<exists>d0. rows s (row_key k sid) = Some d0 \<and> live d0 \<and>
         kd_KeyId d = kd_KeyId d0"
    using op_rows(2) [OF inv op r] by blast
  then show ?thesis
  proof cases
    case (2 d)
    have "r' = op_key op" if "rows s r' = Some d'" "live d'" "kd_KeyId d' = kd_KeyId d" for r' d'
    proof (cases op)
      case (OpKeyGen k sid t ps c)
      with 2 that rows_row [OF inv that(1)] have "d' \<in> key_rows s k"
        by (auto simp: key_rows_def)
      with 2 OpKeyGen that show ?thesis by auto
    next
      case (OpStatus k sid pk ex up js u)
      with 2 that one show ?thesis by (fastforce simp: one_live_def)
    qed
    with 2 row show ?thesis by blast
  qed (use same in blast)
qed

lemma one_live_upd:
  assumes one: "one_live s" and new: "rows s' = (rows s)(k \<mapsto> d)"
    and only: "\<And>r d'. rows s r = Some d' \<Longrightarrow> live d' \<Longrightarrow> kd_KeyId d' = kd_KeyId d \<Longrightarrow> r = k"
  shows "one_live s'"
  unfolding one_live_def
proof (intro allI impI)
  fix r1 r2 d1 d2
  assume h: "rows s' r1 = Some d1" "rows s' r2 = Some d2" "live d1" "live d2" "kd_KeyId d1 = kd_KeyId d2"
  consider "r1 = k" "r2 = k" | "r1 = k" "r2 \<noteq> k" | "r1 \<noteq> k" "r2 = k" | "r1 \<noteq> k" "r2 \<noteq> k" by blast
  then show "r1 = r2"
  proof cases
    case 2
    with h new only [of r2 d2] show ?thesis by simp
  next
    case 3
    with h new only [of r1 d1] show ?thesis by simp
  next
    case 4
    with h new one show ?thesis unfolding one_live_def by auto
  qed simp
qed

lemma one_live_op:
  assumes "ls_inv s" and "one_live s" and "handler_op op" and "apply_op ls op s = (e, s')"
  shows "one_live s'"
  using assms by (rule op_only_live) (use assms(2) one_live_upd in blast)+

section \<open>Whole histories\<close>

lemma run_inv: "store_run ls s ops s' \<Longrightarrow> ls_inv s \<Longrightarrow> ls_inv s'"
  by (induction rule: store_run.induct) (auto dest: op_rows(1))

lemma run_one_live: "store_run ls s ops s' \<Longrightarrow> ls_inv s \<Longrightarrow> one_live s \<Longrightarrow> one_live s'"
  by (induction rule: store_run.induct) (auto intro: one_live_op run_inv)

lemma run_ready_stable:
  "store_run ls s ops s' \<Longrightarrow> ls_inv s \<Longrightarrow> rows s r = Some d \<Longrightarrow> kd_Status d = KEY_STATUS_READY \<Longrightarrow>
     rows s' r = Some d"
proof (induction rule: store_run.induct)
  case (run_op s ops s' op e s'')
  then have d: "rows s' r = Some d" by blast
  from run_op.hyps(1) run_op.prems(1) have "ls_inv s'" by (rule run_inv)
  from op_allowed [OF this run_op.hyps(2,3), of r] d run_op.prems(3) show ?case
    by (cases "rows s'' r") (auto simp: live_def)
qed simp

text \<open>Only ready rows hold saved data.\<close>

definition drafts_empty :: "'s \<Rightarrow> bool" where
  "drafts_empty s \<longleftrightarrow>
     (\<forall>r d. rows s r = Some d \<longrightarrow> kd_Status d \<noteq> KEY_STATUS_READY \<longrightarrow> kd_SaveDataJson d = [])"

lemma drafts_empty_op:
  assumes inv: "ls_inv s" and emp: "drafts_empty s" and op: "handler_op op"
    and r: "apply_op ls op s = (e, s')"
  shows "drafts_empty s'"
proof (cases op)
  case (OpKeyGen k sid t ps c)
  with r have "checkAndSetKeyGenStorage ls k sid t ps c s = (e, s')" by simp
  from keygen_cases [OF inv this] emp show ?thesis
    by (auto simp: drafts_empty_def pendingKeyData_def split: if_splits)
next
  case (OpStatus k sid pk ex up js u)
  with r have "compareAndSetKeyStatusStorage ls k sid pk ex up js u s = (e, s')" by simp
  from cas_cases [OF inv this] emp op OpStatus show ?thesis
    by (auto simp: drafts_empty_def split: if_splits)
qed

lemma run_drafts_empty: "store_run ls s ops s' \<Longrightarrow> ls_inv s \<Longrightarrow> drafts_empty s \<Longrightarrow> drafts_empty s'"
  by (induction rule: store_run.induct) (auto intro: drafts_empty_op run_inv)

text \<open>A pending row whose own session never reports stays, and blocks its key id.\<close>

lemma run_pending_stuck:
  "store_run ls s ops s' \<Longrightarrow> ls_inv s \<Longrightarrow> rows s (row_key k sid) = Some d \<Longrightarrow>
     kd_Status d = KEY_STATUS_PENDING \<Longrightarrow> \<forall>op \<in> set ops. \<not> reports (row_key k sid) op \<Longrightarrow>
     rows s' (row_key k sid) = Some d"
proof (induction rule: store_run.induct)
  case (run_op s ops s' op e s'')
  let ?r = "row_key k sid"
  from run_op.hyps(1) run_op.prems(1) have inv: "ls_inv s'" by (rule run_inv)
  from run_op.prems(4) have "\<forall>op \<in> set ops. \<not> reports ?r op" by simp
  with run_op.IH run_op.prems(1-3) have d: "rows s' ?r = Some d" by blast
  have "live d" using run_op.prems(3) by (simp add: live_def)
  show ?case
  proof (cases op)
    case (OpKeyGen k' sid' t ps c)
    with op_rows(2) [OF inv run_op.hyps(2,3)] d own_row [of s' k' sid' d] inv \<open>live d\<close> show ?thesis
      by (cases "?r = op_key op") fastforce+
  next
    case (OpStatus k' sid' pk ex up js u)
    with run_op.prems(4) have "?r \<noteq> op_key op" by (auto simp: reports_def)
    with op_rows(2) [OF inv run_op.hyps(2,3)] d show ?thesis by auto
  qed
qed simp

end

section \<open>Histories of a LevelDB store\<close>

text \<open>A store that was empty once and has seen only operations of the handlers.\<close>

definition store_reachable :: "'db DB \<Rightarrow> ('db \<Rightarrow> bool) \<Rightarrow> KeyDataCodec \<Rightarrow> 'db \<Rightarrow> bool" where
  "store_reachable D db_inv C s \<longleftrightarrow>
     (\<exists>s0 ops. db_inv s0 \<and> db_Get D s0 = Map.empty \<and> store_run (LevelDBStorage D C) s0 ops s)"

lemma store_reachableE:
  assumes "leveldb D db_inv C" and "store_reachable D db_inv C s"
  shows "leveldb.lv_inv D db_inv C s" and "local_storage.one_live (leveldb.lv_rows D C) s"
    and "local_storage.drafts_empty (leveldb.lv_rows D C) s"
proof -
  note st = leveldb.lv_storage [OF assms(1)]
  from assms(2) obtain s0 ops where s0: "db_inv s0" "db_Get D s0 = Map.empty"
    and run: "store_run (LevelDBStorage D C) s0 ops s"
    by (auto simp: store_reachable_def)
  have inv0: "leveldb.lv_inv D db_inv C s0" by (rule leveldb.lv_inv_empty [OF assms(1) s0])
  with run show "leveldb.lv_inv D db_inv C s" by (rule local_storage.run_inv [OF st])
  have "local_storage.one_live (leveldb.lv_rows D C) s0"
    by (simp add: local_storage.one_live_def [OF st] leveldb.lv_rows_empty [OF assms(1) s0(2)])
  with run inv0 show "local_storage.one_live (leveldb.lv_rows D C) s"
    by (rule local_storage.run_one_live [OF st])
  have "local_storage.drafts_empty (leveldb.lv_rows D C) s0"
    by (simp add: local_storage.drafts_empty_def [OF st] leveldb.lv_rows_empty [OF assms(1) s0(2)])
  with run inv0 show "local_storage.drafts_empty (leveldb.lv_rows D C) s"
    by (rule local_storage.run_drafts_empty [OF st])
qed

lemma get_iff_rows:
  assumes "leveldb D db_inv C" and "leveldb.lv_inv D db_inv C s"
  shows "GetKeyDataByKeyIdAndKeySessionId D C s k sid = Inr x \<longleftrightarrow>
    leveldb.lv_rows D C s (row_key k sid) = x"
  using leveldb.lv_get_one [OF assms] by auto

text \<open>The concrete histories of the witnesses: a key left pending, and a key made ready.\<close>

abbreviation "demoLS \<equiv> LevelDBStorage MemDB DemoCodec"

definition demo_pending :: "string \<Rightarrow> string \<Rightarrow> memdb" where
  "demo_pending k sid = snd (apply_op demoLS (OpKeyGen k sid 1 [] None) [])"

definition readyKeyData :: "string \<Rightarrow> string \<Rightarrow> KeyData" where
  "readyKeyData k sid = (pendingKeyData k sid 1 [] None)
     \<lparr>kd_Status := KEY_STATUS_READY, kd_SaveDataJson := ''{}'', kd_UpdatedTime := None, kd_Pubkey := [2]\<rparr>"

abbreviation demo_report :: "string \<Rightarrow> string \<Rightarrow> store_op" where
  "demo_report k sid \<equiv> OpStatus k sid [2] KEY_STATUS_PENDING KEY_STATUS_READY ''{}'' None"

definition demo_ready :: "string \<Rightarrow> string \<Rightarrow> memdb" where
  "demo_ready k sid = snd (apply_op demoLS (demo_report k sid) (demo_pending k sid))"

definition ascii :: "string \<Rightarrow> bool" where
  "ascii k \<longleftrightarrow> list_all (\<lambda>c. (of_char c :: nat) < 128) k"

lemma demo_storable: "ascii (kd_KeyId d) \<Longrightarrow> demo.lv_storable d"
  unfolding demo.lv_storable_def by (simp add: DemoCodec_def ascii_def)

lemma demo_pending_step:
  assumes "ascii k"
  shows "\<exists>e. apply_op demoLS (OpKeyGen k sid 1 [] None) [] = (e, demo_pending k sid)"
    and "demo.lv_inv (demo_pending k sid)"
    and "demo.lv_rows (demo_pending k sid) = [row_key k sid \<mapsto> pendingKeyData k sid 1 [] None]"
proof -
  have "\<forall>d \<in> demo.lv.key_rows [] k. \<not> live d"
    by (simp add: demo.lv.key_rows_def demo_empty_rows)
  then obtain s where "checkAndSetKeyGenStorage demoLS k sid 1 [] None [] = (None, s)"
    "demo.lv_inv s" "demo.lv_rows s = [row_key k sid \<mapsto> pendingKeyData k sid 1 [] None]"
    using demo.lv.keygen_admitted [OF demo_empty, of k sid 1 "[]" None] demo_storable assms
      demo_empty_rows by (auto simp: pendingKeyData_def)
  moreover from this have "demo_pending k sid = s" by (simp add: demo_pending_def)
  ultimately show "\<exists>e. apply_op demoLS (OpKeyGen k sid 1 [] None) [] = (e, demo_pending k sid)"
    "demo.lv_inv (demo_pending k sid)"
    "demo.lv_rows (demo_pending k sid) = [row_key k sid \<mapsto> pendingKeyData k sid 1 [] None]"
    by simp_all
qed

lemma demo_pending_run:
  assumes "ascii k"
  shows "store_run demoLS [] [OpKeyGen k sid 1 [] None] (demo_pending k sid)"
  using run_op [OF run_nil, of "OpKeyGen k sid 1 [] None" demoLS "[]"] demo_pending_step(1) [OF assms]
  by fastforce

lemma demo_ready_step:
  assumes "ascii k"
  shows "apply_op demoLS (demo_report k sid) (demo_pending k sid) = (None, demo_ready k sid)"
    and "demo.lv_rows (demo_ready k sid) = [row_key k sid \<mapsto> readyKeyData k sid]"
    and "demo.lv_inv (demo_ready k sid)"
proof -
  let ?s = "demo_pending k sid"
  note p = demo_pending_step(2,3) [OF assms, of sid]
  have one: "ls_GetKeyDataByKeyIdAndKeySessionId demoLS ?s k sid = Inr (Some (pendingKeyData k sid 1 [] None))"
    using demo.lv.get_one [OF p(1), of k sid] p(2) by simp
  have "demo.lv_storable (readyKeyData k sid)"
    using assms by (intro demo_storable) (simp add: readyKeyData_def pendingKeyData_def)
  from demo.lv.set_ok [OF p(1) this] obtain s where s: "ls_SetKeyData demoLS ?s (readyKeyData k sid) = (None, s)"
    "demo.lv_inv s" "demo.lv_rows s = [row_key k sid \<mapsto> readyKeyData k sid]"
    using p(2) by (auto simp: readyKeyData_def pendingKeyData_def)
  have "apply_op demoLS (demo_report k sid) ?s = (None, s)"
    using one s(1) by (simp add: compareAndSetKeyStatusStorage_def readyKeyData_def pendingKeyData_def)
  moreover from this have "demo_ready k sid = s" by (simp add: demo_ready_def)
  ultimately show "apply_op demoLS (demo_report k sid) ?s = (None, demo_ready k sid)"
    and "demo.lv_rows (demo_ready k sid) = [row_key k sid \<mapsto> readyKeyData k sid]"
    and "demo.lv_inv (demo_ready k sid)"
    using s by simp_all
qed

lemma demo_ready_run:
  assumes "ascii k"
  shows "store_run demoLS [] [OpKeyGen k sid 1 [] None, demo_report k sid] (demo_ready k sid)"
  using run_op [OF demo_pending_run [OF assms, of sid], of "demo_report k sid"] demo_ready_step(1) [OF assms]
  by fastforce

lemma demo_reachable:
  "store_run demoLS [] ops s \<Longrightarrow> store_reachable MemDB mem_inv DemoCodec s"
  unfolding store_reachable_def by (intro exI [of _ "[]"] exI [of _ ops]) (simp add: mem_inv_def MemDB_def)

lemma demo_get:
  assumes "ascii k"
  shows "GetKeyDataByKeyIdAndKeySessionId MemDB DemoCodec (demo_pending k sid) k sid =
      Inr (Some (pendingKeyData k sid 1 [] None))"
    and "GetKeyDataByKeyIdAndKeySessionId MemDB DemoCodec (demo_ready k sid) k sid =
      Inr (Some (readyKeyData k sid))"
  using demo_pending_step [OF assms] demo_ready_step [OF assms]
  by (simp_all add: get_iff_rows [OF demo_leveldb])

lemmas demo_facts = demo_pending_run demo_ready_run demo_get
  demo_pending_run [THEN demo_reachable] demo_ready_run [THEN demo_reachable]

section \<open>Properties\<close>

text \<open>
  C3. One live record per key id. However the handlers of concurrent sessions interleave, the
  store never holds two different records of the same key id that are pending or ready.
\<close>

theorem one_live_key:
  assumes "leveldb D db_inv C" and "store_reachable D db_inv C s"
    and "GetKeyDataByKeyIdAndKeySessionId D C s k sid = Inr (Some d)"
    and "GetKeyDataByKeyIdAndKeySessionId D C s k' sid' = Inr (Some d')"
    and "live d" and "live d'" and "kd_KeyId d = kd_KeyId d'"
  shows "d = d'"
proof -
  note inv = store_reachableE [OF assms(1,2)] and st = leveldb.lv_storage [OF assms(1)]
  from assms(3,4) have "leveldb.lv_rows D C s (row_key k sid) = Some d"
    "leveldb.lv_rows D C s (row_key k' sid') = Some d'"
    by (simp_all add: get_iff_rows [OF assms(1) inv(1)])
  moreover from this have "row_key k sid = row_key k' sid'"
    using inv(2) assms(5-7) unfolding local_storage.one_live_def [OF st] by blast
  ultimately show ?thesis by simp
qed

theorem one_live_key_witness:
  "readyKeyData ''k'' ''s'' = readyKeyData ''k'' ''s'' \<and>
   GetKeyDataByKeyIdAndKeySessionId MemDB DemoCodec (demo_ready ''k'' ''s'') ''k'' ''s'' =
     Inr (Some (readyKeyData ''k'' ''s''))"
proof -
  have a: "ascii ''k''" by (simp add: ascii_def)
  have "live (readyKeyData ''k'' ''s'')" by (simp add: readyKeyData_def live_def)
  from one_live_key [OF demo_leveldb demo_facts(6) [OF a] demo_facts(4) [OF a]
      demo_facts(4) [OF a] this this refl] demo_facts(4) [OF a]
  show ?thesis by blast
qed

text \<open>
  C4. Ready keys are immutable. Once a record is ready, every later history of handler operations
  leaves it exactly as it is: no key generation, repeated or concurrent, overwrites key material.
\<close>

theorem ready_key_immutable:
  assumes "leveldb D db_inv C" and "store_reachable D db_inv C s"
    and "GetKeyDataByKeyIdAndKeySessionId D C s k sid = Inr (Some d)"
    and "kd_Status d = KEY_STATUS_READY" and "store_run (LevelDBStorage D C) s ops s'"
  shows "GetKeyDataByKeyIdAndKeySessionId D C s' k sid = Inr (Some d)"
proof -
  note inv = store_reachableE [OF assms(1,2)] and st = leveldb.lv_storage [OF assms(1)]
  have "leveldb.lv_inv D db_inv C s'" by (rule local_storage.run_inv [OF st assms(5) inv(1)])
  moreover have "leveldb.lv_rows D C s' (row_key k sid) = Some d"
    using local_storage.run_ready_stable [OF st assms(5) inv(1) _ assms(4)] assms(3)
    by (simp add: get_iff_rows [OF assms(1) inv(1)])
  ultimately show ?thesis by (simp add: get_iff_rows [OF assms(1)])
qed

theorem ready_key_immutable_witness:
  "\<exists>s'. store_run demoLS (demo_ready ''k'' ''s'') [OpKeyGen ''k'' ''t'' 2 [] None] s' \<and>
     GetKeyDataByKeyIdAndKeySessionId MemDB DemoCodec s' ''k'' ''s'' = Inr (Some (readyKeyData ''k'' ''s''))"
proof -
  have a: "ascii ''k''" by (simp add: ascii_def)
  obtain e s' where "apply_op demoLS (OpKeyGen ''k'' ''t'' 2 [] None) (demo_ready ''k'' ''s'') = (e, s')"
    by fastforce
  from run_op [OF run_nil _ this] have run:
    "store_run demoLS (demo_ready ''k'' ''s'') [OpKeyGen ''k'' ''t'' 2 [] None] s'" by simp
  have st: "kd_Status (readyKeyData ''k'' ''s'') = KEY_STATUS_READY" by (simp add: readyKeyData_def)
  from ready_key_immutable [OF demo_leveldb demo_facts(6) [OF a] demo_facts(4) [OF a] st run] run
  show ?thesis by blast
qed

text \<open>
  C31. A pending key blocks its key id. If a session leaves its record pending and never reports
  (the process stopped, say), the record stays, whatever the other sessions do, and every later
  key generation for the key id is refused without touching the store. Nothing in the program
  clears such a record.
\<close>

theorem pending_key_blocks:
  assumes "leveldb D db_inv C" and "store_reachable D db_inv C s"
    and "GetKeyDataByKeyIdAndKeySessionId D C s k sid = Inr (Some d)"
    and "kd_Status d = KEY_STATUS_PENDING" and "store_run (LevelDBStorage D C) s ops s'"
    and "\<forall>op \<in> set ops. \<not> reports (row_key k sid) op"
  shows "GetKeyDataByKeyIdAndKeySessionId D C s' k sid = Inr (Some d) \<and>
    (\<exists>e. checkAndSetKeyGenStorage (LevelDBStorage D C) k sid' t ps c s' = (Some e, s'))"
proof -
  note inv = store_reachableE [OF assms(1,2)] and st = leveldb.lv_storage [OF assms(1)]
  have inv': "leveldb.lv_inv D db_inv C s'" by (rule local_storage.run_inv [OF st assms(5) inv(1)])
  have d: "leveldb.lv_rows D C s' (row_key k sid) = Some d"
    using local_storage.run_pending_stuck [OF st assms(5) inv(1) _ assms(4,6)] assms(3)
    by (simp add: get_iff_rows [OF assms(1) inv(1)])
  with inv' have "GetKeyDataByKeyIdAndKeySessionId D C s' k sid = Inr (Some d)"
    by (simp add: get_iff_rows [OF assms(1)])
  moreover have "live d" using assms(4) by (simp add: live_def)
  ultimately show ?thesis
    using local_storage.keygen_refused [OF st inv' local_storage.own_row [OF st d inv']] by blast
qed

theorem pending_key_blocks_witness:
  "\<exists>e. checkAndSetKeyGenStorage demoLS ''k'' ''t'' 1 [] None (demo_pending ''k'' ''s'') =
     (Some e, demo_pending ''k'' ''s'')"
proof -
  have a: "ascii ''k''" by (simp add: ascii_def)
  have "kd_Status (pendingKeyData ''k'' ''s'' 1 [] None) = KEY_STATUS_PENDING"
    by (simp add: pendingKeyData_def)
  from pending_key_blocks [OF demo_leveldb demo_facts(5) [OF a] demo_facts(3) [OF a] this run_nil]
  show ?thesis by simp
qed

text \<open>
  C21. Status changes. One operation of a handler either leaves a record alone, creates it
  pending, ends a pending one as ready or error, or reopens one that is neither pending nor ready
  as pending; records are never removed.
\<close>

theorem status_transitions:
  assumes "leveldb D db_inv C" and "store_reachable D db_inv C s"
    and "handler_op op" and "apply_op (LevelDBStorage D C) op s = (e, s')"
  shows "\<exists>x y. GetKeyDataByKeyIdAndKeySessionId D C s k sid = Inr x \<and>
    GetKeyDataByKeyIdAndKeySessionId D C s' k sid = Inr y \<and> allowed x y"
proof -
  note inv = store_reachableE [OF assms(1,2)] and st = leveldb.lv_storage [OF assms(1)]
  have "leveldb.lv_inv D db_inv C s'" by (rule local_storage.op_rows(1) [OF st inv(1) assms(3,4)])
  with inv(1) show ?thesis
    using local_storage.op_allowed [OF st inv(1) assms(3,4), of "row_key k sid"]
    by (simp add: get_iff_rows [OF assms(1)])
qed

theorem status_transitions_witness:
  "\<exists>x y. GetKeyDataByKeyIdAndKeySessionId MemDB DemoCodec (demo_pending ''k'' ''s'') ''k'' ''s'' = Inr x \<and>
    GetKeyDataByKeyIdAndKeySessionId MemDB DemoCodec (demo_ready ''k'' ''s'') ''k'' ''s'' = Inr y \<and> allowed x y"
proof -
  have a: "ascii ''k''" by (simp add: ascii_def)
  have "handler_op (demo_report ''k'' ''s'')" by simp
  from status_transitions [OF demo_leveldb demo_facts(5) [OF a] this demo_ready_step(1) [OF a]]
  show ?thesis .
qed

text \<open>
  C22. When key generation is admitted. On a well-formed store the check succeeds exactly when no
  session of the key id is pending or ready and the new record can be serialised; then the new
  pending record is what the store holds for the session.
\<close>

theorem keygen_admission:
  assumes "leveldb D db_inv C" and "store_reachable D db_inv C s"
    and "checkAndSetKeyGenStorage (LevelDBStorage D C) k sid t ps c s = (e, s')"
  shows "(e = None \<longleftrightarrow>
      (\<forall>sid' d. GetKeyDataByKeyIdAndKeySessionId D C s k sid' = Inr (Some d) \<longrightarrow> \<not> live d) \<and>
      (\<exists>bs. pb_Marshal C (pendingKeyData k sid t ps c) = Inr bs)) \<and>
    (e = None \<longrightarrow> GetKeyDataByKeyIdAndKeySessionId D C s' k sid =
      Inr (Some (pendingKeyData k sid t ps c))) \<and>
    (e \<noteq> None \<longrightarrow> s' = s)"
proof -
  note inv = store_reachableE [OF assms(1,2)] and st = leveldb.lv_storage [OF assms(1)]
  have free: "(\<forall>sid' d. GetKeyDataByKeyIdAndKeySessionId D C s k sid' = Inr (Some d) \<longrightarrow> \<not> live d) \<longleftrightarrow>
      (\<forall>d \<in> local_storage.key_rows (leveldb.lv_rows D C) s k. \<not> live d)"
    by (auto simp: get_iff_rows [OF assms(1) inv(1)] local_storage.key_rows_iff [OF st inv(1)])
  note cases = local_storage.keygen_cases [OF st inv(1) assms(3)]
  have "e = None \<longleftrightarrow>
      (\<forall>d \<in> local_storage.key_rows (leveldb.lv_rows D C) s k. \<not> live d) \<and>
      (\<exists>bs. pb_Marshal C (pendingKeyData k sid t ps c) = Inr bs)"
  proof
    assume n: "e = None"
    have "leveldb.lv_storable C (pendingKeyData k sid t ps c)"
    proof (rule ccontr)
      assume ns: "\<not> leveldb.lv_storable C (pendingKeyData k sid t ps c)"
      obtain ds where "GetKeyDataListByKeyId D C s k = Inr ds"
        using leveldb.lv_get_list [OF assms(1) inv(1)] by blast
      with assms(3) local_storage.set_fail [OF st inv(1) ns] n show False
        by (auto simp: checkAndSetKeyGenStorage_def LevelDBStorage_def split: option.splits)
    qed
    with n cases show "(\<forall>d \<in> local_storage.key_rows (leveldb.lv_rows D C) s k. \<not> live d) \<and>
        (\<exists>bs. pb_Marshal C (pendingKeyData k sid t ps c) = Inr bs)"
      by (auto simp: leveldb.lv_storable_def [OF assms(1)])
  next
    assume "(\<forall>d \<in> local_storage.key_rows (leveldb.lv_rows D C) s k. \<not> live d) \<and>
        (\<exists>bs. pb_Marshal C (pendingKeyData k sid t ps c) = Inr bs)"
    with local_storage.keygen_admitted [OF st inv(1), of k sid t ps c] assms(3) show "e = None"
      by (auto simp: leveldb.lv_storable_def [OF assms(1)])
  qed
  then show ?thesis
    unfolding free using cases by (auto simp: get_iff_rows [OF assms(1)])
qed

theorem keygen_admission_witness:
  "\<exists>e. checkAndSetKeyGenStorage demoLS ''k'' ''s'' 1 [] None (demo_pending ''j'' ''s'') =
     (None, e)"
proof -
  have a: "ascii ''j''" by (simp add: ascii_def)
  let ?s = "demo_pending ''j'' ''s''"
  obtain e s' where r: "checkAndSetKeyGenStorage demoLS ''k'' ''s'' 1 [] None ?s = (e, s')"
    by fastforce
  have "\<not> (GetKeyDataByKeyIdAndKeySessionId MemDB DemoCodec ?s ''k'' sid' = Inr (Some d))" for sid' d
    using demo_pending_step(2,3) [OF a, of "''s''"]
    by (simp add: get_iff_rows [OF demo_leveldb] row_key_def)
  moreover have "\<exists>bs. pb_Marshal DemoCodec (pendingKeyData ''k'' ''s'' 1 [] None) = Inr bs"
    by (simp add: DemoCodec_def pendingKeyData_def)
  ultimately have "e = None"
    using keygen_admission [OF demo_leveldb demo_facts(5) [OF a] r] by blast
  with r show ?thesis by blast
qed

text \<open>
  C23. The latest ready record. The read operation returns none exactly when no session of the
  prefix is ready; otherwise it returns a ready record whose creation time no other ready record
  of the same prefix exceeds.
\<close>

theorem latest_ready_key:
  assumes "leveldb D db_inv C" and "store_reachable D db_inv C s"
  shows "\<exists>res. getLatestReadyKeyDataByKeyIdFromStorage (LevelDBStorage D C) k s = Inr res \<and>
    (case res of
       None \<Rightarrow> \<forall>sid d. GetKeyDataByKeyIdAndKeySessionId D C s k sid = Inr (Some d) \<longrightarrow>
         kd_Status d \<noteq> KEY_STATUS_READY
     | Some r \<Rightarrow> (\<exists>sid. GetKeyDataByKeyIdAndKeySessionId D C s k sid = Inr (Some r)) \<and>
         kd_Status r = KEY_STATUS_READY \<and>
         (\<forall>sid d. GetKeyDataByKeyIdAndKeySessionId D C s k sid = Inr (Some d) \<longrightarrow>
            kd_Status d = KEY_STATUS_READY \<longrightarrow>
            \<not> time_After (AsTime (kd_CreatedTime d)) (AsTime (kd_CreatedTime r))))"
proof -
  note inv = store_reachableE [OF assms(1,2)] and st = leveldb.lv_storage [OF assms(1)]
  have rows: "d \<in> local_storage.key_rows (leveldb.lv_rows D C) s k \<longleftrightarrow>
      (\<exists>sid. leveldb.lv_rows D C s (row_key k sid) = Some d)" for d
    using local_storage.key_rows_iff [OF st inv(1)] by blast
  from local_storage.latest_ready_spec [OF st inv(1), of k] obtain res where
    "getLatestReadyKeyDataByKeyIdFromStorage (LevelDBStorage D C) k s = Inr res"
    "case res of
       None \<Rightarrow> \<forall>d \<in> local_storage.key_rows (leveldb.lv_rows D C) s k. kd_Status d \<noteq> KEY_STATUS_READY
     | Some r \<Rightarrow> r \<in> local_storage.key_rows (leveldb.lv_rows D C) s k \<and> kd_Status r = KEY_STATUS_READY \<and>
         (\<forall>d \<in> local_storage.key_rows (leveldb.lv_rows D C) s k.
            kd_Status d = KEY_STATUS_READY \<longrightarrow> created d \<le> created r)"
    by blast
  then show ?thesis
    by (intro exI [of _ res])
      (auto simp: get_iff_rows [OF assms(1) inv(1)] rows time_After_key not_less split: option.splits)
qed

theorem latest_ready_key_witness:
  "getLatestReadyKeyDataByKeyIdFromStorage demoLS ''k'' (demo_ready ''k'' ''s'') =
     Inr (Some (readyKeyData ''k'' ''s''))"
proof -
  have a: "ascii ''k''" by (simp add: ascii_def)
  have g: "GetKeyDataByKeyIdAndKeySessionId MemDB DemoCodec (demo_ready ''k'' ''s'') ''k'' sid =
      Inr (if sid = ''s'' then Some (readyKeyData ''k'' ''s'') else None)" for sid
    using demo_ready_step(2,3) [OF a] by (simp add: get_iff_rows [OF demo_leveldb] row_key_def)
  have "kd_Status (readyKeyData ''k'' ''s'') = KEY_STATUS_READY" by (simp add: readyKeyData_def)
  with latest_ready_key [OF demo_leveldb demo_facts(6) [OF a, of "''s''"], of "''k''"] show ?thesis
    by (auto simp: g split: option.splits if_splits)
qed

text \<open>
  C38. Key ids that hold a colon get mixed up. A ready record stored for the key id
  \<open>k:k2\<close> makes key generation for \<open>k\<close> fail as already done, and reading the latest ready
  key of \<open>k\<close> returns a record although \<open>k\<close> itself need never have been generated: the rows are
  found by the prefix \<open>k:\<close> alone.
\<close>

theorem key_id_prefix_collision:
  assumes "leveldb D db_inv C" and "store_reachable D db_inv C s"
    and "GetKeyDataByKeyIdAndKeySessionId D C s (k @ '':'' @ k2) sid = Inr (Some d)"
    and "kd_Status d = KEY_STATUS_READY"
  shows "(\<exists>e. checkAndSetKeyGenStorage (LevelDBStorage D C) k sid' t ps c s = (Some e, s)) \<and>
    (\<exists>r. getLatestReadyKeyDataByKeyIdFromStorage (LevelDBStorage D C) k s = Inr (Some r) \<and>
      created d \<le> created r)"
proof -
  note inv = store_reachableE [OF assms(1,2)] and st = leveldb.lv_storage [OF assms(1)]
  have "row_key (k @ '':'' @ k2) sid = row_key k (k2 @ '':'' @ sid)" by (simp add: row_key_def)
  with assms(3) have "leveldb.lv_rows D C s (row_key k (k2 @ '':'' @ sid)) = Some d"
    by (simp add: get_iff_rows [OF assms(1) inv(1)])
  then have d: "d \<in> local_storage.key_rows (leveldb.lv_rows D C) s k"
    by (rule local_storage.own_row [OF st _ inv(1)])
  moreover have "live d" using assms(4) by (simp add: live_def)
  ultimately have "\<exists>e. checkAndSetKeyGenStorage (LevelDBStorage D C) k sid' t ps c s = (Some e, s)"
    using local_storage.keygen_refused [OF st inv(1)] by blast
  moreover have "\<exists>r. getLatestReadyKeyDataByKeyIdFromStorage (LevelDBStorage D C) k s = Inr (Some r) \<and>
      created d \<le> created r"
    using local_storage.latest_ready_spec [OF st inv(1), of k] d assms(4)
    by (auto split: option.splits)
  ultimately show ?thesis by blast
qed

theorem key_id_prefix_collision_witness:
  "\<exists>r. getLatestReadyKeyDataByKeyIdFromStorage demoLS ''a'' (demo_ready ''a:b'' ''s'') = Inr (Some r)"
proof -
  have a: "ascii ''a:b''" by (simp add: ascii_def)
  have "kd_Status (readyKeyData ''a:b'' ''s'') = KEY_STATUS_READY" by (simp add: readyKeyData_def)
  moreover have "GetKeyDataByKeyIdAndKeySessionId MemDB DemoCodec (demo_ready ''a:b'' ''s'')
      (''a'' @ '':'' @ ''b'') ''s'' = Inr (Some (readyKeyData ''a:b'' ''s''))"
    using demo_facts(4) [OF a, of "''s''"] by simp
  ultimately show ?thesis
    using key_id_prefix_collision [OF demo_leveldb demo_facts(6) [OF a]] by blast
qed

end
