(* ===== verification/Validation.thy ===== *)
theory Validation
  imports Manager
begin

text \<open>
  The package \<open>validator\<close> without the key file: \<open>validator/validator.go\<close>,
  \<open>validator/keygen.go\<close> and \<open>validator/keysign.go\<close>. The REST service and the JSON decoder
  are parameters. \<open>strings.ToLower\<close> and \<open>bytes.EqualFold\<close> are modelled over \<open>Format\<close>'s UTF-8;
  only Unicode's case tables above ASCII are parameters.
\<close>

section \<open>Case\<close>

text \<open>
  \<open>ul_lower\<close> is \<open>unicode.ToLower\<close> above ASCII, \<open>ul_fold\<close> is \<open>unicode.SimpleFold\<close>.
\<close>

record UnicodeTables =
  ul_lower :: "nat \<Rightarrow> nat"
  ul_fold :: "nat \<Rightarrow> nat"

definition ascii_lower :: "nat \<Rightarrow> nat" where
  "ascii_lower r = (if 65 \<le> r \<and> r \<le> 90 then r + 32 else r)"

definition ToLower :: "UnicodeTables \<Rightarrow> string \<Rightarrow> string" where
  "ToLower U s =
     (let bs = bytes_of s in
      if list_all (\<lambda>b. unat b < 128) bs then string_of (map (\<lambda>b. of_nat (ascii_lower (unat b))) bs)
      else string_of (concat (map (\<lambda>r. EncodeRune (if r < 128 then ascii_lower r else ul_lower U r))
                                  (runes bs))))"

text \<open>
  The inner loop of \<open>EqualFold\<close>: it walks the runes equivalent to \<open>sr\<close> upwards. An orbit of
  \<open>SimpleFold\<close> has at most four members, so eight steps are more than it takes.
\<close>

fun fold_walk :: "UnicodeTables \<Rightarrow> nat \<Rightarrow> nat \<Rightarrow> nat \<Rightarrow> nat \<Rightarrow> nat" where
  "fold_walk U 0 sr tr r = r"
| "fold_walk U (Suc n) sr tr r =
     (if r \<noteq> sr \<and> r < tr then fold_walk U n sr tr (ul_fold U r) else r)"

definition rune_fold_eq :: "UnicodeTables \<Rightarrow> nat \<Rightarrow> nat \<Rightarrow> bool" where
  "rune_fold_eq U sr tr =
     (if tr = sr then True
      else let (sr, tr) = (if tr < sr then (tr, sr) else (sr, tr)) in
        if tr < 128 then 65 \<le> sr \<and> sr \<le> 90 \<and> tr = sr + 32
        else fold_walk U 8 sr tr (ul_fold U sr) = tr)"

text \<open>\<open>bytes.EqualFold\<close>; its separate loop for ASCII prefixes computes the same.\<close>

function EqualFold :: "UnicodeTables \<Rightarrow> bytes \<Rightarrow> bytes \<Rightarrow> bool" where
  "EqualFold U s t =
     (if s = [] \<or> t = [] then length s = length t
      else (let (sr, n) = DecodeRune s; (tr, m) = DecodeRune t
            in if rune_fold_eq U sr tr then EqualFold U (drop n s) (drop m t) else False))"
  by pat_completeness auto
termination
proof (relation "measure (\<lambda>(U, s, t). length s)", goal_cases)
  case (2 U s t x sr n y tr m)
  then show ?case using DecodeRune_size [of s] by (cases "DecodeRune s") auto
qed simp

declare EqualFold.simps [simp del]

section \<open>The REST service\<close>

text \<open>
  The calls of \<open>net/http\<close> and the JSON decoder. The moment of the request is an argument: the
  service's answers change over time. The status code of the response is not looked at.
\<close>

record MpcPartyID =
  mp_ID :: string
  mp_Moniker :: string
  mp_Key :: string

record ResultMpcSet =
  ms_Height :: string
  ms_Result :: "MpcPartyID list"

record Sign =
  sg_SignID :: string
  sg_MpcID :: string
  sg_SignType :: int64
  sg_SignData :: bytes
  sg_SignMsg :: bytes
  sg_Proposer :: string
  sg_Signature :: bytes

record ResultSignInfo =
  si_Height :: string
  si_Result :: Sign

record 'res Http =
  h_NewRequest :: "string \<Rightarrow> string \<Rightarrow> error option"
  h_Do :: "nat \<Rightarrow> string \<Rightarrow> string \<Rightarrow> error + 'res"
  h_ReadAll :: "'res \<Rightarrow> error + bytes"
  h_json_MpcSet :: "bytes \<Rightarrow> error + ResultMpcSet"
  h_json_SignInfo :: "bytes \<Rightarrow> error + ResultSignInfo"

definition rest_get :: "'res Http \<Rightarrow> nat \<Rightarrow> string \<Rightarrow> error + bytes" where
  "rest_get H now url =
     (case h_NewRequest H ''GET'' url of
        Some err \<Rightarrow> Inl err
      | None \<Rightarrow> (case h_Do H now ''GET'' url of Inl err \<Rightarrow> Inl err | Inr res \<Rightarrow> h_ReadAll H res))"

definition getCurrentMpcSet :: "'res Http \<Rightarrow> string \<Rightarrow> nat \<Rightarrow> error + ResultMpcSet" where
  "getCurrentMpcSet H themisRestUrl now =
     (let url = themisRestUrl @ ''/mpc/set'' in
      case rest_get H now url of Inl err \<Rightarrow> Inl err | Inr body \<Rightarrow> h_json_MpcSet H body)"

definition getSignInfo :: "'res Http \<Rightarrow> string \<Rightarrow> nat \<Rightarrow> string \<Rightarrow> error + ResultSignInfo" where
  "getSignInfo H themisRestUrl now signId =
     (let url = themisRestUrl @ ''/mpc/sign/'' @ signId in
      case rest_get H now url of Inl err \<Rightarrow> Inl err | Inr body \<Rightarrow> h_json_SignInfo H body)"

section \<open>The two checks\<close>

fun all_members :: "UnicodeTables \<Rightarrow> string set \<Rightarrow> PartyID list \<Rightarrow> error option" where
  "all_members U valAddressesMap [] = None"
| "all_members U valAddressesMap (p # ps) =
     (if ToLower U (pid_Moniker p) \<notin> valAddressesMap then Some (Errorf ''not a validator party'')
      else all_members U valAddressesMap ps)"

definition KeyGenValidate ::
    "UnicodeTables \<Rightarrow> 'res Http \<Rightarrow> string \<Rightarrow> nat \<Rightarrow> string \<Rightarrow> int32 \<Rightarrow> PartyID list \<Rightarrow> error option" where
  "KeyGenValidate U H themisRestUrl now keyId threshold allPartyId =
     (case getCurrentMpcSet H themisRestUrl now of
        Inl err \<Rightarrow> Some err
      | Inr outputs \<Rightarrow>
          all_members U (set (map (\<lambda>v. ToLower U (mp_Moniker v)) (ms_Result outputs))) allPartyId)"

text \<open>A nil signature without an error is the empty byte string.\<close>

definition KeySignValidate ::
    "UnicodeTables \<Rightarrow> 'res Http \<Rightarrow> string \<Rightarrow> nat \<Rightarrow> string \<Rightarrow> string \<Rightarrow> bytes \<Rightarrow> error + bytes" where
  "KeySignValidate U H themisRestUrl now signId keyId signMsg =
     (case getSignInfo H themisRestUrl now signId of
        Inl err \<Rightarrow> Inl err
      | Inr signInfo \<Rightarrow>
          if 0 < length (sg_Signature (si_Result signInfo)) then Inr (sg_Signature (si_Result signInfo))
          else if sg_MpcID (si_Result signInfo) \<noteq> keyId
          then Inl (Errorf ''KeySignValidate key id mismatch'')
          else if \<not> EqualFold U (sg_SignMsg (si_Result signInfo)) signMsg
          then Inl (Errorf ''KeySignValidate sign msg mismatch'')
          else Inr [])"

text \<open>\<open>New\<close>: the validator as the manager sees it.\<close>

definition New :: "UnicodeTables \<Rightarrow> 'res Http \<Rightarrow> string \<Rightarrow> Validator" where
  "New U H themisRestUrl =
     \<lparr>v_KeyGenValidate = KeyGenValidate U H themisRestUrl,
      v_KeySignValidate = KeySignValidate U H themisRestUrl\<rparr>"

section \<open>Lemmas\<close>

lemma all_members_None:
  "all_members U M ps = None \<longleftrightarrow> (\<forall>p \<in> set ps. ToLower U (pid_Moniker p) \<in> M)"
  by (induction ps) auto

lemma EqualFold_step:
  "s \<noteq> [] \<Longrightarrow> t \<noteq> [] \<Longrightarrow> EqualFold U s t \<longleftrightarrow>
     rune_fold_eq U (fst (DecodeRune s)) (fst (DecodeRune t)) \<and>
     EqualFold U (drop (snd (DecodeRune s)) s) (drop (snd (DecodeRune t)) t)"
  by (subst EqualFold.simps) (auto simp: Let_def split: prod.splits)

lemma rune_fold_eq_refl: "rune_fold_eq U r r"
  by (simp add: rune_fold_eq_def)

lemma EqualFold_refl: "EqualFold U s s"
proof (induction s rule: length_induct)
  case (1 s)
  show ?case
  proof (cases "s = []")
    case True
    then show ?thesis by (simp add: EqualFold.simps [of U "[]" "[]"])
  next
    case False
    then have "length (drop (snd (DecodeRune s)) s) < length s"
      using DecodeRune_size [of s] by simp
    with 1 False show ?thesis by (simp add: EqualFold_step rune_fold_eq_def)
  qed
qed

text \<open>
  Two bytes the comparison cannot tell apart: the same ASCII byte, the two cases of an ASCII
  letter, and any two bytes from 245 on, which never occur in UTF-8.
\<close>

definition loose :: "byte \<Rightarrow> byte \<Rightarrow> bool" where
  "loose a b \<longleftrightarrow>
     unat a < 128 \<and> unat b < 128 \<and> ascii_lower (unat a) = ascii_lower (unat b) \<or>
     245 \<le> unat a \<and> 245 \<le> unat b"

lemma ascii_fold_eq:
  "a < 128 \<Longrightarrow> b < 128 \<Longrightarrow> rune_fold_eq U a b \<longleftrightarrow> ascii_lower a = ascii_lower b"
  by (auto simp: rune_fold_eq_def ascii_lower_def Let_def)

lemma EqualFold_loose: "list_all2 loose s t \<Longrightarrow> EqualFold U s t"
proof (induction s t rule: list_all2_induct)
  case Nil
  then show ?case by (simp add: EqualFold.simps [of U "[]" "[]"])
next
  case (Cons a s b t)
  have "rune_fold_eq U (fst (DecodeRune (a # s))) (fst (DecodeRune (b # t))) \<and>
      snd (DecodeRune (a # s)) = 1 \<and> snd (DecodeRune (b # t)) = 1"
    using Cons.hyps(1) unfolding loose_def
    by (elim disjE conjE) (simp_all add: ascii_fold_eq DecodeRune_invalid rune_fold_eq_refl)
  with Cons.IH show ?case by (simp add: EqualFold_step)
qed

lemma EqualFold_ascii:
  assumes "\<forall>b \<in> set s. unat b < 128" and "\<forall>b \<in> set t. unat b < 128"
  shows "EqualFold U s t \<longleftrightarrow>
    map (\<lambda>b. ascii_lower (unat b)) s = map (\<lambda>b. ascii_lower (unat b)) t"
  using assms
proof (induction s arbitrary: t)
  case Nil
  show ?case by (simp add: EqualFold.simps [of U "[]" t])
next
  case (Cons a s)
  note ih = Cons
  show ?case
  proof (cases t)
    case Nil
    then show ?thesis by (simp add: EqualFold.simps [of U _ "[]"])
  next
    case (Cons b t')
    with ih show ?thesis by (simp add: EqualFold_step ascii_fold_eq)
  qed
qed

section \<open>The contract of a validator\<close>

text \<open>
  What the handlers rely on: a party list is accepted exactly when the service answers and knows
  each party, and a sign request that passes was already signed or is the one registered.
\<close>

locale party_validator =
  fixes V :: Validator
    and available :: "nat \<Rightarrow> bool"
    and known :: "nat \<Rightarrow> PartyID \<Rightarrow> bool"
    and registered :: "nat \<Rightarrow> string \<Rightarrow> string \<Rightarrow> bytes \<Rightarrow> bool"
    and already_signed :: "nat \<Rightarrow> string \<Rightarrow> bool"
  assumes keygen_iff: "v_KeyGenValidate V now k t ps = None \<longleftrightarrow>
      available now \<and> (\<forall>p \<in> set ps. known now p)"
    and keysign_pass: "v_KeySignValidate V now i k m = Inr sig \<Longrightarrow>
      already_signed now i \<or> registered now i k m"
begin

lemma keygen_subset:
  "v_KeyGenValidate V now k t ps = None \<Longrightarrow> set qs \<subseteq> set ps \<Longrightarrow>
     v_KeyGenValidate V now k' t' qs = None"
  by (auto simp: keygen_iff)

lemma keygen_rejects:
  "p \<in> set ps \<Longrightarrow> \<not> known now p \<Longrightarrow> v_KeyGenValidate V now k t ps \<noteq> None"
  by (auto simp: keygen_iff)

end

definition mpc_known :: "UnicodeTables \<Rightarrow> 'res Http \<Rightarrow> string \<Rightarrow> nat \<Rightarrow> PartyID \<Rightarrow> bool" where
  "mpc_known U H url now p \<longleftrightarrow> (case getCurrentMpcSet H url now of
     Inl _ \<Rightarrow> False
   | Inr outputs \<Rightarrow>
       list_ex (\<lambda>v. ToLower U (mp_Moniker v) = ToLower U (pid_Moniker p)) (ms_Result outputs))"

definition sign_registered ::
    "UnicodeTables \<Rightarrow> 'res Http \<Rightarrow> string \<Rightarrow> nat \<Rightarrow> string \<Rightarrow> string \<Rightarrow> bytes \<Rightarrow> bool" where
  "sign_registered U H url now signId keyId signMsg \<longleftrightarrow> (case getSignInfo H url now signId of
     Inl _ \<Rightarrow> False
   | Inr info \<Rightarrow> sg_MpcID (si_Result info) = keyId \<and>
       EqualFold U (sg_SignMsg (si_Result info)) signMsg)"

definition sign_done :: "'res Http \<Rightarrow> string \<Rightarrow> nat \<Rightarrow> string \<Rightarrow> bool" where
  "sign_done H url now signId \<longleftrightarrow> (case getSignInfo H url now signId of
     Inl _ \<Rightarrow> False | Inr info \<Rightarrow> sg_Signature (si_Result info) \<noteq> [])"

lemma KeyGenValidate_None:
  "KeyGenValidate U H url now k t ps = None \<longleftrightarrow>
     (\<exists>out. getCurrentMpcSet H url now = Inr out) \<and> (\<forall>p \<in> set ps. mpc_known U H url now p)"
proof (cases "getCurrentMpcSet H url now")
  case (Inr out)
  then show ?thesis
    by (force simp: KeyGenValidate_def mpc_known_def all_members_None list_ex_iff)
qed (simp add: KeyGenValidate_def)

lemma KeySignValidate_Inr:
  "KeySignValidate U H url now i k m = Inr sig \<Longrightarrow>
     sign_done H url now i \<or> sign_registered U H url now i k m"
  by (auto simp: KeySignValidate_def sign_done_def sign_registered_def split: sum.splits if_splits)

interpretation rest: party_validator "New U H url" "\<lambda>now. \<exists>out. getCurrentMpcSet H url now = Inr out"
  "mpc_known U H url" "sign_registered U H url" "sign_done H url"
  for U :: UnicodeTables and H :: "'res Http" and url :: string
  by unfold_locales (auto simp: New_def KeyGenValidate_None dest: KeySignValidate_Inr)

section \<open>Properties\<close>

text \<open>A service for the witnesses: it knows one party and one sign request.\<close>

definition demo_sign :: Sign where
  "demo_sign = \<lparr>sg_SignID = ''i'', sg_MpcID = ''k'', sg_SignType = 0, sg_SignData = [],
     sg_SignMsg = [65, 255], sg_Proposer = [], sg_Signature = []\<rparr>"

definition DemoHttp :: "string Http" where
  "DemoHttp = \<lparr>h_NewRequest = (\<lambda>_ _. None), h_Do = (\<lambda>_ _ url. Inr url),
     h_ReadAll = (\<lambda>url. Inr (bytes_of url)),
     h_json_MpcSet = (\<lambda>_. Inr \<lparr>ms_Height = ''1'',
        ms_Result = [\<lparr>mp_ID = ''p'', mp_Moniker = ''0xAb'', mp_Key = []\<rparr>]\<rparr>),
     h_json_SignInfo = (\<lambda>_. Inr \<lparr>si_Height = ''1'', si_Result = demo_sign\<rparr>)\<rparr>"

definition DemoUnicode :: UnicodeTables where
  "DemoUnicode = \<lparr>ul_lower = id, ul_fold = id\<rparr>"

text \<open>
  C26. Who may take part in key generation. The validator accepts a party list exactly when the
  service answered with a set and every party's moniker equals, in lower case, the moniker of a
  member of the set. Key id, threshold, order and repetitions play no part, and an empty list is
  accepted.
\<close>

theorem keygen_validate_iff:
  "v_KeyGenValidate (New U H url) now k t ps = None \<longleftrightarrow>
     (\<exists>out. getCurrentMpcSet H url now = Inr out \<and>
       (\<forall>p \<in> set ps. \<exists>v \<in> set (ms_Result out).
          ToLower U (mp_Moniker v) = ToLower U (pid_Moniker p)))"
  unfolding rest.keygen_iff by (auto simp: mpc_known_def list_ex_iff)

theorem keygen_validate_iff_witness:
  "v_KeyGenValidate (New DemoUnicode DemoHttp ''u'') 0 ''k'' 1
     [\<lparr>pid_Id = ''p'', pid_Moniker = ''0xAB'', pid_Key = []\<rparr>] = None \<and>
   v_KeyGenValidate (New DemoUnicode DemoHttp ''u'') 0 ''k'' 1
     [\<lparr>pid_Id = ''p'', pid_Moniker = ''0xAC'', pid_Key = []\<rparr>] \<noteq> None"
  unfolding keygen_validate_iff
  by (simp add: getCurrentMpcSet_def rest_get_def DemoHttp_def ToLower_def string_of_def
      ascii_lower_def)


text \<open>
  C30. The message comparison is not exact. The registered message passes, but so does every
  message whose bytes agree up to the case of ASCII letters and up to the choice of bytes from
  245 on: a validator asked about such a different message vouches for it.
\<close>

theorem keysign_message_confusion:
  assumes "getSignInfo H url now i = Inr info" and "sg_MpcID (si_Result info) = k"
    and "sg_Signature (si_Result info) = []"
    and "m = sg_SignMsg (si_Result info) \<or> list_all2 loose (sg_SignMsg (si_Result info)) m"
  shows "v_KeySignValidate (New U H url) now i k m = Inr []"
  using assms EqualFold_refl [of U m] EqualFold_loose [of _ m U]
  by (auto simp: New_def KeySignValidate_def)

theorem keysign_message_confusion_witness:
  "sg_SignMsg demo_sign \<noteq> [97, 250] \<and>
   v_KeySignValidate (New DemoUnicode DemoHttp ''u'') 0 ''i'' ''k'' [97, 250] = Inr []"
proof -
  have "getSignInfo DemoHttp ''u'' 0 ''i'' = Inr \<lparr>si_Height = ''1'', si_Result = demo_sign\<rparr>"
    by (simp add: getSignInfo_def rest_get_def DemoHttp_def)
  from keysign_message_confusion [OF this, of "''k''" "[97, 250]" DemoUnicode] show ?thesis
    by (simp add: demo_sign_def loose_def ascii_lower_def)
qed

end
