(* ===== verification/ComponentProps.thy ===== *)
theory ComponentProps
  imports InstanceMsg Lifecycle Validation
begin

text \<open>
  Properties of the lower components: messages on a byte stream, the store as a map of records,
  and the comparison of messages by the validator.
\<close>

section \<open>Streams of messages\<close>

text \<open>A sequence of messages, sent until one fails and received until one fails.\<close>

fun send_msgs :: "MsgCodec \<Rightarrow> TssP2PMsg list \<Rightarrow> writer \<Rightarrow> error option \<times> writer" where
  "send_msgs M [] w = (None, w)"
| "send_msgs M (m # ms) w = (case SendMsg M w m of
     (Some err, w) \<Rightarrow> (Some err, w) | (None, w) \<Rightarrow> send_msgs M ms w)"

fun recv_msgs :: "MsgCodec \<Rightarrow> nat \<Rightarrow> reader \<Rightarrow> (error + TssP2PMsg list) \<times> reader" where
  "recv_msgs M 0 r = (Inr [], r)"
| "recv_msgs M (Suc n) r = (case RecvMsg M r of
     (Inl err, r) \<Rightarrow> (Inl err, r)
   | (Inr m, r) \<Rightarrow> (case recv_msgs M n r of
        (Inl err, r) \<Rightarrow> (Inl err, r) | (Inr ms, r) \<Rightarrow> (Inr (m # ms), r)))"

lemma send_msgs_out:
  assumes "p2p_codec M"
  shows "\<forall>m \<in> set ms. sendable M m \<Longrightarrow> send_msgs M ms w = (None, w') \<Longrightarrow>
    \<exists>bss. wr_out w' = wr_out w @ concat (map frame bss) \<and>
      list_all2 (\<lambda>m bs. mc_Unmarshal M bs = Inr m \<and> length bs \<le> unat maxMsgLen) ms bss"
proof (induction ms arbitrary: w)
  case (Cons m ms)
  from Cons.prems(1) obtain bs where bs: "mc_Marshal M m = Inr bs" "length bs \<le> unat maxMsgLen"
    by (auto simp: sendable_def split: sum.splits)
  from Cons.prems(2) obtain w1 where w1: "SendMsg M w m = (None, w1)" "send_msgs M ms w1 = (None, w')"
    by (auto split: prod.splits option.splits)
  from SendMsg_out [OF bs(1) w1(1)] have out: "wr_out w1 = wr_out w @ frame bs" by simp
  from Cons.IH [OF _ w1(2)] Cons.prems(1) obtain bss where
    bss: "wr_out w' = wr_out w1 @ concat (map frame bss)"
      "list_all2 (\<lambda>m bs. mc_Unmarshal M bs = Inr m \<and> length bs \<le> unat maxMsgLen) ms bss" by auto
  with out bs p2p_codec.Unmarshal_Marshal [OF assms bs(1)] show ?case
    by (intro exI [of _ "bs # bss"]) auto
qed simp

lemma recv_msgs_in:
  "list_all2 (\<lambda>m bs. mc_Unmarshal M bs = Inr m \<and> length bs \<le> unat maxMsgLen) ms bss \<Longrightarrow>
     concat (rd_chunks r) = concat (map frame bss) @ rest \<Longrightarrow>
     \<exists>r'. recv_msgs M (length ms) r = (Inr ms, r') \<and> concat (rd_chunks r') = rest"
proof (induction ms bss arbitrary: r rule: list_all2_induct)
  case (Cons m ms bs bss)
  from Cons.prems have "concat (rd_chunks r) = frame bs @ concat (map frame bss) @ rest" by simp
  from RecvMsg_frame [OF this, of M] Cons.hyps(1) obtain r1 where
    r1: "RecvMsg M r = (Inr m, r1)" "concat (rd_chunks r1) = concat (map frame bss) @ rest" by auto
  from Cons.IH [OF r1(2)] r1(1) show ?case by auto
qed simp


text \<open>A message that every codec of the witnesses can carry, and a writer that never fails.\<close>

definition demo_msg :: TssP2PMsg where
  "demo_msg = p2p_msg (TssP2PMsg_ProcessErrorMsg \<lparr>pem_ErrorMsg = ''no''\<rparr>)"

definition demo_writer :: writer where "demo_writer = \<lparr>wr_out = [], wr_script = []\<rparr>"

lemma send_msgs_no_fail:
  "\<forall>m \<in> set ms. sendable M m \<Longrightarrow> wr_script w = [] \<Longrightarrow> \<exists>w'. send_msgs M ms w = (None, w')"
proof (induction ms arbitrary: w)
  case (Cons m ms)
  from Cons.prems(1) obtain bs where "mc_Marshal M m = Inr bs"
    by (auto simp: sendable_def split: sum.splits)
  from SendMsg_no_fail [OF this Cons.prems(2)] Cons show ?case by auto
qed simp

lemma length_enc_nat: "length (enc_nat n) = Suc n"
  by (induction n) auto

lemma length_concat_single: "length (concat (map (\<lambda>b. [b]) xs)) = length xs"
  by (induction xs) auto

lemma demo_sendable: "\<forall>m \<in> set [demo_msg, demo_msg]. sendable DemoMsgCodec m"
  by (simp add: sendable_def DemoMsgCodec_def demo_msg_def enc_pem_def enc_via_def enc_list_def
      length_enc_nat length_concat_single maxMsgLen_def del: enc_nat.simps)

lemma demo_out: "wr_out demo_writer = []"
  by (simp add: demo_writer_def)



definition demo_failing :: writer where
  "demo_failing = \<lparr>wr_out = [], wr_script = [None, Some (5, EOF_error)]\<rparr>"

lemma demo_first: "send_msgs DemoMsgCodec [demo_msg] demo_failing =
    (None, \<lparr>wr_out = frame (enc_MsgType (tp_MsgType demo_msg)), wr_script = [Some (5, EOF_error)]\<rparr>)"
  by code_simp

lemma demo_second: "SendMsg DemoMsgCodec
      \<lparr>wr_out = frame (enc_MsgType (tp_MsgType demo_msg)), wr_script = [Some (5, EOF_error)]\<rparr> demo_msg =
    (Some (Errorf ''fail to flush stream: EOF''),
     \<lparr>wr_out = frame (enc_MsgType (tp_MsgType demo_msg)) @ take 5 (frame (enc_MsgType (tp_MsgType demo_msg))),
      wr_script = []\<rparr>)"
  by code_simp


text \<open>
  C20. The limit of the receiver is not a limit of the sender. A message of more than 20 MiB (and
  less than 4 GiB) is sent without an error over a writer that does not fail, and every reader
  that gets the bytes refuses it as too large.
\<close>

theorem oversize_message_refused:
  assumes "mc_Marshal M m = Inr bs" and "unat maxMsgLen < length bs" and "length bs < 2 ^ 32"
    and "wr_out w = []" and "wr_script w = []"
  shows "\<exists>w'. SendMsg M w m = (None, w') \<and>
    (\<forall>(r :: reader) rest. concat (rd_chunks r) = wr_out w' @ rest \<longrightarrow>
       (\<exists>r'. RecvMsg M r = (Inl (Errorf ''message length is too large''), r')))"
proof -
  from SendMsg_no_fail [OF assms(1,5)] assms(4) obtain w' where
    w': "SendMsg M w m = (None, w')" "wr_out w' = frame bs" by auto
  show ?thesis
  proof (intro exI [of _ w'] conjI allI impI)
    fix r :: reader and rest assume "concat (rd_chunks r) = wr_out w' @ rest"
    with w'(2) have "concat (rd_chunks r) = frame bs @ rest" by simp
    from RecvMsg_too_large [OF this assms(2,3)]
    show "\<exists>r'. RecvMsg M r = (Inl (Errorf ''message length is too large''), r')" .
  qed (fact w'(1))
qed

definition big_msg :: TssP2PMsg where
  "big_msg = p2p_msg (TssP2PMsg_ProcessErrorMsg \<lparr>pem_ErrorMsg = replicate 20971520 CHR ''a''\<rparr>)"

lemma big_marshal: "mc_Marshal DemoMsgCodec big_msg = Inr (enc_MsgType (tp_MsgType big_msg))"
  by (simp add: DemoMsgCodec_def)

lemma big_length: "length (enc_MsgType (tp_MsgType big_msg)) = 12 + (1 + 2 * 20971520)"
  by (simp add: big_msg_def enc_pem_def enc_via_def enc_list_def length_enc_nat
      length_concat_single del: enc_nat.simps)

theorem oversize_message_refused_witness:
  "\<exists>w'. SendMsg DemoMsgCodec demo_writer big_msg = (None, w') \<and>
     (\<exists>r'. RecvMsg DemoMsgCodec \<lparr>rd_chunks = [wr_out w'], rd_err = EOF_error\<rparr> =
        (Inl (Errorf ''message length is too large''), r'))"
proof -
  have "unat maxMsgLen < length (enc_MsgType (tp_MsgType big_msg))"
    and "length (enc_MsgType (tp_MsgType big_msg)) < 2 ^ 32"
    by (simp_all add: big_length maxMsgLen_def)
  from oversize_message_refused [OF big_marshal this, of demo_writer] obtain w' where
    "SendMsg DemoMsgCodec demo_writer big_msg = (None, w')"
    "\<forall>(r :: reader) rest. concat (rd_chunks r) = wr_out w' @ rest \<longrightarrow>
       (\<exists>r'. RecvMsg DemoMsgCodec r = (Inl (Errorf ''message length is too large''), r'))"
    by (auto simp: demo_writer_def)
  then show ?thesis by simp
qed

section \<open>The store as a map of records\<close>

text \<open>The operations of a \<open>LocalStorage\<close> as values, and what the caller sees of each.\<close>

datatype ls_op =
    OpList string
  | OpGet string string
  | OpSet KeyData
  | OpDelete string string

datatype ls_out =
    OutList "KeyData set"
  | OutGet "KeyData option"
  | OutDone
  | OutErr

definition out_of :: "error option \<Rightarrow> ls_out" where
  "out_of e = (case e of None \<Rightarrow> OutDone | Some _ \<Rightarrow> OutErr)"

fun ls_exec :: "'s LocalStorage \<Rightarrow> ls_op \<Rightarrow> 's \<Rightarrow> ls_out \<times> 's" where
  "ls_exec ls (OpList k) s = (case ls_GetKeyDataListByKeyId ls s k of
     Inl _ \<Rightarrow> OutErr | Inr ds \<Rightarrow> OutList (set ds), s)"
| "ls_exec ls (OpGet k sid) s = (case ls_GetKeyDataByKeyIdAndKeySessionId ls s k sid of
     Inl _ \<Rightarrow> OutErr | Inr d \<Rightarrow> OutGet d, s)"
| "ls_exec ls (OpSet d) s = apfst out_of (ls_SetKeyData ls s d)"
| "ls_exec ls (OpDelete k sid) s = apfst out_of (ls_DeleteKeyData ls s k sid)"

fun ls_run :: "'s LocalStorage \<Rightarrow> ls_op list \<Rightarrow> 's \<Rightarrow> ls_out list \<times> 's" where
  "ls_run ls [] s = ([], s)"
| "ls_run ls (x # xs) s =
     (let (out, s) = ls_exec ls x s; (outs, s) = ls_run ls xs s in (out # outs, s))"

text \<open>The specification: the store is a map from row names to records.\<close>

type_synonym row_map = "string \<Rightarrow> KeyData option"

fun map_exec :: "(KeyData \<Rightarrow> bool) \<Rightarrow> ls_op \<Rightarrow> row_map \<Rightarrow> ls_out \<times> row_map" where
  "map_exec ok (OpList k) m = (OutList {d \<in> ran m. prefix (row_key k []) (row_of d)}, m)"
| "map_exec ok (OpGet k sid) m = (OutGet (m (row_key k sid)), m)"
| "map_exec ok (OpSet d) m = (if ok d then (OutDone, m(row_of d \<mapsto> d)) else (OutErr, m))"
| "map_exec ok (OpDelete k sid) m = (OutDone, m(row_key k sid := None))"

fun map_run :: "(KeyData \<Rightarrow> bool) \<Rightarrow> ls_op list \<Rightarrow> row_map \<Rightarrow> ls_out list \<times> row_map" where
  "map_run ok [] m = ([], m)"
| "map_run ok (x # xs) m =
     (let (out, m) = map_exec ok x m; (outs, m) = map_run ok xs m in (out # outs, m))"

context local_storage
begin

lemma exec_refines:
  assumes inv: "ls_inv s"
  shows "\<exists>s'. ls_exec ls x s = (fst (map_exec storable x (rows s)), s') \<and> ls_inv s' \<and>
    rows s' = snd (map_exec storable x (rows s))"
proof (cases x)
  case (OpList k)
  from get_list [OF inv, of k] obtain ds where ds: "ls_GetKeyDataListByKeyId ls s k = Inr ds"
    "set ds = {d. rows s (row_of d) = Some d \<and> prefix (row_key k []) (row_of d)}" by auto
  have "set ds = {d \<in> ran (rows s). prefix (row_key k []) (row_of d)}"
    using rows_row [OF inv] by (auto simp: ds(2) ran_def)
  with OpList ds(1) inv show ?thesis by simp
next
  case (OpGet k sid)
  with get_one [OF inv] inv show ?thesis by simp
next
  case (OpSet d)
  with set_ok [OF inv, of d] set_fail [OF inv, of d] inv show ?thesis
    by (cases "storable d") (auto simp: out_of_def)
next
  case (OpDelete k sid)
  with delete_ok [OF inv, of k sid] show ?thesis by (auto simp: out_of_def)
qed

lemma run_refines:
  "ls_inv s \<Longrightarrow> \<exists>s'. ls_run ls xs s = (fst (map_run storable xs (rows s)), s') \<and> ls_inv s' \<and>
     rows s' = snd (map_run storable xs (rows s))"
proof (induction xs arbitrary: s)
  case (Cons x xs)
  obtain out m where xm: "map_exec storable x (rows s) = (out, m)" by fastforce
  from exec_refines [OF Cons.prems, of x] xm obtain s1 where
    s1: "ls_exec ls x s = (out, s1)" "ls_inv s1" "rows s1 = m" by auto
  from Cons.IH [OF s1(2)] obtain s2 where "ls_run ls xs s1 = (fst (map_run storable xs m), s2)"
    "ls_inv s2" "rows s2 = snd (map_run storable xs m)" by (auto simp: s1(3))
  with xm s1(1) show ?case by (auto simp: split_beta)
qed simp

end

text \<open>
  C12. The store refines a map. On a database whose rows decode to the records they are filed
  under, every sequence of the four operations of the LevelDB store gives the results of the same
  sequence on a map from row names to records, and ends in a database that stands for the map's
  final value: lists as sets of records, an error exactly for a record that cannot be serialised.
\<close>

theorem leveldb_refines_map:
  assumes "leveldb D db_inv C" and "leveldb.lv_inv D db_inv C s"
  shows "apsnd (leveldb.lv_rows D C) (ls_run (LevelDBStorage D C) xs s) =
    map_run (leveldb.lv_storable C) xs (leveldb.lv_rows D C s)"
  using local_storage.run_refines [OF leveldb.lv_storage [OF assms(1)] assms(2), of xs]
  by (auto simp: prod_eq_iff)

theorem leveldb_refines_map_witness:
  "apsnd demo.lv_rows (ls_run (LevelDBStorage MemDB DemoCodec)
      [OpSet (pendingKeyData ''k'' ''s'' 1 [] None), OpGet ''k'' ''s'', OpDelete ''k'' ''s'',
       OpGet ''k'' ''s''] []) =
   ([OutDone, OutGet (Some (pendingKeyData ''k'' ''s'' 1 [] None)), OutDone, OutGet None], Map.empty)"
proof -
  have "demo.lv_storable (pendingKeyData ''k'' ''s'' 1 [] None)"
    by (intro demo_storable) (simp add: pendingKeyData_def ascii_def)
  then show ?thesis
    by (subst leveldb_refines_map [OF demo_leveldb demo_empty])
      (simp add: demo_empty_rows pendingKeyData_def row_key_def)
qed

section \<open>Messages of ASCII text\<close>

text \<open>
  C28. On ASCII the comparison of the validator is equality up to the case of letters. For a
  request that is registered under the key id, not yet signed, and whose registered and requested
  messages are ASCII, the validator accepts exactly when the two agree letter by letter in lower
  case, whatever Unicode's tables hold.
\<close>

theorem keysign_message_ascii:
  assumes "getSignInfo H url now i = Inr info" and "sg_MpcID (si_Result info) = k"
    and "sg_Signature (si_Result info) = []"
    and "\<forall>b \<in> set (sg_SignMsg (si_Result info)). unat b < 128" and "\<forall>b \<in> set m. unat b < 128"
  shows "v_KeySignValidate (New U H url) now i k m = Inr [] \<longleftrightarrow>
    map (\<lambda>b. ascii_lower (unat b)) (sg_SignMsg (si_Result info)) = map (\<lambda>b. ascii_lower (unat b)) m"
  using assms(1-3) EqualFold_ascii [OF assms(4,5), of U]
  by (simp add: New_def KeySignValidate_def)

definition AsciiHttp :: "string Http" where
  "AsciiHttp = DemoHttp\<lparr>h_json_SignInfo := (\<lambda>_. Inr \<lparr>si_Height = ''1'',
     si_Result = demo_sign\<lparr>sg_SignMsg := [72, 105]\<rparr>\<rparr>)\<rparr>"

theorem keysign_message_ascii_witness:
  "v_KeySignValidate (New DemoUnicode AsciiHttp ''u'') 0 ''i'' ''k'' [104, 73] = Inr [] \<and>
   v_KeySignValidate (New DemoUnicode AsciiHttp ''u'') 0 ''i'' ''k'' [104, 74] \<noteq> Inr []"
proof -
  have "getSignInfo AsciiHttp ''u'' 0 ''i'' = Inr \<lparr>si_Height = ''1'',
      si_Result = demo_sign\<lparr>sg_SignMsg := [72, 105]\<rparr>\<rparr>"
    by (simp add: getSignInfo_def rest_get_def AsciiHttp_def DemoHttp_def)
  from keysign_message_ascii [OF this, of "''k''" _ DemoUnicode] show ?thesis
    by (simp add: demo_sign_def ascii_lower_def)
qed

end
