(* ===== verification/KeyGenCoord.thy ===== *)
theory KeyGenCoord
  imports TssLib
begin

text \<open>
  The coordinator's side of key generation: \<open>Manager.KeyGen\<close> of \<open>tss/tss_keygen.go\<close> with its
  goroutines. One goroutine per announced party opens a stream, sends the prepare message and
  reads the reply; the main goroutine collects ready streams, then one goroutine per ready stream
  sends the start message and reads the result. All channels are unbuffered, so a hand-over is one
  step of the sender and the main goroutine together. A step is a function of the action taken;
  the order of the actions is the scheduler's and the network's choice.
\<close>

section \<open>State\<close>

text \<open>
  Where a first-phase goroutine is: before \<open>NewStream\<close>, before sending, before reading the reply,
  offering its ready stream, offering an error (with a stream open or not), gone.
\<close>

datatype prep_pc = PNew | POpened | PSent | PReady | PErr bool error | PDone

text \<open>A second-phase goroutine: before sending, before reading, offering, or gone.\<close>

datatype fin_pc =
  FNew | FSent | FErr error | FMsg KeyGenFinishMsg | FDelivered KeyGenFinishMsg | FGone

datatype kg_phase = WaitReady | WaitFinish | KGReturned "error + KeyGenResponse"

text \<open>
  \<open>kc_map\<close> is \<open>readyP2PStreamMap\<close>; a stream is named by the index of the goroutine that opened
  it. \<open>kc_closed\<close> lists closed streams, \<open>kc_out\<close> what was sent on which stream.
\<close>

record kg_state =
  kc_phase :: kg_phase
  kc_prep :: "prep_pc list"
  kc_map :: "(string \<times> nat) list"
  kc_fin :: "(nat \<times> fin_pc) list"
  kc_cnt :: int32
  kc_closed :: "nat list"
  kc_out :: "(nat \<times> TssP2PMsg) list"

text \<open>
  What a call fixes: the request, its session id and deadline, the id a stream to a party reports
  (\<open>RemotePartyId\<close>), and how \<open>%s\<close> prints a message type.
\<close>

record kg_call =
  kx_request :: KeyGenRequest
  kx_sessionId :: string
  kx_deadline :: Timestamp
  kx_rid :: "string \<Rightarrow> string"
  kx_type_text :: "MsgType option \<Rightarrow> string"

text \<open>The deadline of the context, or ten minutes from now.\<close>

definition choose_deadline :: "Timestamp option \<Rightarrow> Timestamp \<Rightarrow> Timestamp" where
  "choose_deadline ctxDeadline now = (case ctxDeadline of
     Some d \<Rightarrow> d
   | None \<Rightarrow> now\<lparr>ts_Seconds := ts_Seconds now + 600\<rparr>)"

definition kg_parties :: "kg_call \<Rightarrow> PartyID list" where
  "kg_parties x = KeyGenRequest_GetAllPartyId (Some (kx_request x))"

text \<open>The start of the call: the session id may fail, otherwise the goroutines are spawned.\<close>

definition kg_init :: "error + string \<Rightarrow> kg_call \<Rightarrow> kg_state" where
  "kg_init newUUID x =
     \<lparr>kc_phase = (case newUUID of Inl err \<Rightarrow> KGReturned (Inl err) | Inr _ \<Rightarrow> WaitReady),
      kc_prep = (case newUUID of Inl err \<Rightarrow> [] | Inr _ \<Rightarrow> map (\<lambda>_. PNew) (kg_parties x)),
      kc_map = [], kc_fin = [], kc_cnt = 0, kc_closed = [], kc_out = []\<rparr>"

section \<open>Messages\<close>

definition kg_prepare_msg :: "kg_call \<Rightarrow> TssP2PMsg" where
  "kg_prepare_msg x = p2p_msg (TssP2PMsg_KeyGenPrepareMsg
     \<lparr>kgp_SessionId = kx_sessionId x, kgp_KeyId = kgq_KeyId (kx_request x),
      kgp_Threshold = kgq_Threshold (kx_request x), kgp_AllPartyId = kgq_AllPartyId (kx_request x),
      kgp_Deadline = Some (kx_deadline x)\<rparr>)"

definition kg_invalid :: "kg_call \<Rightarrow> TssP2PMsg \<Rightarrow> error" where
  "kg_invalid x m = Errorf (''invalid msg type: '' @ kx_type_text x (GetMsgType (Some m)))"

text \<open>What the reply to the prepare message means for its goroutine.\<close>

fun kg_reply :: "kg_call \<Rightarrow> error + TssP2PMsg \<Rightarrow> prep_pc" where
  "kg_reply x (Inl err) = PErr True err"
| "kg_reply x (Inr p2pMsg) = (case tp_MsgType p2pMsg of
     Some (TssP2PMsg_KeyGenReadyMsg _) \<Rightarrow> PReady
   | Some (TssP2PMsg_KeyGenFinishMsg f) \<Rightarrow> PErr True (Errorf (kgf_FailureReason f))
   | _ \<Rightarrow> PErr True (kg_invalid x p2pMsg))"

fun kg_result :: "kg_call \<Rightarrow> error + TssP2PMsg \<Rightarrow> fin_pc" where
  "kg_result x (Inl err) = FErr err"
| "kg_result x (Inr p2pMsg) = (case tp_MsgType p2pMsg of
     Some (TssP2PMsg_KeyGenFinishMsg f) \<Rightarrow> FMsg f
   | _ \<Rightarrow> FErr (kg_invalid x p2pMsg))"

section \<open>Steps\<close>

text \<open>
  The actions: the context ends; goroutine \<open>i\<close> opens its stream, sends, reads; the main goroutine
  takes an error, a ready stream or a result.
\<close>

datatype kg_action =
    KGCtxDone error
  | KGOpen nat "error option"
  | KGSend nat "error option"
  | KGRecv nat "error + TssP2PMsg"
  | KGTakeErr nat
  | KGTakeReady nat
  | KGFinSend nat "error option"
  | KGFinRecv nat "error + TssP2PMsg"
  | KGTakeFinErr nat
  | KGTakeFinish nat

text \<open>Returning runs the deferred close of the streams in the map.\<close>

definition kg_return :: "error + KeyGenResponse \<Rightarrow> kg_state \<Rightarrow> kg_state" where
  "kg_return res s =
     s\<lparr>kc_phase := KGReturned res, kc_closed := kc_closed s @ map snd (kc_map s)\<rparr>"

text \<open>A new entry of the map, and the second phase when the map is complete.\<close>

definition kg_add_ready :: "kg_call \<Rightarrow> nat \<Rightarrow> kg_state \<Rightarrow> kg_state" where
  "kg_add_ready x i s =
     (let m = AList.update (kx_rid x (pid_Id (kg_parties x ! i))) i (kc_map s);
          s = s\<lparr>kc_prep := (kc_prep s)[i := PDone], kc_map := m\<rparr>
      in if length m = length (kg_parties x)
         then s\<lparr>kc_phase := WaitFinish, kc_fin := map (\<lambda>(_, k). (k, FNew)) m\<rparr>
         else s)"

definition kg_take_finish :: "kg_call \<Rightarrow> nat \<Rightarrow> KeyGenFinishMsg \<Rightarrow> kg_state \<Rightarrow> kg_state" where
  "kg_take_finish x j f s =
     (let s = s\<lparr>kc_fin := (kc_fin s)[j := (fst (kc_fin s ! j), FDelivered f)]\<rparr> in
      if \<not> kgf_IsSuccess f then kg_return (Inl (Errorf (kgf_FailureReason f))) s
      else
        (let s = s\<lparr>kc_cnt := kc_cnt s + 1\<rparr> in
         if kc_cnt s = of_nat (length (kg_parties x))
         then kg_return (Inr \<lparr>kgr_SessionId = kx_sessionId x, kgr_PublicKey = kgf_PublicKey f\<rparr>) s
         else s))"

text \<open>A step, if the action is possible in the state.\<close>

fun kg_act :: "kg_call \<Rightarrow> kg_action \<Rightarrow> kg_state \<Rightarrow> kg_state option" where
  "kg_act x (KGCtxDone err) s =
     (case kc_phase s of KGReturned _ \<Rightarrow> None | _ \<Rightarrow> Some (kg_return (Inl err) s))"
| "kg_act x (KGOpen i res) s =
     (if i < length (kc_prep s) \<and> kc_prep s ! i = PNew
      then Some (s\<lparr>kc_prep := (kc_prep s)[i := (case res of None \<Rightarrow> POpened | Some err \<Rightarrow> PErr False err)]\<rparr>)
      else None)"
| "kg_act x (KGSend i res) s =
     (if i < length (kc_prep s) \<and> kc_prep s ! i = POpened
      then Some (s\<lparr>kc_prep := (kc_prep s)[i := (case res of None \<Rightarrow> PSent | Some err \<Rightarrow> PErr True err)],
                   kc_out := kc_out s @ [(i, kg_prepare_msg x)]\<rparr>)
      else None)"
| "kg_act x (KGRecv i res) s =
     (if i < length (kc_prep s) \<and> kc_prep s ! i = PSent
      then Some (s\<lparr>kc_prep := (kc_prep s)[i := kg_reply x res]\<rparr>)
      else None)"
| "kg_act x (KGTakeErr i) s =
     (if i < length (kc_prep s) then
        (case (kc_phase s, kc_prep s ! i) of
           (KGReturned _, _) \<Rightarrow> None
         | (_, PErr opened err) \<Rightarrow>
             Some (kg_return (Inl err) (s\<lparr>kc_prep := (kc_prep s)[i := PDone],
                kc_closed := kc_closed s @ (if opened then [i] else [])\<rparr>))
         | _ \<Rightarrow> None)
      else None)"
| "kg_act x (KGTakeReady i) s =
     (if i < length (kc_prep s) \<and> kc_phase s = WaitReady \<and> kc_prep s ! i = PReady
      then Some (kg_add_ready x i s) else None)"
| "kg_act x (KGFinSend j res) s =
     (if j < length (kc_fin s) \<and> snd (kc_fin s ! j) = FNew
      then Some (s\<lparr>kc_fin := (kc_fin s)[j := (fst (kc_fin s ! j), case res of None \<Rightarrow> FSent | Some err \<Rightarrow> FErr err)],
                   kc_out := kc_out s @ [(fst (kc_fin s ! j), p2p_msg (TssP2PMsg_KeyGenStartMsg KeyGenStartMsg))]\<rparr>)
      else None)"
| "kg_act x (KGFinRecv j res) s =
     (if j < length (kc_fin s) \<and> snd (kc_fin s ! j) = FSent
      then Some (s\<lparr>kc_fin := (kc_fin s)[j := (fst (kc_fin s ! j), kg_result x res)]\<rparr>)
      else None)"
| "kg_act x (KGTakeFinErr j) s =
     (if j < length (kc_fin s) \<and> kc_phase s = WaitFinish then
        (case snd (kc_fin s ! j) of
           FErr err \<Rightarrow> Some (kg_return (Inl err) (s\<lparr>kc_fin := (kc_fin s)[j := (fst (kc_fin s ! j), FGone)]\<rparr>))
         | _ \<Rightarrow> None)
      else None)"
| "kg_act x (KGTakeFinish j) s =
     (if j < length (kc_fin s) \<and> kc_phase s = WaitFinish then
        (case snd (kc_fin s ! j) of FMsg f \<Rightarrow> Some (kg_take_finish x j f s) | _ \<Rightarrow> None)
      else None)"

fun kg_exec :: "kg_call \<Rightarrow> kg_action list \<Rightarrow> kg_state \<Rightarrow> kg_state option" where
  "kg_exec x [] s = Some s"
| "kg_exec x (a # as) s = (case kg_act x a s of None \<Rightarrow> None | Some s' \<Rightarrow> kg_exec x as s')"

inductive kg_reach :: "kg_call \<Rightarrow> kg_state \<Rightarrow> bool" for x where
  kg_start: "kg_reach x (kg_init (Inr (kx_sessionId x)) x)"
| kg_step: "kg_reach x s \<Longrightarrow> kg_act x a s = Some s' \<Longrightarrow> kg_reach x s'"

inductive_cases kg_reachE: "kg_reach x s"

lemma kg_exec_reach: "kg_exec x as s = Some s' \<Longrightarrow> kg_reach x s \<Longrightarrow> kg_reach x s'"
  by (induction as arbitrary: s) (auto split: option.splits intro: kg_step)

lemma kg_exec_append:
  "kg_exec x (as @ bs) s = (case kg_exec x as s of None \<Rightarrow> None | Some s' \<Rightarrow> kg_exec x bs s')"
  by (induction as arbitrary: s) (auto split: option.splits)

section \<open>The kinds of steps\<close>

text \<open>How a goroutine of either phase moves on its own.\<close>

fun prep_next :: "prep_pc \<Rightarrow> prep_pc \<Rightarrow> bool" where
  "prep_next PNew pc = (pc = POpened \<or> (\<exists>err. pc = PErr False err))"
| "prep_next POpened pc = (pc = PSent \<or> (\<exists>err. pc = PErr True err))"
| "prep_next PSent pc = (pc = PReady \<or> (\<exists>err. pc = PErr True err))"
| "prep_next _ pc = False"

fun fin_next :: "fin_pc \<Rightarrow> fin_pc \<Rightarrow> bool" where
  "fin_next FNew pc = (pc = FSent \<or> (\<exists>err. pc = FErr err))"
| "fin_next FSent pc = ((\<exists>err. pc = FErr err) \<or> (\<exists>f. pc = FMsg f))"
| "fin_next _ pc = False"

lemma kg_reply_next: "prep_next PSent (kg_reply x res)"
  by (cases res) (auto split: option.splits MsgType.splits)

lemma kg_result_next: "fin_next FSent (kg_result x res)"
  by (cases res) (auto split: option.splits MsgType.splits)

text \<open>
  Every step moves one goroutine on its own, or is the main goroutine taking something: the end of
  the context, an error, a ready stream or a result.
\<close>

lemma kg_act_cases:
  assumes "kg_act x a s = Some s'"
  obtains (cancel) err where "\<forall>r. kc_phase s \<noteq> KGReturned r" "s' = kg_return (Inl err) s"
  | (prep) i pc out where "i < length (kc_prep s)" "prep_next (kc_prep s ! i) pc"
      "out = [] \<or> out = [(i, kg_prepare_msg x)]"
      "s' = s\<lparr>kc_prep := (kc_prep s)[i := pc], kc_out := kc_out s @ out\<rparr>"
  | (err) i opened err where "i < length (kc_prep s)" "\<forall>r. kc_phase s \<noteq> KGReturned r"
      "kc_prep s ! i = PErr opened err"
      "s' = kg_return (Inl err) (s\<lparr>kc_prep := (kc_prep s)[i := PDone],
         kc_closed := kc_closed s @ (if opened then [i] else [])\<rparr>)"
  | (ready) i where "i < length (kc_prep s)" "kc_phase s = WaitReady" "kc_prep s ! i = PReady"
      "s' = kg_add_ready x i s"
  | (fin) j pc out where "j < length (kc_fin s)" "fin_next (snd (kc_fin s ! j)) pc"
      "s' = s\<lparr>kc_fin := (kc_fin s)[j := (fst (kc_fin s ! j), pc)], kc_out := kc_out s @ out\<rparr>"
  | (fin_err) j err where "j < length (kc_fin s)" "kc_phase s = WaitFinish" "snd (kc_fin s ! j) = FErr err"
      "s' = kg_return (Inl err) (s\<lparr>kc_fin := (kc_fin s)[j := (fst (kc_fin s ! j), FGone)]\<rparr>)"
  | (finish) j f where "j < length (kc_fin s)" "kc_phase s = WaitFinish" "snd (kc_fin s ! j) = FMsg f"
      "s' = kg_take_finish x j f s"
proof (cases a)
  case (KGCtxDone err)
  with assms show ?thesis by (intro cancel) (auto split: kg_phase.splits)
next
  case (KGOpen i res)
  with assms show ?thesis
    by (intro prep [of i "case res of None \<Rightarrow> POpened | Some err \<Rightarrow> PErr False err" "[]"])
      (auto split: if_splits option.splits)
next
  case (KGSend i res)
  with assms show ?thesis
    by (intro prep [of i "case res of None \<Rightarrow> PSent | Some err \<Rightarrow> PErr True err" "[(i, kg_prepare_msg x)]"])
      (auto split: if_splits option.splits)
next
  case (KGRecv i res)
  with assms kg_reply_next show ?thesis by (intro prep [of i "kg_reply x res" "[]"]) (auto split: if_splits)
next
  case (KGFinSend j res)
  with assms show ?thesis
    by (intro fin [of j "case res of None \<Rightarrow> FSent | Some err \<Rightarrow> FErr err"
          "[(fst (kc_fin s ! j), p2p_msg (TssP2PMsg_KeyGenStartMsg KeyGenStartMsg))]"])
      (auto split: if_splits option.splits)
next
  case (KGFinRecv j res)
  with assms kg_result_next show ?thesis by (intro fin [of j "kg_result x res" "[]"]) (auto split: if_splits)
next
  case (KGTakeErr i)
  with assms show ?thesis by (auto intro: err split: if_splits kg_phase.splits prep_pc.splits)
next
  case (KGTakeReady i)
  with assms show ?thesis by (auto intro: ready split: if_splits)
next
  case (KGTakeFinErr j)
  with assms show ?thesis by (auto intro: fin_err split: if_splits fin_pc.splits)
next
  case (KGTakeFinish j)
  with assms show ?thesis by (auto intro: finish split: if_splits fin_pc.splits)
qed

section \<open>The invariant\<close>

fun delivered :: "fin_pc \<Rightarrow> bool" where
  "delivered (FDelivered f) = True"
| "delivered _ = False"

fun good :: "fin_pc \<Rightarrow> bool" where
  "good (FDelivered f) = kgf_IsSuccess f"
| "good _ = False"

definition n_delivered :: "kg_state \<Rightarrow> nat" where
  "n_delivered s = length (filter (delivered \<circ> snd) (kc_fin s))"

definition kg_ids :: "kg_call \<Rightarrow> string list" where
  "kg_ids x = map (\<lambda>p. kx_rid x (pid_Id p)) (kg_parties x)"

definition map_ok :: "kg_call \<Rightarrow> kg_state \<Rightarrow> bool" where
  "map_ok x s \<longleftrightarrow> length (kc_prep s) = length (kg_parties x) \<and> distinct (map fst (kc_map s)) \<and>
     (\<forall>(k, i) \<in> set (kc_map s). i < length (kg_parties x) \<and> k = kg_ids x ! i \<and> kc_prep s ! i = PDone)"

definition fin_good :: "kg_state \<Rightarrow> bool" where
  "fin_good s \<longleftrightarrow> (\<forall>pc \<in> snd ` set (kc_fin s). delivered pc \<longrightarrow> good pc)"

definition reports_key :: "kg_state \<Rightarrow> bytes \<Rightarrow> bool" where
  "reports_key s k \<longleftrightarrow> (\<exists>f. FDelivered f \<in> snd ` set (kc_fin s) \<and> kgf_PublicKey f = k)"

definition phase_ok :: "kg_call \<Rightarrow> kg_state \<Rightarrow> bool" where
  "phase_ok x s \<longleftrightarrow> (case kc_phase s of
     WaitReady \<Rightarrow> kc_fin s = [] \<and> kc_cnt s = 0 \<and> (kc_map s \<noteq> [] \<longrightarrow> length (kc_map s) \<noteq> length (kg_parties x))
   | WaitFinish \<Rightarrow> kc_map s \<noteq> [] \<and> length (kc_map s) = length (kg_parties x) \<and>
       map fst (kc_fin s) = map snd (kc_map s) \<and> kc_cnt s = of_nat (n_delivered s) \<and>
       fin_good s
   | KGReturned (Inl err) \<Rightarrow> True
   | KGReturned (Inr resp) \<Rightarrow> kc_map s \<noteq> [] \<and> length (kc_map s) = length (kg_parties x) \<and>
       map fst (kc_fin s) = map snd (kc_map s) \<and>
       (of_nat (n_delivered s) :: int32) = of_nat (length (kg_parties x)) \<and>
       fin_good s \<and>
       kgr_SessionId resp = kx_sessionId x \<and>
       reports_key s (kgr_PublicKey resp))"

lemma n_delivered_update:
  assumes "j < length (kc_fin s)" and "\<not> delivered (snd (kc_fin s ! j))"
  shows "length (filter (delivered \<circ> snd) ((kc_fin s)[j := (i, pc)])) =
    n_delivered s + (if delivered pc then 1 else 0)"
  using length_filter_update [OF assms(1), of "delivered \<circ> snd" "(i, pc)"] assms(2)
  by (simp add: n_delivered_def)

text \<open>A second-phase goroutine that moves without delivering keeps the phase's invariant.\<close>

lemma phase_ok_fin:
  assumes "phase_ok x s" and "j < length (kc_fin s)" and "\<not> delivered (snd (kc_fin s ! j))"
    and "\<not> delivered pc" and "kc_phase s' = kc_phase s" and "kc_map s' = kc_map s" and "kc_cnt s' = kc_cnt s"
    and "kc_fin s' = (kc_fin s)[j := (fst (kc_fin s ! j), pc)]"
  shows "phase_ok x s'"
proof -
  have n: "n_delivered s' = n_delivered s"
    using n_delivered_update [OF assms(2,3), of "fst (kc_fin s ! j)" pc] assms(4,8) by (simp add: n_delivered_def)
  have fst: "map fst (kc_fin s') = map fst (kc_fin s)"
    using assms(2,8) by (simp add: map_update list_update_same_conv)
  have good: "fin_good s'" if "fin_good s"
    using that assms(4,8) set_update_subset_insert [of "kc_fin s" j "(fst (kc_fin s ! j), pc)"]
    unfolding fin_good_def by fastforce
  have keep: "reports_key s' k" if "reports_key s k" for k
  proof -
    from that obtain l f where l: "l < length (kc_fin s)" "snd (kc_fin s ! l) = FDelivered f" "kgf_PublicKey f = k"
      by (auto simp: reports_key_def in_set_conv_nth)
    with assms(3) have "l \<noteq> j" by auto
    with l assms(8) have "l < length (kc_fin s')" "snd (kc_fin s' ! l) = FDelivered f" by simp_all
    then have "FDelivered f \<in> snd ` set (kc_fin s')" by (metis image_eqI nth_mem)
    with l(3) show ?thesis by (auto simp: reports_key_def)
  qed
  show ?thesis
    using assms(1,2) n fst good keep unfolding phase_ok_def assms(5-7)
    by (cases "kc_phase s") (auto split: sum.splits)
qed

lemma map_ok_prep:
  assumes "map_ok x s" and "kc_prep s' = (kc_prep s)[i := pc]" and "pc = PDone \<or> kc_prep s ! i \<noteq> PDone"
    and "kc_map s' = kc_map s"
  shows "map_ok x s'"
proof -
  have "j < length (kg_parties x) \<and> k = kg_ids x ! j \<and> (kc_prep s)[i := pc] ! j = PDone"
    if "(k, j) \<in> set (kc_map s)" for k j
  proof -
    from that assms(1) have "j < length (kc_prep s)" "j < length (kg_parties x)" "k = kg_ids x ! j"
      "kc_prep s ! j = PDone"
      by (auto simp: map_ok_def)
    with assms(3) show ?thesis by (cases "i = j") auto
  qed
  with assms(1,2,4) show ?thesis by (auto simp: map_ok_def)
qed

lemma phase_ok_same:
  "phase_ok x s \<Longrightarrow> kc_phase s' = kc_phase s \<Longrightarrow> kc_map s' = kc_map s \<Longrightarrow> kc_fin s' = kc_fin s \<Longrightarrow>
     kc_cnt s' = kc_cnt s \<Longrightarrow> phase_ok x s'"
  by (cases "kc_phase s")
    (auto simp: phase_ok_def n_delivered_def fin_good_def reports_key_def split: sum.splits)

lemma phase_ok_error: "kc_phase s = KGReturned (Inl err) \<Longrightarrow> phase_ok x s"
  by (simp add: phase_ok_def)

lemma kg_return_simps [simp]:
  "kc_phase (kg_return r s) = KGReturned r" "kc_prep (kg_return r s) = kc_prep s"
  "kc_map (kg_return r s) = kc_map s" "kc_fin (kg_return r s) = kc_fin s" "kc_cnt (kg_return r s) = kc_cnt s"
  by (simp_all add: kg_return_def)

lemma map_ok_add:
  assumes "map_ok x s" and "i < length (kc_prep s)"
  shows "map_ok x (kg_add_ready x i s)"
proof -
  let ?k = "kx_rid x (pid_Id (kg_parties x ! i))"
  from assms have i: "i < length (kg_parties x)" "?k = kg_ids x ! i"
    by (simp_all add: map_ok_def kg_ids_def)
  have sub: "set (AList.update ?k i (kc_map s)) \<subseteq> insert (?k, i) (set (kc_map s))"
    by (rule set_update_sub)
  have "distinct (map fst (AList.update ?k i (kc_map s)))"
    using assms(1) by (simp add: map_ok_def distinct_update)
  moreover have "j < length (kg_parties x) \<and> k = kg_ids x ! j \<and> (kc_prep s)[i := PDone] ! j = PDone"
    if "(k, j) \<in> set (AList.update ?k i (kc_map s))" for k j
    using that sub assms i unfolding map_ok_def by (fastforce simp: nth_list_update)
  ultimately show ?thesis
    using assms(1) by (auto simp: map_ok_def kg_add_ready_def Let_def)
qed

lemma phase_ok_add:
  assumes "phase_ok x s" and "kc_phase s = WaitReady"
  shows "phase_ok x (kg_add_ready x i s)"
proof -
  let ?m = "AList.update (kx_rid x (pid_Id (kg_parties x ! i))) i (kc_map s)"
  show ?thesis
  proof (cases "length ?m = length (kg_parties x)")
    case False
    with assms show ?thesis by (simp add: phase_ok_def kg_add_ready_def Let_def)
  next
    case True
    then have "kg_parties x \<noteq> []" by auto
    let ?s = "kg_add_ready x i s"
    have fin: "kc_fin ?s = map (\<lambda>(_, k). (k, FNew)) ?m" and ph: "kc_phase ?s = WaitFinish"
      and mp: "kc_map ?s = ?m" and cnt: "kc_cnt ?s = 0"
      using True assms by (simp_all add: kg_add_ready_def Let_def phase_ok_def)
    have n0: "n_delivered ?s = 0"
      unfolding n_delivered_def fin by (auto simp: filter_empty_conv)
    have "fin_good ?s" unfolding fin_good_def fin by auto
    moreover have "map fst (kc_fin ?s) = map snd ?m" unfolding fin by (simp add: comp_def case_prod_beta)
    ultimately show ?thesis
      unfolding phase_ok_def ph mp n0 cnt using True
      by simp
  qed
qed

lemma map_ok_same: "map_ok x s \<Longrightarrow> kc_prep s' = kc_prep s \<Longrightarrow> kc_map s' = kc_map s \<Longrightarrow> map_ok x s'"
  by (simp add: map_ok_def)

lemma phase_ok_finish:
  assumes "phase_ok x s" and "kc_phase s = WaitFinish" and "j < length (kc_fin s)"
    and "snd (kc_fin s ! j) = FMsg f"
  shows "phase_ok x (kg_take_finish x j f s)"
proof (cases "kgf_IsSuccess f")
  case False
  then show ?thesis by (intro phase_ok_error [of _ "Errorf (kgf_FailureReason f)"]) (simp add: kg_take_finish_def)
next
  case True
  let ?i = "fst (kc_fin s ! j)"
  let ?fin = "(kc_fin s)[j := (?i, FDelivered f)]"
  let ?s = "kg_take_finish x j f s"
  have fin: "kc_fin ?s = ?fin" and mp: "kc_map ?s = kc_map s" and cnt: "kc_cnt ?s = kc_cnt s + 1"
    using True by (simp_all add: kg_take_finish_def Let_def)
  have "\<not> delivered (snd (kc_fin s ! j))" using assms(4) by simp
  from n_delivered_update [OF assms(3) this, of ?i "FDelivered f"]
  have n: "n_delivered ?s = n_delivered s + 1"
    unfolding n_delivered_def [of ?s] fin by simp
  from assms(1,2) have old: "kc_map s \<noteq> []" "length (kc_map s) = length (kg_parties x)"
    "map fst (kc_fin s) = map snd (kc_map s)" "kc_cnt s = of_nat (n_delivered s)" "fin_good s"
    by (simp_all add: phase_ok_def)
  have "map fst ?fin = map fst (kc_fin s)"
    using assms(3) by (simp add: map_update list_update_same_conv)
  with old fin mp have fst: "map fst (kc_fin ?s) = map snd (kc_map ?s)" by simp
  have good: "fin_good ?s"
    using old(5) True set_update_subset_insert [of "kc_fin s" j "(?i, FDelivered f)"]
    unfolding fin_good_def fin by fastforce
  have "(?i, FDelivered f) \<in> set ?fin" using assms(3) by (metis length_list_update nth_list_update_eq nth_mem)
  then have rep: "reports_key ?s (kgf_PublicKey f)"
    unfolding reports_key_def fin by force
  show ?thesis
  proof (cases "kc_cnt s + 1 = (of_nat (length (kg_parties x)) :: int32)")
    case eq: True
    have "kc_phase ?s = KGReturned (Inr \<lparr>kgr_SessionId = kx_sessionId x, kgr_PublicKey = kgf_PublicKey f\<rparr>)"
      using True eq by (simp add: kg_take_finish_def Let_def)
    moreover have "(of_nat (n_delivered ?s) :: int32) = of_nat (length (kg_parties x))"
      using eq old(4) n by (simp add: add.commute)
    ultimately show ?thesis
      using old fst good rep mp by (simp add: phase_ok_def)
  next
    case False
    have "kc_phase ?s = WaitFinish"
      using True False assms(2) by (simp add: kg_take_finish_def Let_def)
    with old fst good mp cnt n show ?thesis by (simp add: phase_ok_def)
  qed
qed

lemma kg_inv_init: "map_ok x (kg_init (Inr sid) x) \<and> phase_ok x (kg_init (Inr sid) x)"
  by (simp add: kg_init_def map_ok_def phase_ok_def)

lemma prep_next_pcs: "prep_next a b \<Longrightarrow> a \<noteq> PDone \<and> b \<noteq> PDone"
  by (cases a) auto

lemma fin_next_pcs: "fin_next a b \<Longrightarrow> \<not> delivered a \<and> \<not> delivered b \<and> b \<noteq> FGone"
  by (cases a) auto

lemma kg_inv_act:
  assumes m: "map_ok x s" and p: "phase_ok x s" and a: "kg_act x a s = Some s'"
  shows "map_ok x s' \<and> phase_ok x s'"
  using a
proof (cases rule: kg_act_cases)
  case (cancel err)
  with m show ?thesis by (auto intro: map_ok_same phase_ok_error)
next
  case (prep i pc out)
  with prep_next_pcs [OF prep(2)] show ?thesis
    by (auto intro!: map_ok_prep [OF m, of _ i] intro: phase_ok_same [OF p])
next
  case (err i opened err)
  then show ?thesis by (auto intro!: map_ok_prep [OF m, of _ i] intro: phase_ok_error)
next
  case (ready i)
  with m p show ?thesis by (simp add: map_ok_add phase_ok_add)
next
  case (fin j pc out)
  from fin(3) have "map_ok x s'" by (intro map_ok_same [OF m]) simp_all
  moreover have "phase_ok x s'"
    by (rule phase_ok_fin [OF p fin(1)]) (use fin_next_pcs [OF fin(2)] fin(3) in auto)
  ultimately show ?thesis ..
next
  case (fin_err j err)
  with m show ?thesis by (auto intro: map_ok_same phase_ok_error)
next
  case (finish j f)
  have "kc_prep s' = kc_prep s" "kc_map s' = kc_map s"
    by (simp_all add: finish(4) kg_take_finish_def Let_def)
  with m phase_ok_finish [OF p finish(2,1,3)] finish(4) show ?thesis by (auto intro: map_ok_same)
qed

lemma kg_inv: "kg_reach x s \<Longrightarrow> map_ok x s \<and> phase_ok x s"
  by (induction rule: kg_reach.induct) (auto simp: kg_inv_init dest: kg_inv_act)

text \<open>A complete map covers every party, so the parties report distinct ids.\<close>

lemma complete_map_distinct:
  assumes "map_ok x s" and "length (kc_map s) = length (kg_parties x)"
  shows "distinct (kg_ids x)"
proof -
  have "fst ` set (kc_map s) \<subseteq> set (kg_ids x)"
    using assms(1) by (force simp: map_ok_def kg_ids_def)
  then have "card (fst ` set (kc_map s)) \<le> card (set (kg_ids x))"
    by (intro card_mono) auto
  moreover have "card (fst ` set (kc_map s)) = length (kc_map s)"
    using assms(1) distinct_card [of "map fst (kc_map s)"] by (simp add: map_ok_def)
  ultimately have "length (kg_ids x) \<le> card (set (kg_ids x))"
    using assms(2) by (simp add: kg_ids_def)
  then show ?thesis by (metis card_distinct card_length le_antisym)
qed

lemma all_delivered:
  assumes "phase_ok x s" and "kc_phase s = KGReturned (Inr resp)" and "length (kg_parties x) < 2 ^ 32"
  shows "\<forall>pc \<in> snd ` set (kc_fin s). good pc"
proof -
  from assms(1,2) have h: "length (kc_map s) = length (kg_parties x)"
    "map fst (kc_fin s) = map snd (kc_map s)"
    "(of_nat (n_delivered s) :: int32) = of_nat (length (kg_parties x))" "fin_good s"
    by (simp_all add: phase_ok_def)
  have len: "length (kc_fin s) = length (kg_parties x)"
    using h(1,2) by (metis length_map)
  have "n_delivered s \<le> length (kc_fin s)" by (simp add: n_delivered_def)
  with len assms(3) have "n_delivered s < 2 ^ 32" by simp
  moreover have "unat (of_nat k :: int32) = k" if "k < 2 ^ 32" for k
    using that by (simp add: unat_of_nat take_bit_nat_eq_self)
  ultimately have "n_delivered s = length (kc_fin s)"
    unfolding len using h(3) assms(3) by metis
  then have "filter (delivered \<circ> snd) (kc_fin s) = kc_fin s"
    unfolding n_delivered_def using length_filter_less [of _ "kc_fin s"] filter_True
    by (metis less_irrefl)
  then have "\<forall>pc \<in> snd ` set (kc_fin s). delivered pc"
    by (metis (no_types, lifting) comp_apply filter_id_conv image_iff)
  with h(4) show ?thesis unfolding fin_good_def by blast
qed

end
