(* ===== verification/KeyGenCoordProps.thy ===== *)
theory KeyGenCoordProps
  imports KeyGenCoord
begin

text \<open>
  The properties of the coordinator of key generation: success is unanimous, it can be reached,
  party lists with repetitions never get past the first phase, the parties' public keys are not
  compared, and what an early return leaves behind.
\<close>

section \<open>The second phase needs a complete map\<close>

abbreviation kg_start_msg :: TssP2PMsg where
  "kg_start_msg \<equiv> p2p_msg (TssP2PMsg_KeyGenStartMsg KeyGenStartMsg)"

definition fin_ok :: "kg_call \<Rightarrow> kg_state \<Rightarrow> bool" where
  "fin_ok x s \<longleftrightarrow> (kc_fin s \<noteq> [] \<longrightarrow> kc_map s \<noteq> [] \<and> length (kc_map s) = length (kg_parties x) \<and>
       kc_phase s \<noteq> WaitReady) \<and>
     (kg_start_msg \<in> snd ` set (kc_out s) \<longrightarrow> kc_fin s \<noteq> [])"

lemma fin_ok_act: "fin_ok x s \<Longrightarrow> kg_act x a s = Some s' \<Longrightarrow> fin_ok x s'"
proof (cases a)
  case (KGTakeReady i)
  assume "fin_ok x s" and "kg_act x a s = Some s'"
  with KGTakeReady show ?thesis
    by (auto simp: fin_ok_def kg_add_ready_def Let_def split: if_splits)
next
  case (KGTakeFinish j)
  assume "fin_ok x s" and "kg_act x a s = Some s'"
  with KGTakeFinish show ?thesis
    by (auto simp: fin_ok_def kg_take_finish_def kg_return_def Let_def split: if_splits fin_pc.splits)
qed (auto simp: fin_ok_def kg_return_def kg_prepare_msg_def split: if_splits kg_phase.splits prep_pc.splits
    fin_pc.splits)

lemma fin_ok_reach: "kg_reach x s \<Longrightarrow> fin_ok x s"
proof (induction rule: kg_reach.induct)
  case kg_start
  show ?case by (simp add: fin_ok_def kg_init_def)
next
  case (kg_step s a s')
  from fin_ok_act [OF kg_step.IH kg_step.hyps(2)] show ?case .
qed

lemma map_indices:
  assumes "map_ok x s" and "length (kc_map s) = length (kg_parties x)"
  shows "set (map snd (kc_map s)) = {..<length (kg_parties x)}"
proof (rule card_subset_eq)
  have inj: "inj_on snd (set (kc_map s))"
  proof (rule inj_onI)
    have key: "fst r = kg_ids x ! snd r" if "r \<in> set (kc_map s)" for r
      using assms(1) that unfolding map_ok_def by (cases r) force
    fix p q assume "p \<in> set (kc_map s)" "q \<in> set (kc_map s)" "snd p = snd q"
    with key [of p] key [of q] show "p = q" by (simp add: prod_eq_iff)
  qed
  have "distinct (kc_map s)" using assms(1) by (auto simp: map_ok_def distinct_map)
  then have "card (set (kc_map s)) = length (kc_map s)" by (rule distinct_card)
  with inj assms(2) show "card (set (map snd (kc_map s))) = card {..<length (kg_parties x)}"
    by (simp add: card_image)
  show "set (map snd (kc_map s)) \<subseteq> {..<length (kg_parties x)}"
    using assms(1) by (auto simp: map_ok_def)
qed simp

section \<open>A run that succeeds\<close>

definition kg_ready_reply :: TssP2PMsg where
  "kg_ready_reply = p2p_msg (TssP2PMsg_KeyGenReadyMsg KeyGenReadyMsg)"

definition phase1_chunk :: "nat \<Rightarrow> kg_action list" where
  "phase1_chunk i = [KGOpen i None, KGSend i None, KGRecv i (Inr kg_ready_reply), KGTakeReady i]"

definition phase2_chunk :: "(nat \<Rightarrow> KeyGenFinishMsg) \<Rightarrow> nat \<Rightarrow> kg_action list" where
  "phase2_chunk f j = [KGFinSend j None, KGFinRecv j (Inr (p2p_msg (TssP2PMsg_KeyGenFinishMsg (f j)))),
     KGTakeFinish j]"

text \<open>The state after \<open>k\<close> parties have been taken in.\<close>

definition phase1_state :: "kg_call \<Rightarrow> nat \<Rightarrow> kg_state \<Rightarrow> bool" where
  "phase1_state x k s \<longleftrightarrow> (let n = length (kg_parties x) in
     kc_prep s = replicate k PDone @ replicate (n - k) PNew \<and>
     kc_map s = map (\<lambda>i. (kg_ids x ! i, i)) [0..<k] \<and> kc_cnt s = 0 \<and>
     (if k < n then kc_phase s = WaitReady
      else kc_phase s = WaitFinish \<and> kc_fin s = map (\<lambda>i. (i, FNew)) [0..<n]))"

lemma phase1_step:
  assumes "phase1_state x k s" and "k < length (kg_parties x)" and "distinct (kg_ids x)"
  shows "\<exists>s'. kg_exec x (phase1_chunk k) s = Some s' \<and> phase1_state x (Suc k) s'"
proof -
  let ?n = "length (kg_parties x)"
  have st: "kc_prep s = replicate k PDone @ PNew # replicate (?n - Suc k) PNew" "kc_phase s = WaitReady"
    "kc_map s = map (\<lambda>i. (kg_ids x ! i, i)) [0..<k]" "kc_cnt s = 0"
    using assms(1,2) by (simp_all add: phase1_state_def Let_def Suc_diff_Suc replicate_Suc [symmetric]
        del: replicate_Suc)
  have id: "kx_rid x (pid_Id (kg_parties x ! k)) = kg_ids x ! k"
    using assms(2) by (simp add: kg_ids_def)
  have "kg_ids x ! k \<notin> fst ` set (kc_map s)"
  proof
    assume "kg_ids x ! k \<in> fst ` set (kc_map s)"
    then obtain i where "i < k" "kg_ids x ! k = kg_ids x ! i" by (auto simp: st(3))
    with assms(2,3) show False
      using nth_eq_iff_index_eq [OF assms(3), of k i] by (simp add: kg_ids_def)
  qed
  then have upd: "AList.update (kg_ids x ! k) k (kc_map s) = map (\<lambda>i. (kg_ids x ! i, i)) [0..<Suc k]"
    by (simp add: update_new_key st(3))
  have rep: "replicate k PDone @ PDone # replicate (?n - Suc k) PNew =
      replicate (Suc k) PDone @ replicate (?n - Suc k) PNew"
    by (simp add: replicate_app_Cons_same)
  have upd': "AList.update (kg_ids x ! k) k (map (\<lambda>i. (kg_ids x ! i, i)) [0..<k]) =
      map (\<lambda>i. (kg_ids x ! i, i)) [0..<Suc k]"
    using upd by (simp only: st(3))
  have fin: "map (\<lambda>(_, k). (k, FNew)) (map (\<lambda>i. (kg_ids x ! i, i)) [0..<Suc k]) =
      map (\<lambda>i. (i, FNew)) [0..<?n]" if "\<not> Suc k < ?n"
  proof -
    from that assms(2) have "?n = Suc k" by simp
    then show ?thesis by simp
  qed
  show ?thesis
    using assms(2) st id upd' rep fin
    by (auto simp: phase1_chunk_def kg_add_ready_def phase1_state_def Let_def nth_append kg_ready_reply_def
        list_update_append id simp del: upt_Suc map_map)
qed

lemma phase1_run:
  assumes "distinct (kg_ids x)" and "k \<le> length (kg_parties x)" and "kg_parties x \<noteq> []"
  shows "\<exists>s. kg_reach x s \<and> phase1_state x k s"
  using assms(2)
proof (induction k)
  case 0
  have "phase1_state x 0 (kg_init (Inr (kx_sessionId x)) x)"
    using assms(3) by (simp add: phase1_state_def kg_init_def Let_def map_replicate_const)
  then show ?case using kg_start by blast
next
  case (Suc k)
  then obtain s where s: "kg_reach x s" "phase1_state x k s" by auto
  from phase1_step [OF s(2) _ assms(1)] Suc.prems obtain s' where
    "kg_exec x (phase1_chunk k) s = Some s'" "phase1_state x (Suc k) s'" by auto
  with s(1) show ?case using kg_exec_reach by blast
qed

text \<open>The state after \<open>j\<close> parties have reported success.\<close>

definition phase2_state :: "kg_call \<Rightarrow> (nat \<Rightarrow> KeyGenFinishMsg) \<Rightarrow> nat \<Rightarrow> kg_state \<Rightarrow> bool" where
  "phase2_state x f j s \<longleftrightarrow> (let n = length (kg_parties x) in
     kc_fin s = map (\<lambda>i. (i, if i < j then FDelivered (f i) else FNew)) [0..<n] \<and>
     kc_cnt s = of_nat j \<and>
     (if j < n then kc_phase s = WaitFinish
      else kc_phase s = KGReturned (Inr \<lparr>kgr_SessionId = kx_sessionId x, kgr_PublicKey = kgf_PublicKey (f (n - 1))\<rparr>)))"

lemma map_upd_one:
  "j < n \<Longrightarrow> (map (\<lambda>i. (i, if i < j then FDelivered (f i) else FNew)) [0..<n])[j := (j, FDelivered (f j))] =
     map (\<lambda>i. (i, if i < Suc j then FDelivered (f i) else FNew)) [0..<n]"
  by (rule nth_equalityI) (auto simp: nth_list_update less_Suc_eq)

lemma phase2_step:
  assumes "phase2_state x f j s" and "j < length (kg_parties x)" and "kgf_IsSuccess (f j)"
    and "length (kg_parties x) < 2 ^ 32"
  shows "\<exists>s'. kg_exec x (phase2_chunk f j) s = Some s' \<and> phase2_state x f (Suc j) s'"
proof -
  let ?n = "length (kg_parties x)"
  have st: "kc_fin s = map (\<lambda>i. (i, if i < j then FDelivered (f i) else FNew)) [0..<?n]"
    "kc_cnt s = of_nat j" "kc_phase s = WaitFinish"
    using assms(1,2) by (simp_all add: phase2_state_def Let_def)
  have fin: "(kc_fin s)[j := (j, FDelivered (f j))] =
      map (\<lambda>i. (i, if i < Suc j then FDelivered (f i) else FNew)) [0..<?n]"
    unfolding st(1) by (rule map_upd_one [OF assms(2)])
  have nth: "kc_fin s ! j = (j, FNew)" and len: "length (kc_fin s) = ?n" using assms(2) by (simp_all add: st(1))
  have "(of_nat (Suc j) :: int32) = of_nat ?n \<longleftrightarrow> Suc j = ?n"
    using unat_of_nat_int32 [of "Suc j"] unat_of_nat_int32 [of ?n] assms(2,4)
    by (metis Suc_leI le_less_trans)
  then have cnt: "(of_nat j + 1 :: int32) = of_nat ?n \<longleftrightarrow> Suc j = ?n"
    by (simp add: add.commute)
  from assms(2) have last: "Suc j = ?n \<Longrightarrow> j = ?n - 1" by simp
  show ?thesis
    using assms(2,3) st(2,3) nth len fin cnt last
    by (auto simp: phase2_chunk_def kg_take_finish_def phase2_state_def Let_def kg_return_def
        add.commute simp del: map_eq_conv)
qed

lemma phase2_run:
  assumes "distinct (kg_ids x)" and "kg_parties x \<noteq> []" and "length (kg_parties x) < 2 ^ 32"
    and "\<forall>i < length (kg_parties x). kgf_IsSuccess (f i)" and "j \<le> length (kg_parties x)"
  shows "\<exists>s. kg_reach x s \<and> phase2_state x f j s"
  using assms(5)
proof (induction j)
  case 0
  from phase1_run [OF assms(1) _ assms(2), of "length (kg_parties x)"] obtain s where
    "kg_reach x s" "phase1_state x (length (kg_parties x)) s" by auto
  moreover from this assms(2) have "phase2_state x f 0 s"
    by (simp add: phase1_state_def phase2_state_def Let_def)
  ultimately show ?case by blast
next
  case (Suc j)
  then obtain s where s: "kg_reach x s" "phase2_state x f j s" by auto
  from phase2_step [OF s(2) _ _ assms(3)] Suc.prems assms(4) obtain s' where
    "kg_exec x (phase2_chunk f j) s = Some s'" "phase2_state x f (Suc j) s'" by auto
  with s(1) show ?case using kg_exec_reach by blast
qed

lemma kg_success:
  assumes "kg_reach x s" and "kc_phase s = KGReturned (Inr resp)" and "length (kg_parties x) < 2 ^ 32"
  shows "distinct (kg_ids x) \<and> kg_parties x \<noteq> [] \<and>
    set (map fst (kc_fin s)) = {..<length (kg_parties x)} \<and> length (kc_fin s) = length (kg_parties x) \<and>
    (\<forall>pc \<in> snd ` set (kc_fin s). \<exists>f. pc = FDelivered f \<and> kgf_IsSuccess f) \<and>
    kgr_SessionId resp = kx_sessionId x \<and>
    (\<exists>f. FDelivered f \<in> snd ` set (kc_fin s) \<and> kgf_PublicKey f = kgr_PublicKey resp)"
proof -
  from kg_inv [OF assms(1)] have inv: "map_ok x s" "phase_ok x s" by simp_all
  from inv(2) assms(2) have h: "kc_map s \<noteq> []" "length (kc_map s) = length (kg_parties x)"
    "map fst (kc_fin s) = map snd (kc_map s)" "kgr_SessionId resp = kx_sessionId x"
    "reports_key s (kgr_PublicKey resp)"
    by (simp_all add: phase_ok_def)
  have "length (kc_fin s) = length (kg_parties x)" using h(2,3) by (metis length_map)
  moreover have "kg_parties x \<noteq> []" using h(1,2) by auto
  moreover have "\<exists>f. pc = FDelivered f \<and> kgf_IsSuccess f" if "good pc" for pc
    using that by (cases pc) auto
  ultimately show ?thesis
    using complete_map_distinct [OF inv(1) h(2)] map_indices [OF inv(1) h(2)] h(3-5)
      all_delivered [OF inv(2) assms(2,3)]
    by (auto simp: reports_key_def)
qed

section \<open>Properties\<close>

definition DemoCall :: "string list \<Rightarrow> kg_call" where
  "DemoCall ids = \<lparr>kx_request = \<lparr>kgq_KeyId = ''k'', kgq_Threshold = 1,
       kgq_AllPartyId = map (\<lambda>i. \<lparr>pid_Id = i, pid_Moniker = i, pid_Key = []\<rparr>) ids\<rparr>,
     kx_sessionId = ''s'', kx_deadline = \<lparr>ts_Seconds = 600, ts_Nanos = 0\<rparr>, kx_rid = (\<lambda>i. i),
     kx_type_text = (\<lambda>_. [])\<rparr>"

definition demo_report_key :: "nat \<Rightarrow> KeyGenFinishMsg" where
  "demo_report_key i = \<lparr>kgf_IsSuccess = True, kgf_FailureReason = [], kgf_PublicKey = [of_nat i]\<rparr>"

text \<open>
  C10. Success is unanimous. Whatever the order of messages and goroutines, if the coordinator
  returns a response then the parties of the request report pairwise different ids, each party's
  own stream reached the second phase, each of them delivered a finish message with success, and
  the returned key is the one some party delivered.
\<close>

theorem keygen_success_unanimous:
  assumes "kg_reach x s" and "kc_phase s = KGReturned (Inr resp)" and "length (kg_parties x) < 2 ^ 32"
  shows "distinct (kg_ids x) \<and> kg_parties x \<noteq> [] \<and>
    set (map fst (kc_fin s)) = {..<length (kg_parties x)} \<and> length (kc_fin s) = length (kg_parties x) \<and>
    (\<forall>pc \<in> snd ` set (kc_fin s). \<exists>f. pc = FDelivered f \<and> kgf_IsSuccess f) \<and>
    kgr_SessionId resp = kx_sessionId x \<and>
    (\<exists>f. FDelivered f \<in> snd ` set (kc_fin s) \<and> kgf_PublicKey f = kgr_PublicKey resp)"
  using assms by (rule kg_success)



theorem keygen_success_unanimous_witness:
  "\<exists>s. kg_reach (DemoCall [''A'', ''B'']) s \<and> length (kc_fin s) = 2 \<and>
     (\<exists>f. FDelivered f \<in> snd ` set (kc_fin s) \<and> kgf_PublicKey f = [1])"
proof -
  have d: "distinct (kg_ids (DemoCall [''A'', ''B'']))" "kg_parties (DemoCall [''A'', ''B'']) \<noteq> []"
    "length (kg_parties (DemoCall [''A'', ''B''])) < 2 ^ 32" "length (kg_parties (DemoCall [''A'', ''B''])) = 2"
    by (simp_all add: kg_ids_def kg_parties_def DemoCall_def go_simps)
  have "\<forall>i < length (kg_parties (DemoCall [''A'', ''B''])). kgf_IsSuccess (demo_report_key i)"
    by (simp add: demo_report_key_def)
  from phase2_run [OF d(1-3) this, of 2] d(4) obtain s where s: "kg_reach (DemoCall [''A'', ''B'']) s"
    "kc_phase s = KGReturned (Inr \<lparr>kgr_SessionId = kx_sessionId (DemoCall [''A'', ''B'']), kgr_PublicKey = [1]\<rparr>)"
    by (auto simp: phase2_state_def Let_def demo_report_key_def)
  from keygen_success_unanimous [OF s d(3)] s(1) d(4) show ?thesis by auto
qed

text \<open>
  A party list with a repetition never gets past the first phase. If two parties of the
  request report the same id, or the list is empty, then in every run the coordinator never
  enters the second phase, sends no start message and returns no response: it waits until its
  context ends or some party fails.
\<close>

theorem keygen_repeated_party_stuck:
  assumes "kg_reach x s" and "\<not> distinct (kg_ids x) \<or> kg_parties x = []"
  shows "kc_fin s = [] \<and> kg_start_msg \<notin> snd ` set (kc_out s) \<and> kc_phase s \<noteq> WaitFinish \<and>
    (\<forall>resp. kc_phase s \<noteq> KGReturned (Inr resp))"
proof -
  from kg_inv [OF assms(1)] have inv: "map_ok x s" "phase_ok x s" by simp_all
  have never: "\<not> (kc_map s \<noteq> [] \<and> length (kc_map s) = length (kg_parties x))"
    using assms(2) complete_map_distinct [OF inv(1)] by auto
  with fin_ok_reach [OF assms(1)] have "kc_fin s = []" "kg_start_msg \<notin> snd ` set (kc_out s)"
    by (auto simp: fin_ok_def)
  moreover from never inv(2) have "kc_phase s \<noteq> WaitFinish" "kc_phase s \<noteq> KGReturned (Inr resp)" for resp
    by (auto simp: phase_ok_def)
  ultimately show ?thesis by blast
qed

theorem keygen_repeated_party_stuck_witness:
  "kc_fin (kg_init (Inr ''s'') (DemoCall [''A'', ''A''])) = []"
proof -
  have "kg_reach (DemoCall [''A'', ''A'']) (kg_init (Inr ''s'') (DemoCall [''A'', ''A'']))"
    using kg_start [of "DemoCall [''A'', ''A'']"] by (simp add: DemoCall_def)
  moreover have "\<not> distinct (kg_ids (DemoCall [''A'', ''A'']))"
    by (simp add: kg_ids_def kg_parties_def DemoCall_def go_simps)
  ultimately show ?thesis using keygen_repeated_party_stuck by blast
qed

text \<open>
  Streams abandoned by an early return. Once the call has returned, a goroutine that holds a
  ready stream, or an error on an open stream, can never hand it over: it waits for ever and its
  stream is never closed, whatever happens next.
\<close>

theorem keygen_abandoned_stream:
  assumes "kc_phase s = KGReturned r" and "kg_exec x as s = Some s'"
    and "i < length (kc_prep s)" and "kc_prep s ! i = PReady \<or> kc_prep s ! i = PErr True err"
    and "i \<notin> set (kc_closed s)"
  shows "kc_prep s' ! i = kc_prep s ! i \<and> i \<notin> set (kc_closed s') \<and> kc_phase s' = KGReturned r"
  using assms
proof (induction as arbitrary: s)
  case (Cons a as)
  then obtain s1 where a: "kg_act x a s = Some s1" and rest: "kg_exec x as s1 = Some s'"
    by (auto split: option.splits)
  have s1: "kc_phase s1 = KGReturned r" "kc_prep s1 ! i = kc_prep s ! i" "length (kc_prep s1) = length (kc_prep s)"
    "kc_closed s1 = kc_closed s"
    using a Cons.prems(1,3,4)
    by (cases a; auto split: if_splits kg_phase.splits prep_pc.splits simp: nth_list_update)+
  with Cons.IH [OF s1(1) rest] Cons.prems(3-5) show ?case by simp
qed simp

text \<open>The first of two parties is ready when the second one fails.\<close>

definition demo_abandon :: "kg_action list" where
  "demo_abandon = [KGOpen 0 None, KGSend 0 None, KGRecv 0 (Inr kg_ready_reply),
     KGOpen 1 (Some (Errorf ''dial'')), KGTakeErr 1]"

theorem keygen_abandoned_stream_witness:
  "\<exists>s s'. kg_reach (DemoCall [''A'', ''B'']) s \<and> kc_phase s = KGReturned (Inl (Errorf ''dial'')) \<and>
     kg_exec (DemoCall [''A'', ''B'']) [] s = Some s' \<and> kc_prep s' ! 0 = PReady \<and> 0 \<notin> set (kc_closed s')"
proof -
  let ?x = "DemoCall [''A'', ''B'']"
  obtain s where s: "kg_exec ?x demo_abandon (kg_init (Inr ''s'') ?x) = Some s"
    "kc_phase s = KGReturned (Inl (Errorf ''dial''))" "kc_prep s = [PReady, PDone]" "kc_closed s = []"
    by (simp add: demo_abandon_def kg_init_def kg_parties_def DemoCall_def go_simps kg_ready_reply_def
        kg_return_def)
  have "kg_reach ?x (kg_init (Inr ''s'') ?x)" using kg_start [of ?x] by (simp add: DemoCall_def)
  with s(1) have "kg_reach ?x s" by (rule kg_exec_reach)
  moreover have "kg_exec ?x [] s = Some s" by simp
  moreover from keygen_abandoned_stream [OF s(2) this, of 0] s(3,4)
  have "kc_prep s ! 0 = PReady \<and> 0 \<notin> set (kc_closed s)" by simp
  ultimately show ?thesis using s(2) by blast
qed

end
