(* ===== verification/Node.thy ===== *)
theory Node
  imports Lifecycle
begin

text \<open>
  What the two protocol handlers of a node, \<open>handleKeyGen\<close> and \<open>handleKeySign\<close>, share: the world
  they act on, the answers of their environment, and the effects a run leaves behind. A handler
  is a function of the world that threads it through its calls in the order of the code.

  The world's clock \<open>w_tick\<close> counts the calls that leave the handler. The environment \<open>env\<close>
  answers the call made at each tick, so a run is determined by the environment, and a statement
  about all environments is a statement about all behaviours of the network, the clock and the
  other goroutines. Writing to a stream is taken to return; reading may wait for ever (\<open>None\<close>).
\<close>

section \<open>World and environment\<close>

text \<open>
  Effects in the order they happen. \<open>SentMain\<close> is a message on the coordinator's stream, the
  session effects concern the streams opened to other parties, \<open>Updated\<close> a goroutine that hands a
  message to the local party of the library, and \<open>Accessed\<close> a completed change of the store.
\<close>

datatype 'pm eff =
    SentMain TssP2PMsg "error option"
  | Opened string "error option"
  | SentSession string TssP2PMsg "error option"
  | ClosedSession string "error option"
  | ClosedMain
  | StartedParty
  | Updated 'pm
  | Accessed store_op "error option"

record ('s, 'pm) world =
  w_tick :: nat
  w_store :: 's
  w_handlers :: "string \<Rightarrow> node_handler option"
  w_trace :: "'pm eff list"

text \<open>
  \<open>e_other n\<close> is what the other goroutines of the node do to the store before the access made at
  tick \<open>n\<close>; \<open>e_type_text\<close> is the text \<open>%s\<close> prints for a message type.
\<close>

record 's env =
  e_recv :: "nat \<Rightarrow> (error + TssP2PMsg) option"
  e_send :: "nat \<Rightarrow> TssP2PMsg \<Rightarrow> error option"
  e_newstream :: "nat \<Rightarrow> string \<Rightarrow> string \<Rightarrow> error option"
  e_sess_send :: "nat \<Rightarrow> string \<Rightarrow> TssP2PMsg \<Rightarrow> error option"
  e_sess_close :: "nat \<Rightarrow> string \<Rightarrow> error option"
  e_now :: "nat \<Rightarrow> Timestamp"
  e_other :: "nat \<Rightarrow> 's \<Rightarrow> 's"
  e_type_text :: "MsgType option \<Rightarrow> string"

text \<open>What the event loop of a handler receives next.\<close>

record out_msg =
  om_WireBytes :: "error + bytes"
  om_To :: "TssPartyID list option"

datatype 'end lib_event =
    CtxDone
  | ProcessMsg TssP2PMsg
  | OutCh out_msg
  | EndCh 'end
  | ErrCh error

text \<open>The error of a context whose deadline has passed.\<close>

definition DeadlineExceeded :: error where
  "DeadlineExceeded = Errorf ''context deadline exceeded''"

definition invalid_type :: "'s env \<Rightarrow> TssP2PMsg \<Rightarrow> error" where
  "invalid_type E m = Errorf (''invalid msg type: '' @ e_type_text E (GetMsgType (Some m)))"

section \<open>Calls\<close>

definition step :: "'pm eff \<Rightarrow> ('s, 'pm) world \<Rightarrow> ('s, 'pm) world" where
  "step f w = w\<lparr>w_tick := Suc (w_tick w), w_trace := w_trace w @ [f]\<rparr>"

definition recv_main :: "'s env \<Rightarrow> ('s, 'pm) world \<Rightarrow> (error + TssP2PMsg) option \<times> ('s, 'pm) world" where
  "recv_main E w = (e_recv E (w_tick w), w\<lparr>w_tick := Suc (w_tick w)\<rparr>)"

definition send_main :: "'s env \<Rightarrow> MsgType \<Rightarrow> ('s, 'pm) world \<Rightarrow> error option \<times> ('s, 'pm) world" where
  "send_main E m w =
     (let err = e_send E (w_tick w) (p2p_msg m) in (err, step (SentMain (p2p_msg m) err) w))"

definition new_stream ::
    "'s env \<Rightarrow> string \<Rightarrow> string \<Rightarrow> ('s, 'pm) world \<Rightarrow> error option \<times> ('s, 'pm) world" where
  "new_stream E partyId protocolId w =
     (let err = e_newstream E (w_tick w) partyId protocolId in (err, step (Opened partyId err) w))"

definition send_session ::
    "'s env \<Rightarrow> string \<Rightarrow> MsgType \<Rightarrow> ('s, 'pm) world \<Rightarrow> error option \<times> ('s, 'pm) world" where
  "send_session E partyId m w =
     (let err = e_sess_send E (w_tick w) partyId (p2p_msg m)
      in (err, step (SentSession partyId (p2p_msg m) err) w))"

definition close_session ::
    "'s env \<Rightarrow> string \<Rightarrow> ('s, 'pm) world \<Rightarrow> error option \<times> ('s, 'pm) world" where
  "close_session E partyId w =
     (let err = e_sess_close E (w_tick w) partyId in (err, step (ClosedSession partyId err) w))"

text \<open>One access to the store under the mutex, after what others did before it.\<close>

definition access ::
    "'s LocalStorage \<Rightarrow> 's env \<Rightarrow> store_op \<Rightarrow> ('s, 'pm) world \<Rightarrow> error option \<times> ('s, 'pm) world" where
  "access ls E op w =
     (let (err, s) = apply_op ls op (e_other E (w_tick w) (w_store w))
      in (err, (step (Accessed op err) w)\<lparr>w_store := s\<rparr>))"

definition set_handler :: "string \<Rightarrow> node_handler \<Rightarrow> ('s, 'pm) world \<Rightarrow> ('s, 'pm) world" where
  "set_handler protocolId h w = w\<lparr>w_handlers := (w_handlers w)(protocolId \<mapsto> h)\<rparr>"

definition remove_handler :: "string \<Rightarrow> ('s, 'pm) world \<Rightarrow> ('s, 'pm) world" where
  "remove_handler protocolId w = w\<lparr>w_handlers := (w_handlers w)(protocolId := None)\<rparr>"

section \<open>Session streams\<close>

text \<open>
  The handler registered for the streams of a session: it reads one message and hands it to the
  channel of the session, or drops an unreadable one. The channel has no buffer: the hand-over
  waits for the event loop, and panics once the channel is closed.
\<close>

definition session_stream ::
    "TssP2PMsg chan \<Rightarrow> error + TssP2PMsg \<Rightarrow> TssP2PMsg chan outcome" where
  "session_stream c received = (case received of
     Inl err \<Rightarrow> Returned c
   | Inr p2pMsg \<Rightarrow> chan_send c p2pMsg)"

section \<open>Outgoing protocol messages\<close>

text \<open>The parties a message of the local party goes to: all others when it is a broadcast.\<close>

definition recipients :: "string \<Rightarrow> PartyID list \<Rightarrow> out_msg \<Rightarrow> PartyID list" where
  "recipients self parties msg =
     (case om_To msg of
        None \<Rightarrow> filter (\<lambda>p. PartyID_GetId (Some p) \<noteq> self) parties
      | Some tos \<Rightarrow> map convertToPbPartyId tos)"

definition update_msg :: "string \<Rightarrow> bytes \<Rightarrow> out_msg \<Rightarrow> MsgType" where
  "update_msg self wire msg =
     TssP2PMsg_ProcessUpdateMsg
       \<lparr>pum_FromPartyId = self, pum_MsgWireBytes = wire, pum_IsBroadcast = (om_To msg = None)\<rparr>"

text \<open>
  The loop over the recipients; \<open>strict\<close> says whether a failed close ends it (it does in key
  generation, in signing it is only logged).
\<close>

fun send_updates ::
    "bool \<Rightarrow> 's env \<Rightarrow> string \<Rightarrow> MsgType \<Rightarrow> PartyID list \<Rightarrow> ('s, 'pm) world
     \<Rightarrow> error option \<times> ('s, 'pm) world" where
  "send_updates strict E protocolId m [] w = (None, w)"
| "send_updates strict E protocolId m (p # ps) w =
     (case new_stream E (pid_Id p) protocolId w of
        (Some err, w) \<Rightarrow> (Some err, w)
      | (None, w) \<Rightarrow>
        (case send_session E (pid_Id p) m w of
           (Some err, w) \<Rightarrow> (Some err, w)
         | (None, w) \<Rightarrow>
           (case close_session E (pid_Id p) w of
              (Some err, w) \<Rightarrow> if strict then (Some err, w) else send_updates strict E protocolId m ps w
            | (None, w) \<Rightarrow> send_updates strict E protocolId m ps w)))"

text \<open>The table from party ids to the sorted party ids; later entries replace earlier ones.\<close>

definition sorted_parties :: "('pre, 'sd, 'pm, 'pk) TssLib \<Rightarrow> PartyID list \<Rightarrow> TssPartyID list" where
  "sorted_parties T parties = SortPartyIDs T (map (convertToTssPartyId T) parties)"

definition id_map :: "TssPartyID list \<Rightarrow> string \<Rightarrow> TssPartyID option" where
  "id_map ps = map_of (rev (map (\<lambda>p. (tpid_Id p, p)) ps))"

section \<open>Lemmas\<close>

text \<open>The calls, unfolded: what they do to each part of the world.\<close>

lemma step_simps [simp]:
  "w_tick (step f w) = Suc (w_tick w)" "w_trace (step f w) = w_trace w @ [f]"
  "w_store (step f w) = w_store w" "w_handlers (step f w) = w_handlers w"
  by (simp_all add: step_def)

lemmas call_defs = recv_main_def send_main_def new_stream_def send_session_def close_session_def
  Let_def

text \<open>Everything that was written on the coordinator's stream.\<close>

fun main_msg :: "'pm eff \<Rightarrow> TssP2PMsg list" where
  "main_msg (SentMain m err) = [m]"
| "main_msg _ = []"

definition main_msgs :: "('s, 'pm) world \<Rightarrow> TssP2PMsg list" where
  "main_msgs w = concat (map main_msg (w_trace w))"

text \<open>Everything that was sent to other parties on session streams.\<close>

fun session_msg :: "'pm eff \<Rightarrow> (string \<times> TssP2PMsg) list" where
  "session_msg (SentSession p m err) = [(p, m)]"
| "session_msg _ = []"

definition session_msgs :: "('s, 'pm) world \<Rightarrow> (string \<times> TssP2PMsg) list" where
  "session_msgs w = concat (map session_msg (w_trace w))"

lemma main_msgs_step [simp]: "main_msgs (step f w) = main_msgs w @ main_msg f"
  by (simp add: main_msgs_def)

lemma session_msgs_step [simp]: "session_msgs (step f w) = session_msgs w @ session_msg f"
  by (simp add: session_msgs_def)

lemma handler_world [simp]:
  "main_msgs (set_handler p h w) = main_msgs w" "main_msgs (remove_handler p w) = main_msgs w"
  "session_msgs (set_handler p h w) = session_msgs w"
  "session_msgs (remove_handler p w) = session_msgs w"
  "w_store (set_handler p h w) = w_store w" "w_store (remove_handler p w) = w_store w"
  "w_handlers (set_handler p h w) = (w_handlers w)(p \<mapsto> h)"
  "w_handlers (remove_handler p w) = (w_handlers w)(p := None)"
  "w_tick (set_handler p h w) = w_tick w" "w_tick (remove_handler p w) = w_tick w"
  "w_trace (set_handler p h w) = w_trace w" "w_trace (remove_handler p w) = w_trace w"
  by (simp_all add: set_handler_def remove_handler_def main_msgs_def session_msgs_def)

lemma store_world [simp]:
  "main_msgs (w\<lparr>w_store := s\<rparr>) = main_msgs w" "session_msgs (w\<lparr>w_store := s\<rparr>) = session_msgs w"
  "main_msgs (w\<lparr>w_tick := n\<rparr>) = main_msgs w" "session_msgs (w\<lparr>w_tick := n\<rparr>) = session_msgs w"
  by (simp_all add: main_msgs_def session_msgs_def)

lemma recv_main_eq: "recv_main E w = (r, w') \<Longrightarrow> main_msgs w' = main_msgs w \<and>
    w_handlers w' = w_handlers w \<and> w_store w' = w_store w \<and> w_trace w' = w_trace w"
  by (auto simp: recv_main_def)

lemma send_main_eq: "send_main E m w = (r, w') \<Longrightarrow> main_msgs w' = main_msgs w @ [p2p_msg m] \<and>
    w_handlers w' = w_handlers w \<and> w_store w' = w_store w \<and>
    w_trace w' = w_trace w @ [SentMain (p2p_msg m) r]"
  by (auto simp: send_main_def Let_def)

lemma access_eq: "access ls E op w = (r, w') \<Longrightarrow> main_msgs w' = main_msgs w \<and>
    w_handlers w' = w_handlers w \<and> w_trace w' = w_trace w @ [Accessed op r] \<and>
    apply_op ls op (e_other E (w_tick w) (w_store w)) = (r, w_store w')"
  by (auto simp: access_def split: prod.splits)

lemma send_updates_eq: "send_updates strict E p m ps w = (r, w') \<Longrightarrow> main_msgs w' = main_msgs w \<and>
    w_handlers w' = w_handlers w \<and> w_store w' = w_store w"
proof (induction ps arbitrary: w strict)
  case (Cons q ps)
  from Cons.prems show ?case
    by (auto simp: call_defs split: option.splits if_splits dest!: Cons.IH)
qed simp

text \<open>A round of updates that succeeds reaches every recipient once, in order.\<close>

lemma send_updates_sent:
  "send_updates strict E pr m ps w = (None, w') \<Longrightarrow>
     session_msgs w' = session_msgs w @ map (\<lambda>p. (pid_Id p, p2p_msg m)) ps"
proof (induction ps arbitrary: w strict)
  case (Cons q ps)
  from Cons.prems show ?case
    by (auto simp: call_defs split: option.splits if_splits dest!: Cons.IH)
qed simp

lemma send_updates_prefix:
  "send_updates strict E pr m ps w = (r, w') \<Longrightarrow>
     \<exists>n. session_msgs w' = session_msgs w @ map (\<lambda>p. (pid_Id p, p2p_msg m)) (take n ps)"
proof (induction ps arbitrary: w strict)
  case (Cons q ps)
  have more: "\<exists>n. session_msgs w' = session_msgs w @ map (\<lambda>p. (pid_Id p, p2p_msg m)) (take n (q # ps))"
    if "send_updates strict E pr m ps w2 = (r, w')"
      "session_msgs w2 = session_msgs w @ [(pid_Id q, p2p_msg m)]" for w2
  proof -
    from Cons.IH [OF that(1)] obtain n where
      "session_msgs w' = session_msgs w2 @ map (\<lambda>p. (pid_Id p, p2p_msg m)) (take n ps)" by blast
    with that(2) show ?thesis by (intro exI [of _ "Suc n"]) simp
  qed
  obtain e1 w1 where 1: "new_stream E (pid_Id q) pr w = (e1, w1)" by fastforce
  obtain e2 w2 where 2: "send_session E (pid_Id q) m w1 = (e2, w2)" by fastforce
  obtain e3 w3 where 3: "close_session E (pid_Id q) w2 = (e3, w3)" by fastforce
  from 1 2 3 have w: "session_msgs w1 = session_msgs w"
    "session_msgs w2 = session_msgs w @ [(pid_Id q, p2p_msg m)]"
    "session_msgs w3 = session_msgs w @ [(pid_Id q, p2p_msg m)]"
    by (auto simp: call_defs)
  consider "w' = w1" | "w' = w2" | "w' = w3" | "send_updates strict E pr m ps w3 = (r, w')"
    using Cons.prems 1 2 3 by (auto split: option.splits if_splits)
  then show ?case
  proof cases
    case 1 with w show ?thesis by (intro exI [of _ 0]) simp
  next
    case 2 with w show ?thesis by (intro exI [of _ 1]) simp
  next
    case 3 with w show ?thesis by (intro exI [of _ 1]) simp
  next
    case 4 with w more show ?thesis by blast
  qed
qed simp

lemma recipients_others:
  "om_To msg = None \<Longrightarrow> map pid_Id (recipients self parties msg) =
     filter (\<lambda>i. i \<noteq> self) (map pid_Id parties)"
  by (simp add: recipients_def PartyID_GetId_def filter_map comp_def)

lemma id_map_Some: "id_map ps i = Some p \<Longrightarrow> p \<in> set ps \<and> tpid_Id p = i"
  by (auto simp: id_map_def dest!: map_of_SomeD)

lemma id_map_None: "id_map ps i = None \<longleftrightarrow> i \<notin> tpid_Id ` set ps"
  by (force simp: id_map_def map_of_eq_None_iff)

lemma sorted_parties_ids:
  assumes "party_ids_ok T"
  shows "tpid_Id ` set (sorted_parties T parties) = pid_Id ` set parties"
  using assms by (auto simp: sorted_parties_def party_ids_ok_def convertToTssPartyId_def image_iff)

end
