(* ===== verification/KeyGenNode.thy ===== *)
theory KeyGenNode
  imports Node Validation
begin

text \<open>
  The node's side of key generation: \<open>handleKeyGen\<close>, \<open>handleKeyGen0\<close> and
  \<open>ConvertECDSAPubKeyToBTCECPubKey\<close> of \<open>tss/tss_keygen.go\<close>. \<open>handleKeyGen0\<close> is cut at its
  numbered steps; the event loop runs over the list of events it receives and waits when the list
  ends.
\<close>

section \<open>The public key\<close>

definition ConvertECDSAPubKeyToBTCECPubKey ::
    "('pre, 'sd, 'pm, 'pk) TssLib \<Rightarrow> EcdsaPub \<Rightarrow> (error + 'pk) outcome" where
  "ConvertECDSAPubKeyToBTCECPubKey T ecdsaPubKey =
     (case MarshalCompressed (IsOnCurve T) (ep_X ecdsaPubKey) (ep_Y ecdsaPubKey) of
        Panicked msg \<Rightarrow> Panicked msg
      | Waiting \<Rightarrow> Waiting
      | Returned serializedPubKey \<Rightarrow>
        (case btcec_ParsePubKey T serializedPubKey of
           Inl err \<Rightarrow> Returned (Inl err)
         | Inr btcecPubKey \<Rightarrow> Returned (Inr btcecPubKey)))"

section \<open>\<open>handleKeyGen0\<close>\<close>

text \<open>
  Step 1: the check of the store and the new pending record, the validator, the ready message and
  the wait for the start message.
\<close>

definition keygen_step1 ::
    "'s Manager \<Rightarrow> 's env \<Rightarrow> KeyGenPrepareMsg \<Rightarrow> ('s, 'pm) world
     \<Rightarrow> (error + unit) outcome \<times> ('s, 'pm) world" where
  "keygen_step1 m E prep w =
     (let createdTime = Some (e_now E (w_tick w)) in
      case access (m_localStorage m) E
          (OpKeyGen (kgp_KeyId prep) (kgp_SessionId prep) (kgp_Threshold prep) (kgp_AllPartyId prep)
             createdTime) w of
        (Some err, w) \<Rightarrow> (Returned (Inl err), w)
      | (None, w) \<Rightarrow>
        (case (if \<not> m_dev m
               then v_KeyGenValidate (m_validator m) (w_tick w) (kgp_KeyId prep) (kgp_Threshold prep)
                 (kgp_AllPartyId prep)
               else None) of
           Some err \<Rightarrow> (Returned (Inl err), w)
         | None \<Rightarrow>
           (case send_main E (TssP2PMsg_KeyGenReadyMsg KeyGenReadyMsg) w of
              (Some err, w) \<Rightarrow> (Returned (Inl err), w)
            | (None, w) \<Rightarrow>
              (case recv_main E w of
                 (None, w) \<Rightarrow> (Waiting, w)
               | (Some (Inl err), w) \<Rightarrow> (Returned (Inl err), w)
               | (Some (Inr p2pMsg), w) \<Rightarrow>
                   if GetKeyGenStartMsg (Some p2pMsg) = None
                   then (Returned (Inl (invalid_type E p2pMsg)), w)
                   else (Returned (Inr ()), w)))))"

text \<open>
  Step 2: pre-parameters, party ids and the local party. The error of \<open>GeneratePreParams\<close> is
  dropped, and its result dereferenced when the party is made.
\<close>

definition keygen_step2 ::
    "'s Manager \<Rightarrow> ('pre, 'sd, 'pm, 'pk) TssLib \<Rightarrow> KeyGenPrepareMsg \<Rightarrow> ('s, 'pm) world
     \<Rightarrow> (error + (string \<Rightarrow> TssPartyID option)) outcome \<times> ('s, 'pm) world" where
  "keygen_step2 m T prep w =
     (let (tssPreParams, _) = GeneratePreParams T (w_tick w);
          idMap = id_map (sorted_parties T (kgp_AllPartyId prep))
      in case idMap (PartyID_GetId (Some (m_LocalPartyId m))) of
           None \<Rightarrow> (Returned (Inl (Errorf ''localPartyID not found'')), w)
         | Some tssLocalSortedPartyID \<Rightarrow>
           (case tssPreParams of
              None \<Rightarrow> (Panicked nil_deref, w)
            | Some _ \<Rightarrow> (Returned (Inr idMap), step StartedParty w)))"

definition kgf_failed :: "string \<Rightarrow> KeyGenFinishMsg" where
  "kgf_failed reason = \<lparr>kgf_IsSuccess = False, kgf_FailureReason = reason, kgf_PublicKey = []\<rparr>"

text \<open>The status changes of the handler: its record is pending and becomes an error, or ready.\<close>

definition mark_error ::
    "'s Manager \<Rightarrow> 's env \<Rightarrow> KeyGenPrepareMsg \<Rightarrow> ('s, 'pm) world \<Rightarrow> error option \<times> ('s, 'pm) world" where
  "mark_error m E prep w =
     access (m_localStorage m) E
       (OpStatus (kgp_KeyId prep) (kgp_SessionId prep) [] KEY_STATUS_PENDING KEY_STATUS_ERROR []
          (Some (e_now E (w_tick w)))) w"

text \<open>The end of the protocol in the local party: save the share, report the public key.\<close>

definition keygen_end ::
    "'s Manager \<Rightarrow> ('pre, 'sd, 'pm, 'pk) TssLib \<Rightarrow> 's env \<Rightarrow> KeyGenPrepareMsg \<Rightarrow> 'sd \<Rightarrow> ('s, 'pm) world
     \<Rightarrow> (error + KeyGenFinishMsg) outcome \<times> ('s, 'pm) world" where
  "keygen_end m T E prep saveData w =
     (case sd_json_Marshal T saveData of
        Inl err \<Rightarrow> (Returned (Inl err), w)
      | Inr saveDataJson \<Rightarrow>
        (case ConvertECDSAPubKeyToBTCECPubKey T (sd_ECDSAPub T saveData) of
           Panicked msg \<Rightarrow> (Panicked msg, w)
         | Waiting \<Rightarrow> (Waiting, w)
         | Returned (Inl err) \<Rightarrow> (Returned (Inl err), w)
         | Returned (Inr pubKey) \<Rightarrow>
           (case access (m_localStorage m) E
               (OpStatus (kgp_KeyId prep) (kgp_SessionId prep) (SerializeCompressed T pubKey)
                  KEY_STATUS_PENDING KEY_STATUS_READY saveDataJson (Some (e_now E (w_tick w)))) w of
              (Some err, w) \<Rightarrow> (Returned (Inl err), w)
            | (None, w) \<Rightarrow>
                (Returned (Inr \<lparr>kgf_IsSuccess = True, kgf_FailureReason = [],
                                kgf_PublicKey = SerializeCompressed T pubKey\<rparr>), w))))"

text \<open>Step 3: the event loop.\<close>

fun keygen_loop ::
    "'s Manager \<Rightarrow> ('pre, 'sd, 'pm, 'pk) TssLib \<Rightarrow> 's env \<Rightarrow> KeyGenPrepareMsg \<Rightarrow> string
     \<Rightarrow> (string \<Rightarrow> TssPartyID option) \<Rightarrow> 'sd lib_event list \<Rightarrow> ('s, 'pm) world
     \<Rightarrow> (error + KeyGenFinishMsg) outcome \<times> ('s, 'pm) world" where
  "keygen_loop m T E prep protocolId idMap [] w = (Waiting, w)"
| "keygen_loop m T E prep protocolId idMap (CtxDone # evs) w = (Returned (Inl DeadlineExceeded), w)"
| "keygen_loop m T E prep protocolId idMap (ProcessMsg p2pProcessMsg # evs) w =
     (case tp_MsgType p2pProcessMsg of
        Some (TssP2PMsg_ProcessUpdateMsg updateMsg) \<Rightarrow>
          (case idMap (ProcessUpdateMsg_GetFromPartyId (Some updateMsg)) of
             None \<Rightarrow> (Returned (Inl (Errorf ''fromPartyID not found in sortedPartyId'')), w)
           | Some fromSortedPartyID \<Rightarrow>
             (case ParseWireMessage T (pum_MsgWireBytes updateMsg) fromSortedPartyID
                 (pum_IsBroadcast updateMsg) of
                Inl err \<Rightarrow> (Returned (Inl err), w)
              | Inr msg \<Rightarrow> keygen_loop m T E prep protocolId idMap evs (step (Updated msg) w)))
      | Some (TssP2PMsg_ProcessErrorMsg errMsg) \<Rightarrow>
          (let (_, w) = mark_error m E prep w
           in (Returned (Inr (kgf_failed (pem_ErrorMsg errMsg))), w))
      | _ \<Rightarrow> (Returned (Inl (Errorf ''invalid p2pMsgType'')), w))"
| "keygen_loop m T E prep protocolId idMap (OutCh msg # evs) w =
     (case om_WireBytes msg of
        Inl err \<Rightarrow> (Returned (Inl err), w)
      | Inr msgWireBytes \<Rightarrow>
          (let self = PartyID_GetId (Some (m_LocalPartyId m)) in
           case send_updates True E protocolId (update_msg self msgWireBytes msg)
               (recipients self (kgp_AllPartyId prep) msg) w of
             (Some err, w) \<Rightarrow> (Returned (Inl err), w)
           | (None, w) \<Rightarrow> keygen_loop m T E prep protocolId idMap evs w))"
| "keygen_loop m T E prep protocolId idMap (EndCh saveData # evs) w = keygen_end m T E prep saveData w"
| "keygen_loop m T E prep protocolId idMap (ErrCh err # evs) w = (Returned (Inl err), w)"

definition handleKeyGen0 ::
    "'s Manager \<Rightarrow> ('pre, 'sd, 'pm, 'pk) TssLib \<Rightarrow> 's env \<Rightarrow> KeyGenPrepareMsg \<Rightarrow> string
     \<Rightarrow> 'sd lib_event list \<Rightarrow> ('s, 'pm) world \<Rightarrow> (error + KeyGenFinishMsg) outcome \<times> ('s, 'pm) world" where
  "handleKeyGen0 m T E prep protocolId evs w =
     (case keygen_step1 m E prep w of
        (Returned (Inr _), w) \<Rightarrow>
          (case keygen_step2 m T prep w of
             (Returned (Inr idMap), w) \<Rightarrow> keygen_loop m T E prep protocolId idMap evs w
           | (Returned (Inl err), w) \<Rightarrow> (Returned (Inl err), w)
           | (Panicked msg, w) \<Rightarrow> (Panicked msg, w)
           | (Waiting, w) \<Rightarrow> (Waiting, w))
      | (Returned (Inl err), w) \<Rightarrow> (Returned (Inl err), w)
      | (Panicked msg, w) \<Rightarrow> (Panicked msg, w)
      | (Waiting, w) \<Rightarrow> (Waiting, w))"

section \<open>\<open>handleKeyGen\<close>\<close>

text \<open>The error message to the other parties; a stream on which sending failed is not closed.\<close>

fun notify_parties ::
    "'s env \<Rightarrow> string \<Rightarrow> string \<Rightarrow> error \<Rightarrow> PartyID list \<Rightarrow> ('s, 'pm) world \<Rightarrow> ('s, 'pm) world" where
  "notify_parties E self protocolId keyGen0Err [] w = w"
| "notify_parties E self protocolId keyGen0Err (p # ps) w =
     notify_parties E self protocolId keyGen0Err ps
       (if PartyID_GetId (Some p) \<noteq> self then
          (case new_stream E (pid_Id p) protocolId w of
             (Some err, w) \<Rightarrow> w
           | (None, w) \<Rightarrow>
             (case send_session E (pid_Id p)
                 (TssP2PMsg_ProcessErrorMsg \<lparr>pem_ErrorMsg = err_text keyGen0Err\<rparr>) w of
                (Some err, w) \<Rightarrow> w
              | (None, w) \<Rightarrow> snd (close_session E (pid_Id p) w)))
        else w)"

definition keygen_protocol :: "string \<Rightarrow> string" where
  "keygen_protocol sessionId = ''/tss/keyGen/session/'' @ sessionId"

text \<open>The first message, or why it is not a prepare message.\<close>

definition keygen_prepare ::
    "'s env \<Rightarrow> ('s, 'pm) world \<Rightarrow> (error + KeyGenPrepareMsg) option \<times> ('s, 'pm) world" where
  "keygen_prepare E w =
     (case recv_main E w of
        (None, w) \<Rightarrow> (None, w)
      | (Some (Inl err), w) \<Rightarrow> (Some (Inl err), w)
      | (Some (Inr p2pMsg), w) \<Rightarrow>
        (case GetKeyGenPrepareMsg (Some p2pMsg) of
           None \<Rightarrow> (Some (Inl (invalid_type E p2pMsg)), w)
         | Some prep \<Rightarrow> (Some (Inr prep), w)))"

definition handleKeyGen ::
    "'s Manager \<Rightarrow> ('pre, 'sd, 'pm, 'pk) TssLib \<Rightarrow> 's env \<Rightarrow> 'sd lib_event list \<Rightarrow> ('s, 'pm) world
     \<Rightarrow> unit outcome \<times> ('s, 'pm) world" where
  "handleKeyGen m T E evs w =
     (case keygen_prepare E w of
        (None, w) \<Rightarrow> (Waiting, w)
      | (Some (Inl err), w) \<Rightarrow>
          (let (_, w) = send_main E (TssP2PMsg_KeyGenFinishMsg (kgf_failed (err_text err))) w
           in (Returned (), w))
      | (Some (Inr prep), w) \<Rightarrow>
          (let protocolId = keygen_protocol (kgp_SessionId prep);
               w = set_handler protocolId (KeyGenSessionHandler (kgp_SessionId prep)) w
           in case handleKeyGen0 m T E prep protocolId evs w of
                (Waiting, w) \<Rightarrow> (Waiting, w)
              | (Panicked msg, w) \<Rightarrow> (Panicked msg, remove_handler protocolId w)
              | (Returned (Inl keyGen0Err), w) \<Rightarrow>
                  (let (_, w) = mark_error m E prep w;
                       w = notify_parties E (PartyID_GetId (Some (m_LocalPartyId m))) protocolId
                             keyGen0Err (kgp_AllPartyId prep) w;
                       (_, w) = send_main E
                         (TssP2PMsg_KeyGenFinishMsg (kgf_failed (err_text keyGen0Err))) w
                   in (Returned (), remove_handler protocolId w))
              | (Returned (Inr finishMsg), w) \<Rightarrow>
                  (let (_, w) = send_main E (TssP2PMsg_KeyGenFinishMsg finishMsg) w
                   in (Returned (), remove_handler protocolId w))))"

section \<open>What each step writes to the coordinator and leaves registered\<close>

abbreviation kg_ready :: TssP2PMsg where
  "kg_ready \<equiv> p2p_msg (TssP2PMsg_KeyGenReadyMsg KeyGenReadyMsg)"

abbreviation kg_finish :: "KeyGenFinishMsg \<Rightarrow> TssP2PMsg" where
  "kg_finish f \<equiv> p2p_msg (TssP2PMsg_KeyGenFinishMsg f)"

lemma mark_error_eq: "mark_error m E prep w = (r, w') \<Longrightarrow> main_msgs w' = main_msgs w \<and>
    w_handlers w' = w_handlers w"
  unfolding mark_error_def by (drule access_eq) simp

lemma notify_parties_eq: "main_msgs (notify_parties E self p e ps w) = main_msgs w \<and>
    w_handlers (notify_parties E self p e ps w) = w_handlers w \<and>
    w_store (notify_parties E self p e ps w) = w_store w"
  by (induction ps arbitrary: w) (auto simp: call_defs split: option.splits)

lemma keygen_prepare_eq: "keygen_prepare E w = (r, w') \<Longrightarrow> main_msgs w' = main_msgs w \<and>
    w_handlers w' = w_handlers w \<and> w_store w' = w_store w"
  by (auto simp: keygen_prepare_def recv_main_def split: option.splits sum.splits)

lemma keygen_step1_msgs:
  assumes "keygen_step1 m E prep w = (r, w')"
  shows "w_handlers w' = w_handlers w \<and>
    (main_msgs w' = main_msgs w \<and> r \<notin> {Waiting, Returned (Inr ())} \<or>
     main_msgs w' = main_msgs w @ [kg_ready])"
proof -
  let ?op = "OpKeyGen (kgp_KeyId prep) (kgp_SessionId prep) (kgp_Threshold prep) (kgp_AllPartyId prep)
    (Some (e_now E (w_tick w)))"
  obtain e1 w1 where 1: "access (m_localStorage m) E ?op w = (e1, w1)" by fastforce
  obtain e2 w2 where 2: "send_main E (TssP2PMsg_KeyGenReadyMsg KeyGenReadyMsg) w1 = (e2, w2)" by fastforce
  obtain e3 w3 where 3: "recv_main E w2 = (e3, w3)" by fastforce
  note eqs = access_eq [OF 1] send_main_eq [OF 2] recv_main_eq [OF 3]
  show ?thesis
    using assms 1 2 3 eqs
    by (auto simp: keygen_step1_def Let_def split: option.splits sum.splits if_splits)
qed

lemma keygen_step2_msgs: "keygen_step2 m T prep w = (r, w') \<Longrightarrow>
    main_msgs w' = main_msgs w \<and> w_handlers w' = w_handlers w \<and> w_store w' = w_store w"
  by (auto simp: keygen_step2_def Let_def split: option.splits prod.splits)

lemma keygen_end_msgs: "keygen_end m T E prep sd w = (r, w') \<Longrightarrow>
    main_msgs w' = main_msgs w \<and> w_handlers w' = w_handlers w"
  by (auto simp: keygen_end_def split: sum.splits outcome.splits option.splits prod.splits
      dest!: access_eq)

lemma keygen_loop_msgs: "keygen_loop m T E prep pr ids evs w = (r, w') \<Longrightarrow>
    main_msgs w' = main_msgs w \<and> w_handlers w' = w_handlers w"
proof (induction evs arbitrary: w)
  case (Cons ev evs)
  show ?case
  proof (cases ev)
    case CtxDone
    with Cons.prems show ?thesis by simp
  next
    case (ProcessMsg msg)
    with Cons.prems show ?thesis
      by (auto split: option.splits MsgType.splits sum.splits prod.splits dest!: Cons.IH mark_error_eq)
  next
    case (OutCh msg)
    with Cons.prems show ?thesis
      by (auto simp: Let_def split: sum.splits option.splits prod.splits
          dest!: Cons.IH send_updates_eq)
  next
    case (EndCh sd)
    with Cons.prems show ?thesis by (auto dest!: keygen_end_msgs)
  next
    case (ErrCh err)
    with Cons.prems show ?thesis by simp
  qed
qed simp

lemma handleKeyGen0_msgs:
  assumes "handleKeyGen0 m T E prep pr evs w = (r, w')"
  shows "w_handlers w' = w_handlers w \<and>
    (main_msgs w' = main_msgs w \<and> (\<exists>err. r = Returned (Inl err)) \<or>
     main_msgs w' = main_msgs w @ [kg_ready])"
proof -
  obtain r1 w1 where 1: "keygen_step1 m E prep w = (r1, w1)" by fastforce
  obtain r2 w2 where 2: "keygen_step2 m T prep w1 = (r2, w2)" by fastforce
  note eqs = keygen_step1_msgs [OF 1] keygen_step2_msgs [OF 2]
  have nop: "r1 \<noteq> Panicked x" for x
    using 1 by (auto simp: keygen_step1_def Let_def split: option.splits sum.splits if_splits prod.splits)
  show ?thesis
  proof (cases "r1 = Returned (Inr ())")
    case True
    show ?thesis
    proof (cases "\<exists>ids. r2 = Returned (Inr ids)")
      case True
      then obtain ids where "r2 = Returned (Inr ids)" by blast
      with assms 1 2 \<open>r1 = Returned (Inr ())\<close> have "keygen_loop m T E prep pr ids evs w2 = (r, w')"
        by (simp add: handleKeyGen0_def)
      from keygen_loop_msgs [OF this] eqs \<open>r1 = Returned (Inr ())\<close> show ?thesis by auto
    next
      case False
      with assms 1 2 \<open>r1 = Returned (Inr ())\<close> have "w' = w2"
        by (auto simp: handleKeyGen0_def split: outcome.splits sum.splits)
      with eqs \<open>r1 = Returned (Inr ())\<close> show ?thesis by auto
    qed
  next
    case False
    with assms 1 nop have "w' = w1 \<and> (r = Waiting \<and> r1 = Waiting \<or> (\<exists>e. r = Returned (Inl e)))"
      by (auto simp: handleKeyGen0_def split: outcome.splits sum.splits unit.splits)
    with eqs show ?thesis by auto
  qed
qed

text \<open>
  A run by its phases: no message, a first message that is not a prepare message, or a run of
  \<open>handleKeyGen0\<close> and one of its four endings.
\<close>

lemma handleKeyGen_cases:
  assumes "handleKeyGen m T E evs w = (r, w')"
  obtains (wait) w1 where "keygen_prepare E w = (None, w1)" "r = Waiting" "w' = w1"
  | (bad) err e w1 where "keygen_prepare E w = (Some (Inl err), w1)" "r = Returned ()"
      "send_main E (TssP2PMsg_KeyGenFinishMsg (kgf_failed (err_text err))) w1 = (e, w')"
  | (pending) prep w1 w2 where "keygen_prepare E w = (Some (Inr prep), w1)"
      "handleKeyGen0 m T E prep (keygen_protocol (kgp_SessionId prep)) evs
        (set_handler (keygen_protocol (kgp_SessionId prep)) (KeyGenSessionHandler (kgp_SessionId prep)) w1)
        = (Waiting, w2)" "r = Waiting" "w' = w2"
  | (crash) prep msg w1 w2 where "keygen_prepare E w = (Some (Inr prep), w1)"
      "handleKeyGen0 m T E prep (keygen_protocol (kgp_SessionId prep)) evs
        (set_handler (keygen_protocol (kgp_SessionId prep)) (KeyGenSessionHandler (kgp_SessionId prep)) w1)
        = (Panicked msg, w2)" "r = Panicked msg"
      "w' = remove_handler (keygen_protocol (kgp_SessionId prep)) w2"
  | (failed) prep err w1 w2 e3 w3 e5 w5 where "keygen_prepare E w = (Some (Inr prep), w1)"
      "handleKeyGen0 m T E prep (keygen_protocol (kgp_SessionId prep)) evs
        (set_handler (keygen_protocol (kgp_SessionId prep)) (KeyGenSessionHandler (kgp_SessionId prep)) w1)
        = (Returned (Inl err), w2)" "mark_error m E prep w2 = (e3, w3)"
      "send_main E (TssP2PMsg_KeyGenFinishMsg (kgf_failed (err_text err)))
        (notify_parties E (PartyID_GetId (Some (m_LocalPartyId m))) (keygen_protocol (kgp_SessionId prep))
          err (kgp_AllPartyId prep) w3) = (e5, w5)" "r = Returned ()"
      "w' = remove_handler (keygen_protocol (kgp_SessionId prep)) w5"
  | (finished) prep f w1 w2 e3 w3 where "keygen_prepare E w = (Some (Inr prep), w1)"
      "handleKeyGen0 m T E prep (keygen_protocol (kgp_SessionId prep)) evs
        (set_handler (keygen_protocol (kgp_SessionId prep)) (KeyGenSessionHandler (kgp_SessionId prep)) w1)
        = (Returned (Inr f), w2)" "send_main E (TssP2PMsg_KeyGenFinishMsg f) w2 = (e3, w3)"
      "r = Returned ()" "w' = remove_handler (keygen_protocol (kgp_SessionId prep)) w3"
proof -
  obtain p w1 where p: "keygen_prepare E w = (p, w1)" by fastforce
  show ?thesis
  proof (cases p)
    case None
    with p assms show ?thesis by (intro wait) (auto simp: handleKeyGen_def)
  next
    case (Some x)
    show ?thesis
    proof (cases x)
      case (Inl err)
      obtain e w2 where 2: "send_main E (TssP2PMsg_KeyGenFinishMsg (kgf_failed (err_text err))) w1 =
        (e, w2)" by fastforce
      with p Some Inl assms show ?thesis
        by (intro bad [of err w1 e]) (auto simp: handleKeyGen_def)
    next
      case (Inr prep)
      let ?p = "keygen_protocol (kgp_SessionId prep)"
      obtain r2 w2 where 2: "handleKeyGen0 m T E prep ?p evs
        (set_handler ?p (KeyGenSessionHandler (kgp_SessionId prep)) w1) = (r2, w2)" by fastforce
      note def = p [unfolded Some Inr] 2
      show ?thesis
      proof (cases r2)
        case Waiting
        with def assms show ?thesis
          by (intro pending [OF def(1)]) (auto simp: handleKeyGen_def Let_def)
      next
        case (Panicked msg)
        with def assms show ?thesis
          by (intro crash [OF def(1)]) (auto simp: handleKeyGen_def Let_def)
      next
        case (Returned y)
        show ?thesis
        proof (cases y)
          case (Inl err)
          obtain e3 w3 where 3: "mark_error m E prep w2 = (e3, w3)" by fastforce
          obtain e5 w5 where 5: "send_main E (TssP2PMsg_KeyGenFinishMsg (kgf_failed (err_text err)))
            (notify_parties E (PartyID_GetId (Some (m_LocalPartyId m))) ?p err (kgp_AllPartyId prep) w3)
            = (e5, w5)" by fastforce
          from Returned Inl def 3 5 assms show ?thesis
            by (intro failed [OF def(1) _ 3 5]) (auto simp: handleKeyGen_def Let_def)
        next
          case (Inr f)
          obtain e3 w3 where 3: "send_main E (TssP2PMsg_KeyGenFinishMsg f) w2 = (e3, w3)" by fastforce
          from Returned Inr def 3 assms show ?thesis
            by (intro finished [OF def(1) _ 3]) (auto simp: handleKeyGen_def Let_def)
        qed
      qed
    qed
  qed
qed

lemma handleKeyGen_msgs:
  assumes "handleKeyGen m T E evs w = (Returned (), w')"
  shows "\<exists>f. main_msgs w' = main_msgs w @ [kg_finish f] \<and> \<not> kgf_IsSuccess f \<or>
    main_msgs w' = main_msgs w @ [kg_ready, kg_finish f]"
  using assms
proof (cases rule: handleKeyGen_cases)
  case (bad err e w1)
  with keygen_prepare_eq [OF bad(1)] send_main_eq [OF bad(3)] show ?thesis
    by (auto simp: kgf_failed_def)
next
  case (failed prep err w1 w2 e3 w3 e5 w5)
  with keygen_prepare_eq [OF failed(1)] handleKeyGen0_msgs [OF failed(2)] mark_error_eq [OF failed(3)]
    send_main_eq [OF failed(4)] show ?thesis
    by (auto simp: notify_parties_eq kgf_failed_def)
next
  case (finished prep f w1 w2 e3 w3)
  with keygen_prepare_eq [OF finished(1)] handleKeyGen0_msgs [OF finished(2)] send_main_eq [OF finished(3)]
  show ?thesis by auto
qed simp_all

lemma handleKeyGen_handlers:
  assumes "handleKeyGen m T E evs w = (r, w')" and "r \<noteq> Waiting"
  shows "case keygen_prepare E w of
     (Some (Inr prep), w1) \<Rightarrow>
       w_handlers w' = (w_handlers w)(keygen_protocol (kgp_SessionId prep) := None)
   | (p, w1) \<Rightarrow> w_handlers w' = w_handlers w"
  using assms(1)
proof (cases rule: handleKeyGen_cases)
  case (bad err e w1)
  with keygen_prepare_eq [OF bad(1)] send_main_eq [OF bad(3)] show ?thesis by simp
next
  case (crash prep msg w1 w2)
  with keygen_prepare_eq [OF crash(1)] handleKeyGen0_msgs [OF crash(2)] show ?thesis by auto
next
  case (failed prep err w1 w2 e3 w3 e5 w5)
  with keygen_prepare_eq [OF failed(1)] handleKeyGen0_msgs [OF failed(2)] mark_error_eq [OF failed(3)]
    send_main_eq [OF failed(4)] show ?thesis
    by (auto simp: notify_parties_eq)
next
  case (finished prep f w1 w2 e3 w3)
  with keygen_prepare_eq [OF finished(1)] handleKeyGen0_msgs [OF finished(2)] send_main_eq [OF finished(3)]
  show ?thesis by auto
qed (use assms(2) in simp_all)

text \<open>The ready message goes out only after the validator accepted the parties.\<close>

lemma keygen_step1_vetted:
  assumes "keygen_step1 m E prep w = (r, w')" and "main_msgs w' \<noteq> main_msgs w" and "\<not> m_dev m"
  shows "\<exists>now. v_KeyGenValidate (m_validator m) now (kgp_KeyId prep) (kgp_Threshold prep)
    (kgp_AllPartyId prep) = None"
proof -
  let ?op = "OpKeyGen (kgp_KeyId prep) (kgp_SessionId prep) (kgp_Threshold prep) (kgp_AllPartyId prep)
    (Some (e_now E (w_tick w)))"
  obtain e1 w1 where 1: "access (m_localStorage m) E ?op w = (e1, w1)" by fastforce
  show ?thesis
    using assms access_eq [OF 1] 1 by (auto simp: keygen_step1_def Let_def split: option.splits)
qed

lemma handleKeyGen0_vetted:
  assumes "handleKeyGen0 m T E prep pr evs w = (r, w')" and "main_msgs w' \<noteq> main_msgs w"
    and "\<not> m_dev m"
  shows "\<exists>now. v_KeyGenValidate (m_validator m) now (kgp_KeyId prep) (kgp_Threshold prep)
    (kgp_AllPartyId prep) = None"
proof -
  obtain r1 w1 where 1: "keygen_step1 m E prep w = (r1, w1)" by fastforce
  have "w' = w1" if "main_msgs w1 = main_msgs w"
  proof -
    from that keygen_step1_msgs [OF 1] have "r1 \<noteq> Returned (Inr ())" by auto
    with assms(1) 1 show ?thesis by (auto simp: handleKeyGen0_def split: outcome.splits sum.splits)
  qed
  with assms(2) have "main_msgs w1 \<noteq> main_msgs w" by blast
  with keygen_step1_vetted [OF 1 _ assms(3)] show ?thesis by blast
qed

lemma handleKeyGen_vetted:
  assumes "keygen_prepare E w = (Some (Inr prep), w1)" and "handleKeyGen m T E evs w = (r, w')"
    and "kg_ready \<in> set (main_msgs w')" and "kg_ready \<notin> set (main_msgs w)" and "\<not> m_dev m"
  shows "\<exists>now. v_KeyGenValidate (m_validator m) now (kgp_KeyId prep) (kgp_Threshold prep)
    (kgp_AllPartyId prep) = None"
proof -
  let ?p = "keygen_protocol (kgp_SessionId prep)"
  let ?w1 = "set_handler ?p (KeyGenSessionHandler (kgp_SessionId prep)) w1"
  have m1: "main_msgs ?w1 = main_msgs w" using keygen_prepare_eq [OF assms(1)] by simp
  obtain r2 w2 where 2: "handleKeyGen0 m T E prep ?p evs ?w1 = (r2, w2)" by fastforce
  have "main_msgs w2 \<noteq> main_msgs ?w1"
    using assms(2)
  proof (cases rule: handleKeyGen_cases)
    case (failed prep' err w1' w2' e3 w3 e5 w5)
    with assms(1) 2 have "w2' = w2" by simp
    with failed(6) send_main_eq [OF failed(4)] mark_error_eq [OF failed(3)]
    have "main_msgs w' = main_msgs w2 @ [kg_finish (kgf_failed (err_text err))]"
      by (simp add: notify_parties_eq)
    with assms(3,4) m1 show ?thesis by auto
  next
    case (finished prep' f w1' w2' e3 w3)
    with assms(1) 2 have "w2' = w2" by simp
    with finished(5) send_main_eq [OF finished(3)]
    have "main_msgs w' = main_msgs w2 @ [kg_finish f]" by simp
    with assms(3,4) m1 show ?thesis by auto
  qed (use assms m1 2 in auto)
  from handleKeyGen0_vetted [OF 2 this assms(5)] show ?thesis .
qed

section \<open>What a run does to the store\<close>

text \<open>
  The other goroutines of the node only run handler operations; a stored record can be encoded
  again with another status, times and public key and without saved data.
\<close>

definition others_ok :: "'s LocalStorage \<Rightarrow> 's env \<Rightarrow> bool" where
  "others_ok ls E \<longleftrightarrow> (\<forall>n s. \<exists>ops. store_run ls s ops (e_other E n s))"

definition same_strings :: "KeyData \<Rightarrow> KeyData \<Rightarrow> bool" where
  "same_strings d d' \<longleftrightarrow> kd_KeyId d' = kd_KeyId d \<and> kd_KeySessionId d' = kd_KeySessionId d \<and>
     kd_AllPartyId d' = kd_AllPartyId d \<and> kd_SaveDataJson d' = []"

definition reencodes :: "KeyDataCodec \<Rightarrow> bool" where
  "reencodes C \<longleftrightarrow> (\<forall>bs d d'. pb_Unmarshal C bs = Inr d \<longrightarrow> same_strings d d' \<longrightarrow>
     (\<exists>bs'. pb_Marshal C d' = Inr bs'))"

context local_storage
begin

definition rewritable :: bool where
  "rewritable \<longleftrightarrow> (\<forall>s r d d'. ls_inv s \<longrightarrow> rows s r = Some d \<longrightarrow> same_strings d d' \<longrightarrow> storable d')"

lemma access_inv:
  assumes "ls_inv (w_store w)" and "others_ok ls E" and "handler_op op"
    and "access ls E op w = (e, w')"
  shows "ls_inv (w_store w')"
proof -
  obtain ops where "store_run ls (w_store w) ops (e_other E (w_tick w) (w_store w))"
    using assms(2) by (auto simp: others_ok_def)
  then have "ls_inv (e_other E (w_tick w) (w_store w))" using assms(1) by (rule run_inv)
  with op_rows(1) [OF _ assms(3)] access_eq [OF assms(4)] show ?thesis by blast
qed

lemma mark_error_inv:
  "ls_inv (w_store w) \<Longrightarrow> others_ok ls E \<Longrightarrow> m_localStorage m = ls \<Longrightarrow>
     mark_error m E prep w = (e, w') \<Longrightarrow> ls_inv (w_store w')"
  unfolding mark_error_def by (erule access_inv) auto

lemma keygen_step1_inv:
  assumes "ls_inv (w_store w)" and "others_ok ls E" and "m_localStorage m = ls"
    and "keygen_step1 m E prep w = (r, w')"
  shows "ls_inv (w_store w')"
proof -
  let ?op = "OpKeyGen (kgp_KeyId prep) (kgp_SessionId prep) (kgp_Threshold prep) (kgp_AllPartyId prep)
    (Some (e_now E (w_tick w)))"
  obtain e1 w1 where 1: "access ls E ?op w = (e1, w1)" by fastforce
  obtain e2 w2 where 2: "send_main E (TssP2PMsg_KeyGenReadyMsg KeyGenReadyMsg) w1 = (e2, w2)" by fastforce
  obtain e3 w3 where 3: "recv_main E w2 = (e3, w3)" by fastforce
  have "ls_inv (w_store w1)" by (rule access_inv [OF assms(1,2) _ 1]) simp
  with send_main_eq [OF 2] recv_main_eq [OF 3] assms(3,4) 1 2 3 show ?thesis
    by (auto simp: keygen_step1_def Let_def split: option.splits sum.splits if_splits)
qed

text \<open>A first step that succeeds leaves the session's record pending.\<close>

lemma keygen_step1_row:
  assumes "ls_inv (w_store w)" and "others_ok ls E" and "m_localStorage m = ls"
    and "keygen_step1 m E prep w = (Returned (Inr ()), w')"
  shows "rows (w_store w') (row_key (kgp_KeyId prep) (kgp_SessionId prep)) =
    Some (pendingKeyData (kgp_KeyId prep) (kgp_SessionId prep) (kgp_Threshold prep)
      (kgp_AllPartyId prep) (Some (e_now E (w_tick w))))"
proof -
  let ?op = "OpKeyGen (kgp_KeyId prep) (kgp_SessionId prep) (kgp_Threshold prep) (kgp_AllPartyId prep)
    (Some (e_now E (w_tick w)))"
  obtain e1 w1 where 1: "access ls E ?op w = (e1, w1)" by fastforce
  obtain e2 w2 where 2: "send_main E (TssP2PMsg_KeyGenReadyMsg KeyGenReadyMsg) w1 = (e2, w2)" by fastforce
  obtain e3 w3 where 3: "recv_main E w2 = (e3, w3)" by fastforce
  have e: "e1 = None" and w: "w' = w3"
    using assms(3,4) 1 2 3
    by (auto simp: keygen_step1_def Let_def split: option.splits sum.splits if_splits)
  let ?s = "e_other E (w_tick w) (w_store w)"
  obtain ops where "store_run ls (w_store w) ops ?s" using assms(2) by (auto simp: others_ok_def)
  then have inv': "ls_inv ?s" using assms(1) by (rule run_inv)
  from access_eq [OF 1] e have "checkAndSetKeyGenStorage ls (kgp_KeyId prep) (kgp_SessionId prep)
    (kgp_Threshold prep) (kgp_AllPartyId prep) (Some (e_now E (w_tick w))) ?s = (None, w_store w1)"
    by simp
  from keygen_cases [OF inv' this] send_main_eq [OF 2] recv_main_eq [OF 3] w show ?thesis by auto
qed

lemma keygen_end_inv:
  assumes "ls_inv (w_store w)" and "others_ok ls E" and "m_localStorage m = ls"
    and "keygen_end m T E prep sd w = (r, w')"
  shows "ls_inv (w_store w')"
proof -
  have "ls_inv (w_store w2)" if "access ls E (OpStatus k sid pk KEY_STATUS_PENDING KEY_STATUS_READY js u) w
    = (e, w2)" for e w2 k sid pk js u
    by (rule access_inv [OF assms(1,2) _ that]) simp
  with assms show ?thesis
    by (auto simp: keygen_end_def split: sum.splits outcome.splits option.splits prod.splits)
qed

lemma keygen_loop_inv:
  assumes "others_ok ls E" and "m_localStorage m = ls"
  shows "ls_inv (w_store w) \<Longrightarrow> keygen_loop m T E prep pr ids evs w = (r, w') \<Longrightarrow> ls_inv (w_store w')"
proof (induction evs arbitrary: w)
  case (Cons ev evs)
  show ?case
  proof (cases ev)
    case CtxDone
    with Cons.prems show ?thesis by simp
  next
    case (ProcessMsg msg)
    have upd: "ls_inv (w_store w')"
      if "keygen_loop m T E prep pr ids evs (step (Updated pm) w) = (r, w')" for pm
      using Cons.IH [OF _ that] Cons.prems(1) by simp
    from ProcessMsg Cons.prems mark_error_inv [OF Cons.prems(1) assms] show ?thesis
      by (auto split: option.splits MsgType.splits sum.splits prod.splits intro: upd)
  next
    case (OutCh msg)
    have more: "ls_inv (w_store w')"
      if "send_updates True E pr mm ps w = (e, w2)" "keygen_loop m T E prep pr ids evs w2 = (r, w')"
      for mm ps e w2
      using Cons.IH [OF _ that(2)] send_updates_eq [OF that(1)] Cons.prems(1) by simp
    from OutCh Cons.prems show ?thesis
      by (auto simp: Let_def split: sum.splits option.splits prod.splits
          dest: more send_updates_eq)
  next
    case (EndCh sd)
    with Cons.prems keygen_end_inv [OF Cons.prems(1) assms] show ?thesis by simp
  next
    case (ErrCh err)
    with Cons.prems show ?thesis by simp
  qed
qed simp

lemma handleKeyGen0_inv:
  assumes "ls_inv (w_store w)" and "others_ok ls E" and "m_localStorage m = ls"
    and "handleKeyGen0 m T E prep pr evs w = (r, w')"
  shows "ls_inv (w_store w')"
proof -
  obtain r1 w1 where 1: "keygen_step1 m E prep w = (r1, w1)" by fastforce
  obtain r2 w2 where 2: "keygen_step2 m T prep w1 = (r2, w2)" by fastforce
  have "ls_inv (w_store w2)"
    using keygen_step1_inv [OF assms(1-3) 1] keygen_step2_msgs [OF 2] by simp
  with keygen_step1_inv [OF assms(1-3) 1] assms 1 2 show ?thesis
    by (auto simp: handleKeyGen0_def split: outcome.splits sum.splits
        intro: keygen_loop_inv [OF assms(2,3)])
qed

text \<open>After the handler has tried to mark its record as an error, the record is not pending.\<close>

lemma mark_error_ends:
  assumes inv: "ls_inv (w_store w)" and oth: "others_ok ls E" and m: "m_localStorage m = ls"
    and enc: rewritable
    and r: "mark_error m E prep w = (e, w')"
    and d: "rows (w_store w') (row_key (kgp_KeyId prep) (kgp_SessionId prep)) = Some d"
  shows "kd_Status d \<noteq> KEY_STATUS_PENDING"
proof
  assume pend: "kd_Status d = KEY_STATUS_PENDING"
  let ?r = "row_key (kgp_KeyId prep) (kgp_SessionId prep)"
  let ?s = "e_other E (w_tick w) (w_store w)"
  obtain ops where "store_run ls (w_store w) ops ?s" using oth by (auto simp: others_ok_def)
  then have inv': "ls_inv ?s" using inv by (rule run_inv)
  let ?now = "Some (e_now E (w_tick w))"
  from r m have cas: "compareAndSetKeyStatusStorage ls (kgp_KeyId prep) (kgp_SessionId prep) []
      KEY_STATUS_PENDING KEY_STATUS_ERROR [] ?now ?s = (e, w_store w')"
    unfolding mark_error_def by (auto dest!: access_eq)
  from cas_cases [OF inv' cas] show False
  proof (elim disjE conjE exE)
    assume err: "e \<noteq> None" and s: "w_store w' = ?s"
    with d have row: "rows ?s ?r = Some d" by simp
    let ?d = "d\<lparr>kd_Status := KEY_STATUS_ERROR, kd_SaveDataJson := [], kd_UpdatedTime := ?now, kd_Pubkey := []\<rparr>"
    have "same_strings d ?d" by (simp add: same_strings_def)
    with enc inv' row have "storable ?d" unfolding rewritable_def by blast
    from set_ok [OF inv' this] cas get_one [OF inv'] row pend err show False
      by (auto simp: compareAndSetKeyStatusStorage_def)
  qed (use d pend in auto)
qed

lemma mark_error_pending:
  assumes inv: "ls_inv (e_other E (w_tick w) (w_store w))" and m: "m_localStorage m = ls"
    and enc: rewritable and r: "mark_error m E prep w = (e, w')"
    and d: "rows (e_other E (w_tick w) (w_store w)) (row_key (kgp_KeyId prep) (kgp_SessionId prep)) = Some d"
      "kd_Status d = KEY_STATUS_PENDING"
  shows "ls_inv (w_store w') \<and> (\<exists>d'. rows (w_store w') (row_key (kgp_KeyId prep) (kgp_SessionId prep)) = Some d' \<and>
    kd_Status d' = KEY_STATUS_ERROR)"
proof -
  let ?s = "e_other E (w_tick w) (w_store w)" and ?now = "Some (e_now E (w_tick w))"
  let ?d = "d\<lparr>kd_Status := KEY_STATUS_ERROR, kd_SaveDataJson := [], kd_UpdatedTime := ?now, kd_Pubkey := []\<rparr>"
  have "same_strings d ?d" by (simp add: same_strings_def)
  with enc inv d have "storable ?d" unfolding rewritable_def by blast
  from set_ok [OF inv this] obtain s' where s': "ls_SetKeyData ls ?s ?d = (None, s')" "ls_inv s'"
    "rows s' = (rows ?s)(row_of ?d \<mapsto> ?d)" by blast
  from rows_row [OF inv d(1)] have key: "row_of ?d = row_key (kgp_KeyId prep) (kgp_SessionId prep)" by simp
  from r m have "compareAndSetKeyStatusStorage ls (kgp_KeyId prep) (kgp_SessionId prep) []
      KEY_STATUS_PENDING KEY_STATUS_ERROR [] ?now ?s = (e, w_store w')"
    unfolding mark_error_def by (auto dest!: access_eq)
  then have "w_store w' = s'"
    using s'(1) get_one [OF inv] d by (simp add: compareAndSetKeyStatusStorage_def)
  with s' key show ?thesis by simp
qed

text \<open>A prepare message for a record that is pending is refused.\<close>

lemma keygen_step1_refused:
  assumes "ls_inv (e_other E (w_tick w) (w_store w))" and "m_localStorage m = ls"
    and "rows (e_other E (w_tick w) (w_store w)) (row_key (kgp_KeyId prep) (kgp_SessionId prep)) = Some d"
    and "live d"
  shows "\<exists>err w'. keygen_step1 m E prep w = (Returned (Inl err), w') \<and>
    w_store w' = e_other E (w_tick w) (w_store w) \<and> main_msgs w' = main_msgs w"
proof -
  from own_row [OF assms(3,1)] have "d \<in> key_rows (e_other E (w_tick w) (w_store w)) (kgp_KeyId prep)" .
  from keygen_refused [OF assms(1) this assms(4)] obtain e where
    "checkAndSetKeyGenStorage ls (kgp_KeyId prep) (kgp_SessionId prep) (kgp_Threshold prep)
      (kgp_AllPartyId prep) (Some (e_now E (w_tick w))) (e_other E (w_tick w) (w_store w)) =
      (Some e, e_other E (w_tick w) (w_store w))" by blast
  with assms(2) show ?thesis by (simp add: keygen_step1_def access_def Let_def)
qed

text \<open>A successful result of the loop means that the record is ready with the reported key.\<close>

lemma keygen_end_ready:
  assumes inv: "ls_inv (w_store w)" and oth: "others_ok ls E" and m: "m_localStorage m = ls"
    and r: "keygen_end m T E prep sd w = (Returned (Inr f), w')"
  shows "kgf_IsSuccess f \<and> (\<exists>d. rows (w_store w') (row_key (kgp_KeyId prep) (kgp_SessionId prep)) = Some d \<and>
    kd_Status d = KEY_STATUS_READY \<and> kd_Pubkey d = kgf_PublicKey f)"
proof -
  let ?s = "e_other E (w_tick w) (w_store w)"
  obtain ops where "store_run ls (w_store w) ops ?s" using oth by (auto simp: others_ok_def)
  then have inv': "ls_inv ?s" using inv by (rule run_inv)
  from r m obtain js pk where acc: "access ls E (OpStatus (kgp_KeyId prep) (kgp_SessionId prep)
      (SerializeCompressed T pk) KEY_STATUS_PENDING KEY_STATUS_READY js (Some (e_now E (w_tick w)))) w
      = (None, w')" and f: "f = \<lparr>kgf_IsSuccess = True, kgf_FailureReason = [],
        kgf_PublicKey = SerializeCompressed T pk\<rparr>"
    by (auto simp: keygen_end_def split: sum.splits outcome.splits option.splits prod.splits)
  from access_eq [OF acc] have "compareAndSetKeyStatusStorage ls (kgp_KeyId prep) (kgp_SessionId prep)
      (SerializeCompressed T pk) KEY_STATUS_PENDING KEY_STATUS_READY js (Some (e_now E (w_tick w))) ?s
      = (None, w_store w')" by simp
  from cas_cases [OF inv' this] f show ?thesis by auto
qed

lemma keygen_loop_result:
  assumes oth: "others_ok ls E" and m: "m_localStorage m = ls"
    and enc: rewritable
  shows "ls_inv (w_store w) \<Longrightarrow> keygen_loop m T E prep pr ids evs w = (Returned (Inr f), w') \<Longrightarrow>
    (if kgf_IsSuccess f
     then \<exists>d. rows (w_store w') (row_key (kgp_KeyId prep) (kgp_SessionId prep)) = Some d \<and>
       kd_Status d = KEY_STATUS_READY \<and> kd_Pubkey d = kgf_PublicKey f
     else \<forall>d. rows (w_store w') (row_key (kgp_KeyId prep) (kgp_SessionId prep)) = Some d \<longrightarrow>
       kd_Status d \<noteq> KEY_STATUS_PENDING)"
proof (induction evs arbitrary: w)
  case (Cons ev evs)
  show ?case
  proof (cases ev)
    case (ProcessMsg msg)
    show ?thesis
    proof (cases "\<exists>e. tp_MsgType msg = Some (TssP2PMsg_ProcessErrorMsg e)")
      case True
      then obtain e where e: "tp_MsgType msg = Some (TssP2PMsg_ProcessErrorMsg e)" by blast
      obtain err w2 where mark: "mark_error m E prep w = (err, w2)" by fastforce
      with Cons.prems ProcessMsg e have "w' = w2" "f = kgf_failed (pem_ErrorMsg e)" by simp_all
      with mark_error_ends [OF Cons.prems(1) oth m enc mark] show ?thesis
        by (auto simp: kgf_failed_def)
    next
      case False
      with Cons.prems ProcessMsg obtain pm where
        "keygen_loop m T E prep pr ids evs (step (Updated pm) w) = (Returned (Inr f), w')"
        by (auto split: option.splits MsgType.splits sum.splits prod.splits)
      with Cons.IH [OF _ this] Cons.prems(1) show ?thesis by simp
    qed
  next
    case (OutCh msg)
    obtain wire where wire: "om_WireBytes msg = Inr wire"
      using Cons.prems OutCh by (auto split: sum.splits)
    obtain e w2 where sent: "send_updates True E pr (update_msg (PartyID_GetId (Some (m_LocalPartyId m))) wire msg)
      (recipients (PartyID_GetId (Some (m_LocalPartyId m))) (kgp_AllPartyId prep) msg) w = (e, w2)" by fastforce
    with Cons.prems OutCh wire have "keygen_loop m T E prep pr ids evs w2 = (Returned (Inr f), w')"
      by (auto simp: Let_def split: option.splits)
    moreover have "ls_inv (w_store w2)" using send_updates_eq [OF sent] Cons.prems(1) by simp
    ultimately show ?thesis by (intro Cons.IH)
  next
    case (EndCh sd)
    with Cons.prems have "keygen_end m T E prep sd w = (Returned (Inr f), w')" by simp
    from keygen_end_ready [OF Cons.prems(1) oth m this] show ?thesis by simp
  qed (use Cons.prems in simp_all)
qed simp

end

end
