(* ===== verification/KeyGenProps.thy ===== *)
theory KeyGenProps
  imports KeyGenNode
begin

text \<open>
  The properties of a node's side of key generation: what it tells the coordinator agrees with
  its record, what it checks before it takes part, how it uses its streams and handlers, and what
  goes wrong when the pre-parameters fail or a session is announced twice.
\<close>

section \<open>A concrete node for the witnesses\<close>

definition DemoTss :: "(unit, string, bytes, bytes) TssLib" where
  "DemoTss = \<lparr>NewPartyID = (\<lambda>i m k. \<lparr>tpid_Id = i, tpid_Moniker = m, tpid_Key = nat_be k\<rparr>),
     SortPartyIDs = (\<lambda>ps. ps), GeneratePreParams = (\<lambda>_. (Some (), None)),
     ParseWireMessage = (\<lambda>b _ _. Inr b),
     NewSigningParty = (\<lambda>_ _ _ _ _. None), sd_json_Marshal = Inr, sd_json_Unmarshal = Inr,
     sd_ECDSAPub = (\<lambda>_. \<lparr>ep_X = 7, ep_Y = 3\<rparr>), IsOnCurve = (\<lambda>_ _. True),
     btcec_ParsePubKey = Inr, SerializeCompressed = (\<lambda>k. k)\<rparr>"

definition party :: "string \<Rightarrow> PartyID" where
  "party i = \<lparr>pid_Id = i, pid_Moniker = i, pid_Key = bytes_of i\<rparr>"

definition DemoManager :: "bool \<Rightarrow> memdb Manager" where
  "DemoManager dev = NewManager demoLS (party ''A'') (New DemoUnicode DemoHttp ''u'') dev"

definition demo_prepare :: KeyGenPrepareMsg where
  "demo_prepare = \<lparr>kgp_SessionId = ''s'', kgp_KeyId = ''k'', kgp_Threshold = 1,
     kgp_AllPartyId = [party ''A'', party ''B''],
     kgp_Deadline = Some \<lparr>ts_Seconds = 600, ts_Nanos = 0\<rparr>\<rparr>"

definition DemoEnv :: "KeyGenPrepareMsg \<Rightarrow> memdb env" where
  "DemoEnv prep = \<lparr>e_recv = (\<lambda>n. Some (Inr (p2p_msg (if n = 0 then TssP2PMsg_KeyGenPrepareMsg prep
        else TssP2PMsg_KeyGenStartMsg KeyGenStartMsg)))),
     e_send = (\<lambda>_ _. None), e_newstream = (\<lambda>_ _ _. None), e_sess_send = (\<lambda>_ _ _. None),
     e_sess_close = (\<lambda>_ _. None), e_now = (\<lambda>n. \<lparr>ts_Seconds = of_nat n, ts_Nanos = 0\<rparr>),
     e_other = (\<lambda>_ s. s), e_type_text = (\<lambda>_. [])\<rparr>"

definition DemoWorld :: "memdb \<Rightarrow> (memdb, bytes) world" where
  "DemoWorld s = \<lparr>w_tick = 0, w_store = s, w_handlers = Map.empty, w_trace = []\<rparr>"

abbreviation "demo_keygen \<equiv>
  handleKeyGen (DemoManager True) DemoTss (DemoEnv demo_prepare) [EndCh ''x''] (DemoWorld [])"

lemma demo_keygen_run:
  "demo_keygen = (Returned (), snd demo_keygen)"
  "main_msgs (snd demo_keygen) = [kg_ready, kg_finish \<lparr>kgf_IsSuccess = True, kgf_FailureReason = [],
     kgf_PublicKey = 3 # replicate 31 0 @ [7]\<rparr>]"
proof -
  have "fst demo_keygen = Returned ()" by code_simp
  then show "demo_keygen = (Returned (), snd demo_keygen)" by (metis prod.collapse)
  show "main_msgs (snd demo_keygen) = [kg_ready, kg_finish \<lparr>kgf_IsSuccess = True, kgf_FailureReason = [],
     kgf_PublicKey = 3 # replicate 31 0 @ [7]\<rparr>]" by code_simp
qed

lemma demo_prepare_run:
  "keygen_prepare (DemoEnv prep) (DemoWorld s) = (Some (Inr prep), (DemoWorld s)\<lparr>w_tick := 1\<rparr>)"
  by (simp add: keygen_prepare_def recv_main_def DemoEnv_def DemoWorld_def go_simps)

lemma demo_ids: "kgp_KeyId demo_prepare = ''k''" "kgp_SessionId demo_prepare = ''s''"
  by (simp_all add: demo_prepare_def)

lemma demo_others: "others_ok ls (DemoEnv prep)"
  unfolding others_ok_def by (simp add: DemoEnv_def) (blast intro: run_nil)

lemma demo_reencodes: "reencodes DemoCodec"
  by (auto simp: reencodes_def same_strings_def DemoCodec_def split: option.splits list.splits if_splits)

lemma demo_world_reachable: "store_reachable MemDB mem_inv DemoCodec (w_store (DemoWorld []))"
  by (simp add: DemoWorld_def demo_reachable [OF run_nil])

lemma demo_manager: "m_localStorage (DemoManager dev) = LevelDBStorage MemDB DemoCodec"
  by (simp add: DemoManager_def NewManager_def)

lemma leveldb_rewritable:
  assumes "leveldb D db_inv C" and "reencodes C"
  shows "local_storage.rewritable (leveldb.lv_inv D db_inv C) (leveldb.lv_rows D C)
    (leveldb.lv_storable C)"
  unfolding local_storage.rewritable_def [OF leveldb.lv_storage [OF assms(1)]]
proof (intro allI impI)
  fix s r d d'
  assume h: "leveldb.lv_inv D db_inv C s" "leveldb.lv_rows D C s r = Some d" "same_strings d d'"
  then obtain v where "pb_Unmarshal C v = Inr d"
    by (auto simp: leveldb.lv_rows_iff [OF assms(1)])
  with assms(2) h have "\<exists>bs. pb_Marshal C d' = Inr bs" unfolding reencodes_def by blast
  then show "leveldb.lv_storable C d'" by (simp add: leveldb.lv_storable_def [OF assms(1)])
qed

lemma handleKeyGen_answer:
  assumes "leveldb D db_inv C" and "reencodes C" and "m_localStorage m = LevelDBStorage D C"
    and "store_reachable D db_inv C (w_store w)" and "others_ok (LevelDBStorage D C) E"
    and "keygen_prepare E w = (Some (Inr prep), w1)"
    and "handleKeyGen m T E evs w = (Returned (), w')"
  shows "\<exists>f ms. main_msgs w' = ms @ [kg_finish f] \<and>
    (if kgf_IsSuccess f
     then \<exists>d. GetKeyDataByKeyIdAndKeySessionId D C (w_store w') (kgp_KeyId prep) (kgp_SessionId prep)
         = Inr (Some d) \<and> kd_Status d = KEY_STATUS_READY \<and> kd_Pubkey d = kgf_PublicKey f
     else \<forall>d. GetKeyDataByKeyIdAndKeySessionId D C (w_store w') (kgp_KeyId prep) (kgp_SessionId prep)
         = Inr (Some d) \<longrightarrow> kd_Status d \<noteq> KEY_STATUS_PENDING)"
proof -
  note st = leveldb.lv_storage [OF assms(1)]
  note enc = leveldb_rewritable [OF assms(1,2)]
  note get = get_iff_rows [OF assms(1)]
  let ?p = "keygen_protocol (kgp_SessionId prep)"
  let ?w1 = "set_handler ?p (KeyGenSessionHandler (kgp_SessionId prep)) w1"
  from store_reachableE(1) [OF assms(1,4)] keygen_prepare_eq [OF assms(6)]
  have inv1: "leveldb.lv_inv D db_inv C (w_store ?w1)" by simp
  show ?thesis
    using assms(7)
  proof (cases rule: handleKeyGen_cases)
    case (failed prep' err w1' w2 e3 w3 e5 w5)
    with assms(6) have eq: "prep' = prep" "w1' = w1" by simp_all
    have inv2: "leveldb.lv_inv D db_inv C (w_store w2)"
      using local_storage.handleKeyGen0_inv [OF st inv1 assms(5,3)] failed(2) eq by blast
    have inv3: "leveldb.lv_inv D db_inv C (w_store w3)"
      by (rule local_storage.mark_error_inv [OF st inv2 assms(5,3) failed(3)])
    have s: "w_store w' = w_store w3"
      using failed(6) send_main_eq [OF failed(4)] by (simp add: notify_parties_eq)
    have "kd_Status d \<noteq> KEY_STATUS_PENDING"
      if "leveldb.lv_rows D C (w_store w3) (row_key (kgp_KeyId prep) (kgp_SessionId prep)) = Some d" for d
      using local_storage.mark_error_ends [OF st inv2 assms(5,3) enc failed(3)] that eq by blast
    moreover have "\<exists>ms. main_msgs w' = ms @ [kg_finish (kgf_failed (err_text err))]"
      using failed(6) send_main_eq [OF failed(4)] by simp
    ultimately show ?thesis
      using inv3 s by (intro exI [of _ "kgf_failed (err_text err)"]) (auto simp: get kgf_failed_def)
  next
    case (finished prep' f w1' w2 e3 w3)
    with assms(6) have eq: "prep' = prep" "w1' = w1" by simp_all
    have inv2: "leveldb.lv_inv D db_inv C (w_store w2)"
      using local_storage.handleKeyGen0_inv [OF st inv1 assms(5,3)] finished(2) eq by blast
    obtain wa idm wb where 1: "keygen_step1 m E prep ?w1 = (Returned (Inr ()), wa)"
      and 2: "keygen_step2 m T prep wa = (Returned (Inr idm), wb)"
      and 3: "keygen_loop m T E prep ?p idm evs wb = (Returned (Inr f), w2)"
      using finished(2) eq by (auto simp: handleKeyGen0_def split: outcome.splits sum.splits prod.splits)
    have invb: "leveldb.lv_inv D db_inv C (w_store wb)"
      using local_storage.keygen_step1_inv [OF st inv1 assms(5,3) 1] keygen_step2_msgs [OF 2] by simp
    note res = local_storage.keygen_loop_result [OF st assms(5,3) enc invb 3]
    have s: "w_store w' = w_store w2"
      using finished(5) send_main_eq [OF finished(3)] by simp
    have "\<exists>ms. main_msgs w' = ms @ [kg_finish f]"
      using finished(5) send_main_eq [OF finished(3)] by simp
    with res s inv2 show ?thesis
      by (intro exI [of _ f]) (auto simp: get split: if_splits)
  qed (use assms(6) in auto)
qed

section \<open>Properties\<close>

text \<open>
  C5. The answer agrees with the record. Whatever the network, the clock and the other
  goroutines do, when the handler of a prepared session returns, the last message on the
  coordinator's stream is a finish message; if it reports success, the session's record is ready
  and holds the reported public key, and if it reports failure, the session's record is not
  pending, so the session does not block its key id.
\<close>

theorem keygen_answer_matches_record:
  assumes "leveldb D db_inv C" and "reencodes C" and "m_localStorage m = LevelDBStorage D C"
    and "store_reachable D db_inv C (w_store w)" and "others_ok (LevelDBStorage D C) E"
    and "keygen_prepare E w = (Some (Inr prep), w1)"
    and "handleKeyGen m T E evs w = (Returned (), w')"
  shows "\<exists>f ms. main_msgs w' = ms @ [kg_finish f] \<and>
    (if kgf_IsSuccess f
     then \<exists>d. GetKeyDataByKeyIdAndKeySessionId D C (w_store w') (kgp_KeyId prep) (kgp_SessionId prep)
         = Inr (Some d) \<and> kd_Status d = KEY_STATUS_READY \<and> kd_Pubkey d = kgf_PublicKey f
     else \<forall>d. GetKeyDataByKeyIdAndKeySessionId D C (w_store w') (kgp_KeyId prep) (kgp_SessionId prep)
         = Inr (Some d) \<longrightarrow> kd_Status d \<noteq> KEY_STATUS_PENDING)"
  using assms by (rule handleKeyGen_answer)

theorem keygen_answer_matches_record_witness:
  "\<exists>d. GetKeyDataByKeyIdAndKeySessionId MemDB DemoCodec (w_store (snd demo_keygen)) ''k'' ''s'' =
     Inr (Some d) \<and> kd_Status d = KEY_STATUS_READY \<and> kd_Pubkey d = 3 # replicate 31 0 @ [7]"
proof -
  from keygen_answer_matches_record [OF demo_leveldb demo_reencodes demo_manager demo_world_reachable
      demo_others demo_prepare_run demo_keygen_run(1)]
  obtain f ms where f: "main_msgs (snd demo_keygen) = ms @ [kg_finish f]"
    "if kgf_IsSuccess f
     then \<exists>d. GetKeyDataByKeyIdAndKeySessionId MemDB DemoCodec (w_store (snd demo_keygen)) ''k'' ''s''
         = Inr (Some d) \<and> kd_Status d = KEY_STATUS_READY \<and> kd_Pubkey d = kgf_PublicKey f
     else \<forall>d. GetKeyDataByKeyIdAndKeySessionId MemDB DemoCodec (w_store (snd demo_keygen)) ''k'' ''s''
         = Inr (Some d) \<longrightarrow> kd_Status d \<noteq> KEY_STATUS_PENDING"
    unfolding demo_ids by blast
  from f(1) have "f = \<lparr>kgf_IsSuccess = True, kgf_FailureReason = [], kgf_PublicKey = 3 # replicate 31 0 @ [7]\<rparr>"
    unfolding demo_keygen_run(2) by (cases ms) auto
  with f(2) show ?thesis by simp
qed

text \<open>
  What the handler writes to the coordinator. A run that returns has written a single failure
  message, or a ready message and then one finish message; success is never reported without
  having been ready. So at most two messages are ever queued on a local stream, whose channel
  holds ten: the handler cannot block on it.
\<close>

theorem keygen_main_stream:
  assumes "handleKeyGen m T E evs w = (Returned (), w')"
  shows "\<exists>f. main_msgs w' = main_msgs w @ [kg_finish f] \<and> \<not> kgf_IsSuccess f \<or>
    main_msgs w' = main_msgs w @ [kg_ready, kg_finish f]"
  using assms by (rule handleKeyGen_msgs)

theorem keygen_main_stream_witness:
  "\<exists>f. main_msgs (snd demo_keygen) = [kg_ready, kg_finish f]"
  using keygen_main_stream [OF demo_keygen_run(1)] demo_keygen_run(2) by auto

text \<open>
  The session handler lives as long as its session. When the handler returns or panics, the
  handler of the session's streams is no longer registered and every other one is as before.
\<close>

theorem keygen_handler_removed:
  assumes "handleKeyGen m T E evs w = (r, w')" and "r \<noteq> Waiting"
    and "keygen_prepare E w = (Some (Inr prep), w1)"
  shows "w_handlers w' = (w_handlers w)(keygen_protocol (kgp_SessionId prep) := None)"
  using handleKeyGen_handlers [OF assms(1,2)] assms(3) by simp

theorem keygen_handler_removed_witness:
  "w_handlers (snd demo_keygen) = Map.empty"
  using keygen_handler_removed [OF demo_keygen_run(1) _ demo_prepare_run] by (simp add: DemoWorld_def)

text \<open>
  C25. A node takes part only in vetted key generations. Outside development mode, if the node
  answers a prepare message with ready, then at some moment of the run the validator's service
  knew every party of the announced list.
\<close>

theorem keygen_parties_vetted:
  assumes "m_validator m = New U H url" and "\<not> m_dev m"
    and "keygen_prepare E w = (Some (Inr prep), w1)" and "handleKeyGen m T E evs w = (r, w')"
    and "kg_ready \<in> set (main_msgs w')" and "kg_ready \<notin> set (main_msgs w)"
  shows "\<exists>now. \<forall>p \<in> set (kgp_AllPartyId prep). mpc_known U H url now p"
  using handleKeyGen_vetted [OF assms(3,4,5,6,2)] unfolding assms(1) rest.keygen_iff by blast

definition vetted_prepare :: KeyGenPrepareMsg where
  "vetted_prepare = demo_prepare\<lparr>kgp_AllPartyId := [(party ''A'')\<lparr>pid_Moniker := ''0xAB''\<rparr>]\<rparr>"

abbreviation "vetted_keygen \<equiv>
  handleKeyGen (DemoManager False) DemoTss (DemoEnv vetted_prepare) [ErrCh (Errorf ''e'')] (DemoWorld [])"

theorem keygen_parties_vetted_witness:
  "kg_ready \<in> set (main_msgs (snd vetted_keygen)) \<and>
   (\<exists>now. \<forall>p \<in> set (kgp_AllPartyId vetted_prepare). mpc_known DemoUnicode DemoHttp ''u'' now p)"
proof -
  have run: "vetted_keygen = (fst vetted_keygen, snd vetted_keygen)" by simp
  have ready: "kg_ready \<in> set (main_msgs (snd vetted_keygen))" by code_simp
  have v: "m_validator (DemoManager False) = New DemoUnicode DemoHttp ''u''" "\<not> m_dev (DemoManager False)"
    by (simp_all add: DemoManager_def NewManager_def)
  have "kg_ready \<notin> set (main_msgs (DemoWorld []))" by (simp add: DemoWorld_def main_msgs_def)
  from keygen_parties_vetted [OF v demo_prepare_run run ready this] ready show ?thesis by blast
qed

text \<open>
  C35. A failed generation of pre-parameters takes the node down. Its error is dropped and the
  missing result is dereferenced, so the handler panics, outside any recovery; the record it
  leaves is pending, and from then on every key generation of the key id is refused, whatever
  operations other sessions run on the store.
\<close>

theorem keygen_preparams_crash:
  assumes "leveldb D db_inv C" and "m_localStorage m = LevelDBStorage D C"
    and "store_reachable D db_inv C (w_store w)" and "others_ok (LevelDBStorage D C) E"
    and "party_ids_ok T" and "PartyID_GetId (Some (m_LocalPartyId m)) \<in> pid_Id ` set (kgp_AllPartyId prep)"
    and "keygen_prepare E w = (Some (Inr prep), w1)"
    and "keygen_step1 m E prep (set_handler (keygen_protocol (kgp_SessionId prep))
       (KeyGenSessionHandler (kgp_SessionId prep)) w1) = (Returned (Inr ()), w2)"
    and "fst (GeneratePreParams T (w_tick w2)) = None"
  shows "\<exists>w' d. handleKeyGen m T E evs w = (Panicked nil_deref, w') \<and>
    GetKeyDataByKeyIdAndKeySessionId D C (w_store w') (kgp_KeyId prep) (kgp_SessionId prep) = Inr (Some d) \<and>
    kd_Status d = KEY_STATUS_PENDING \<and>
    (\<forall>ops s'. store_run (LevelDBStorage D C) (w_store w') ops s' \<longrightarrow>
       (\<forall>op \<in> set ops. \<not> reports (row_key (kgp_KeyId prep) (kgp_SessionId prep)) op) \<longrightarrow>
       (\<exists>e. checkAndSetKeyGenStorage (LevelDBStorage D C) (kgp_KeyId prep) sid' t ps c s' = (Some e, s')))"
proof -
  note st = leveldb.lv_storage [OF assms(1)]
  let ?p = "keygen_protocol (kgp_SessionId prep)"
  let ?r = "row_key (kgp_KeyId prep) (kgp_SessionId prep)"
  let ?w1 = "set_handler ?p (KeyGenSessionHandler (kgp_SessionId prep)) w1"
  let ?d = "pendingKeyData (kgp_KeyId prep) (kgp_SessionId prep) (kgp_Threshold prep) (kgp_AllPartyId prep)
    (Some (e_now E (w_tick ?w1)))"
  from store_reachableE(1) [OF assms(1,3)] keygen_prepare_eq [OF assms(7)]
  have inv1: "leveldb.lv_inv D db_inv C (w_store ?w1)" by simp
  have inv2: "leveldb.lv_inv D db_inv C (w_store w2)"
    by (rule local_storage.keygen_step1_inv [OF st inv1 assms(4,2,8)])
  have row: "leveldb.lv_rows D C (w_store w2) ?r = Some ?d"
    by (rule local_storage.keygen_step1_row [OF st inv1 assms(4,2,8)])
  have self: "id_map (sorted_parties T (kgp_AllPartyId prep)) (PartyID_GetId (Some (m_LocalPartyId m))) \<noteq> None"
    unfolding id_map_None sorted_parties_ids [OF assms(5)] using assms(6) by simp
  then have "keygen_step2 m T prep w2 = (Panicked nil_deref, w2)"
    using assms(9) by (cases "GeneratePreParams T (w_tick w2)") (auto simp: keygen_step2_def Let_def)
  then have run: "handleKeyGen m T E evs w = (Panicked nil_deref, remove_handler ?p w2)"
    using assms(7,8) by (simp add: handleKeyGen_def handleKeyGen0_def Let_def)
  have pend: "kd_Status ?d = KEY_STATUS_PENDING" by (simp add: pendingKeyData_def)
  have "\<exists>e. checkAndSetKeyGenStorage (LevelDBStorage D C) (kgp_KeyId prep) sid' t ps c s' = (Some e, s')"
    if h: "store_run (LevelDBStorage D C) (w_store w2) ops s'" "\<forall>op \<in> set ops. \<not> reports ?r op"
    for ops s'
  proof -
    have inv': "leveldb.lv_inv D db_inv C s'" by (rule local_storage.run_inv [OF st h(1) inv2])
    have "leveldb.lv_rows D C s' ?r = Some ?d"
      by (rule local_storage.run_pending_stuck [OF st h(1) inv2 row pend h(2)])
    from local_storage.own_row [OF st this inv'] have
      "?d \<in> local_storage.key_rows (leveldb.lv_rows D C) s' (kgp_KeyId prep)" .
    moreover have "live ?d" using pend by (simp add: live_def)
    ultimately show ?thesis using local_storage.keygen_refused [OF st inv'] by blast
  qed
  with run row inv2 pend show ?thesis
    by (intro exI [of _ "remove_handler ?p w2"] exI [of _ ?d]) (simp add: get_iff_rows [OF assms(1)])
qed

definition CrashTss :: "(unit, string, bytes, bytes) TssLib" where
  "CrashTss = DemoTss\<lparr>GeneratePreParams := (\<lambda>_. (None, Some (Errorf ''timeout'')))\<rparr>"

lemma demo_tss_ids: "party_ids_ok CrashTss" "party_ids_ok DemoTss"
  by (simp_all add: party_ids_ok_def CrashTss_def DemoTss_def)

theorem keygen_preparams_crash_witness:
  "\<exists>w' e. handleKeyGen (DemoManager True) CrashTss (DemoEnv demo_prepare) [] (DemoWorld []) =
     (Panicked nil_deref, w') \<and>
   checkAndSetKeyGenStorage demoLS ''k'' ''t'' 1 [] None (w_store w') = (Some e, w_store w')"
proof -
  let ?w1 = "set_handler (keygen_protocol ''s'') (KeyGenSessionHandler ''s'') ((DemoWorld [])\<lparr>w_tick := 1\<rparr>)"
  have "fst (keygen_step1 (DemoManager True) (DemoEnv demo_prepare) demo_prepare ?w1) = Returned (Inr ())"
    by code_simp
  then obtain w2 where step1: "keygen_step1 (DemoManager True) (DemoEnv demo_prepare) demo_prepare ?w1 =
    (Returned (Inr ()), w2)" by (metis prod.collapse)
  have self: "PartyID_GetId (Some (m_LocalPartyId (DemoManager True))) \<in> pid_Id ` set (kgp_AllPartyId demo_prepare)"
    by (simp add: PartyID_GetId_def DemoManager_def NewManager_def demo_prepare_def party_def)
  have "fst (GeneratePreParams CrashTss (w_tick w2)) = None" by (simp add: CrashTss_def)
  from keygen_preparams_crash [OF demo_leveldb demo_manager demo_world_reachable demo_others
      demo_tss_ids(1) self demo_prepare_run step1 [folded demo_ids] this, of "[]" "''t''" 1 "[]" None]
  show ?thesis unfolding demo_ids using run_nil by force
qed

text \<open>
  C36. A second prepare message kills a running session. If a node that has a session pending
  receives another prepare message with the same key id and session id, it refuses it, but on the
  way out marks the record of the running session as an error and removes the handler through
  which the running session receives its protocol messages.
\<close>

theorem keygen_duplicate_prepare:
  assumes "leveldb D db_inv C" and "reencodes C" and "m_localStorage m = LevelDBStorage D C"
    and "store_reachable D db_inv C (w_store w)" and "\<forall>n s. e_other E n s = s"
    and "keygen_prepare E w = (Some (Inr prep), w1)"
    and "GetKeyDataByKeyIdAndKeySessionId D C (w_store w) (kgp_KeyId prep) (kgp_SessionId prep) = Inr (Some d)"
    and "kd_Status d = KEY_STATUS_PENDING"
  shows "\<exists>w' f d'. handleKeyGen m T E evs w = (Returned (), w') \<and>
    main_msgs w' = main_msgs w @ [kg_finish f] \<and> \<not> kgf_IsSuccess f \<and>
    GetKeyDataByKeyIdAndKeySessionId D C (w_store w') (kgp_KeyId prep) (kgp_SessionId prep) = Inr (Some d') \<and>
    kd_Status d' = KEY_STATUS_ERROR \<and>
    w_handlers w' (keygen_protocol (kgp_SessionId prep)) = None"
proof -
  note st = leveldb.lv_storage [OF assms(1)] and get = get_iff_rows [OF assms(1)]
  note enc = leveldb_rewritable [OF assms(1,2)]
  let ?p = "keygen_protocol (kgp_SessionId prep)"
  let ?r = "row_key (kgp_KeyId prep) (kgp_SessionId prep)"
  let ?w1 = "set_handler ?p (KeyGenSessionHandler (kgp_SessionId prep)) w1"
  have s1: "w_store ?w1 = w_store w" using keygen_prepare_eq [OF assms(6)] by simp
  have inv: "leveldb.lv_inv D db_inv C (e_other E n (w_store w))" for n
    using store_reachableE(1) [OF assms(1,4)] assms(5) by simp
  have row: "leveldb.lv_rows D C (e_other E n (w_store w)) ?r = Some d" for n
    using assms(5,7) inv [of n] by (simp add: get)
  have "live d" using assms(8) by (simp add: live_def)
  then obtain err w2 where step1: "keygen_step1 m E prep ?w1 = (Returned (Inl err), w2)"
    and s2: "w_store w2 = w_store w" and m2: "main_msgs w2 = main_msgs ?w1"
    using local_storage.keygen_step1_refused [OF st, of E ?w1 m prep d] inv row assms(3,5) s1 by auto
  then have run0: "handleKeyGen0 m T E prep ?p evs ?w1 = (Returned (Inl err), w2)"
    by (simp add: handleKeyGen0_def)
  obtain e3 w3 where mark: "mark_error m E prep w2 = (e3, w3)" by fastforce
  from local_storage.mark_error_pending [OF st _ assms(3) enc mark, of d] inv row s2 assms(8)
  obtain d' where d': "leveldb.lv_inv D db_inv C (w_store w3)"
    "leveldb.lv_rows D C (w_store w3) ?r = Some d'" "kd_Status d' = KEY_STATUS_ERROR" by auto
  let ?n = "notify_parties E (PartyID_GetId (Some (m_LocalPartyId m))) ?p err (kgp_AllPartyId prep) w3"
  obtain e5 w5 where sent: "send_main E (TssP2PMsg_KeyGenFinishMsg (kgf_failed (err_text err))) ?n = (e5, w5)"
    by fastforce
  have s5: "w_store w5 = w_store w3" using send_main_eq [OF sent] by (simp add: notify_parties_eq)
  have "main_msgs w2 = main_msgs w" using m2 keygen_prepare_eq [OF assms(6)] by simp
  then have "main_msgs w5 = main_msgs w @ [kg_finish (kgf_failed (err_text err))]"
    using send_main_eq [OF sent] mark_error_eq [OF mark] by (simp add: notify_parties_eq)
  moreover have "handleKeyGen m T E evs w = (Returned (), remove_handler ?p w5)"
    using assms(6) run0 mark sent by (simp add: handleKeyGen_def Let_def)
  ultimately show ?thesis
    using d' s5 by (intro exI [of _ "remove_handler ?p w5"] exI [of _ "kgf_failed (err_text err)"]
        exI [of _ d']) (simp add: get kgf_failed_def)
qed

theorem keygen_duplicate_prepare_witness:
  "\<exists>w' d'. handleKeyGen (DemoManager True) DemoTss (DemoEnv demo_prepare) []
      (DemoWorld (demo_pending ''k'' ''s'')) = (Returned (), w') \<and>
    GetKeyDataByKeyIdAndKeySessionId MemDB DemoCodec (w_store w') ''k'' ''s'' = Inr (Some d') \<and>
    kd_Status d' = KEY_STATUS_ERROR"
proof -
  have a: "ascii ''k''" by (simp add: ascii_def)
  have st: "w_store (DemoWorld (demo_pending ''k'' ''s'')) = demo_pending ''k'' ''s''"
    by (simp add: DemoWorld_def)
  have other: "\<forall>n s. e_other (DemoEnv demo_prepare) n s = s" by (simp add: DemoEnv_def)
  have pend: "kd_Status (pendingKeyData ''k'' ''s'' 1 [] None) = KEY_STATUS_PENDING"
    by (simp add: pendingKeyData_def)
  have reach: "store_reachable MemDB mem_inv DemoCodec (w_store (DemoWorld (demo_pending ''k'' ''s'')))"
    unfolding st by (rule demo_facts(5) [OF a])
  have row: "GetKeyDataByKeyIdAndKeySessionId MemDB DemoCodec (w_store (DemoWorld (demo_pending ''k'' ''s'')))
      (kgp_KeyId demo_prepare) (kgp_SessionId demo_prepare) =
      Inr (Some (pendingKeyData ''k'' ''s'' 1 [] None))"
    unfolding st demo_ids by (rule demo_facts(3) [OF a])
  from keygen_duplicate_prepare [OF demo_leveldb demo_reencodes demo_manager reach other
      demo_prepare_run row pend, of True DemoTss "[]"]
  show ?thesis unfolding demo_ids by blast
qed



end
