(* ===== verification/KeySignCoord.thy ===== *)
theory KeySignCoord
  imports Validation
begin

text \<open>
  The coordinator's side of signing: \<open>Manager.KeySign\<close> of \<open>tss/tss_keysign.go\<close> with its
  goroutines. Here, unlike in key generation, the channels have buffers and the main goroutine
  waits for groups of goroutines: it first waits until every prepare goroutine is gone, takes
  ready streams until there are more of them than the threshold, starts a goroutine that cancels
  the remaining ones, and waits for the goroutines of the signing parties before it looks at their
  results. A step is a function of the action taken; the order of the actions is the scheduler's
  and the network's choice.
\<close>

section \<open>State\<close>

text \<open>
  Where a prepare goroutine is: before looking at the context, before \<open>NewStream\<close>, before sending,
  before reading the reply, sending an error (\<open>select\<close>ing on the context or not, with a stream to
  close or not), sending its ready stream, gone (having passed that stream on, or not).
\<close>

datatype sp_pc = SPNew | SPDial | SPOpened | SPSent | SPErr bool bool error | SPReady | SPDone bool

fun sp_gone :: "sp_pc \<Rightarrow> bool" where
  "sp_gone (SPDone b) = True"
| "sp_gone _ = False"

text \<open>
  A goroutine of a signing party: before looking at the context, before sending, before reading,
  gone (with the finish message it passed on, if any).
\<close>

datatype sf_pc = SFNew | SFSend | SFSent | SFDone "KeySignFinishMsg option"

fun sf_gone :: "sf_pc \<Rightarrow> bool" where
  "sf_gone (SFDone f) = True"
| "sf_gone _ = False"

text \<open>The goroutine that cancels: not started, counting, gone.\<close>

datatype cancel_pc = CNone | CLoop int32 | CDone

datatype ks_phase =
    WaitNew | KSWaitReady | WaitAll | KSWaitFinish
  | KSReturned "error + KeySignResponse" | KSPanicked string

text \<open>
  \<open>sc_map\<close> is \<open>readyP2PStreamMap\<close>; a stream is named by the index of the goroutine that opened it.
  \<open>sc_ctx\<close> is \<open>ctx.Err()\<close>. \<open>sc_closed\<close> lists closed streams, \<open>sc_out\<close> what was sent on which
  stream.
\<close>

record ks_state =
  sc_phase :: ks_phase
  sc_ctx :: "error option"
  sc_prep :: "sp_pc list"
  sc_errChan :: "error chan"
  sc_readyChan :: "nat chan"
  sc_map :: "(string \<times> nat) list"
  sc_cancel :: cancel_pc
  sc_signPartyIds :: "PartyID list"
  sc_fin :: "(nat \<times> sf_pc) list"
  sc_finishChan :: "KeySignFinishMsg chan"
  sc_cnt :: int32
  sc_closed :: "nat list"
  sc_out :: "(nat \<times> TssP2PMsg) list"

text \<open>
  What a call fixes: the request, the key record it found, its session id and deadline, the id a
  stream to a party reports (\<open>RemotePartyId\<close>), and how \<open>%s\<close> prints a message type.
\<close>

record ks_call =
  sx_request :: KeySignRequest
  sx_keyData :: KeyData
  sx_sessionId :: string
  sx_deadline :: Timestamp
  sx_rid :: "string \<Rightarrow> string"
  sx_type_text :: "MsgType option \<Rightarrow> string"

text \<open>The part before the goroutines: the session id and the key record.\<close>

definition ks_lookup ::
    "error + string \<Rightarrow> 's LocalStorage \<Rightarrow> 's \<Rightarrow> KeySignRequest \<Rightarrow> error + string \<times> KeyData" where
  "ks_lookup newUUID ls s request =
     (case newUUID of
        Inl err \<Rightarrow> Inl err
      | Inr sessionId \<Rightarrow>
        (case getLatestReadyKeyDataByKeyIdFromStorage ls (ksq_KeyId request) s of
           Inl err \<Rightarrow> Inl err
         | Inr None \<Rightarrow> Inl (Errorf ''key not found from local storage'')
         | Inr (Some keyData) \<Rightarrow> Inr (sessionId, keyData)))"

definition ks_parties :: "ks_call \<Rightarrow> PartyID list" where
  "ks_parties x = KeyData_GetAllPartyId (Some (sx_keyData x))"

definition ks_init :: "ks_call \<Rightarrow> ks_state" where
  "ks_init x =
     (let partyCount = length (ks_parties x) in
      \<lparr>sc_phase = WaitNew, sc_ctx = None, sc_prep = replicate partyCount SPNew,
       sc_errChan = make_chan partyCount, sc_readyChan = make_chan partyCount, sc_map = [],
       sc_cancel = CNone, sc_signPartyIds = [], sc_fin = [], sc_finishChan = make_chan 0,
       sc_cnt = 0, sc_closed = [], sc_out = []\<rparr>)"

section \<open>Messages\<close>

definition ks_prepare_msg :: "ks_call \<Rightarrow> TssP2PMsg" where
  "ks_prepare_msg x = p2p_msg (TssP2PMsg_KeySignPrepareMsg
     \<lparr>ksp_SignId = ksq_SignId (sx_request x), ksp_SessionId = sx_sessionId x,
      ksp_KeyId = ksq_KeyId (sx_request x), ksp_KeySessionId = kd_KeySessionId (sx_keyData x),
      ksp_SignMsg = ksq_SignMsg (sx_request x), ksp_Deadline = Some (sx_deadline x)\<rparr>)"

definition ks_start_msg :: "PartyID list \<Rightarrow> TssP2PMsg" where
  "ks_start_msg signPartyIds = p2p_msg (TssP2PMsg_KeySignStartMsg \<lparr>kss_SignPartyId = signPartyIds\<rparr>)"

definition ks_cancel_msg :: TssP2PMsg where
  "ks_cancel_msg = p2p_msg (TssP2PMsg_KeySignCancelMsg KeySignCancelMsg)"

definition ks_invalid :: "ks_call \<Rightarrow> TssP2PMsg \<Rightarrow> error" where
  "ks_invalid x m = Errorf (''invalid msg type: '' @ sx_type_text x (GetMsgType (Some m)))"

text \<open>What the reply to the prepare message means for its goroutine.\<close>

fun ks_reply :: "ks_call \<Rightarrow> error + TssP2PMsg \<Rightarrow> sp_pc" where
  "ks_reply x (Inl err) = SPErr False True err"
| "ks_reply x (Inr p2pMsg) = (case tp_MsgType p2pMsg of
     Some (TssP2PMsg_KeySignReadyMsg _) \<Rightarrow> SPReady
   | Some (TssP2PMsg_KeySignFinishMsg f) \<Rightarrow> SPErr True True (Errorf (ksf_FailureReason f))
   | _ \<Rightarrow> SPErr False True (ks_invalid x p2pMsg))"

text \<open>The reply to the start message: a finish message or an error.\<close>

fun ks_result :: "ks_call \<Rightarrow> error + TssP2PMsg \<Rightarrow> error + KeySignFinishMsg" where
  "ks_result x (Inl err) = Inl err"
| "ks_result x (Inr p2pMsg) = (case tp_MsgType p2pMsg of
     Some (TssP2PMsg_KeySignFinishMsg f) \<Rightarrow> Inr f
   | _ \<Rightarrow> Inl (ks_invalid x p2pMsg))"

text \<open>The parties of the record whose streams are ready, in the order of the record.\<close>

definition ks_signers :: "ks_call \<Rightarrow> (string \<times> nat) list \<Rightarrow> PartyID list" where
  "ks_signers x m = filter (\<lambda>p. map_of m (PartyID_GetId (Some p)) \<noteq> None) (ks_parties x)"

section \<open>Steps\<close>

text \<open>
  The actions: the context ends; prepare goroutine \<open>i\<close> looks at the context, opens its stream,
  sends, reads, and leaves its error or its stream in a channel, or drops it because the context
  ended; the main goroutine sees that all are gone, or takes the context's end, an error, a stream
  or a result; the cancelling goroutine ends or takes a stream; the goroutine of signing party \<open>j\<close>
  looks at the context, sends, reads.
\<close>

datatype ks_action =
    KSCtxDone error
  | KSCheck nat
  | KSOpen nat "error option"
  | KSSend nat "error option"
  | KSRecv nat "error + TssP2PMsg"
  | KSPutErr nat
  | KSPutReady nat
  | KSDrop nat
  | KSAllPrepared
  | KSTakeCtx
  | KSTakeErr
  | KSTakeReady
  | KSCancelCtx
  | KSCancelNext
  | KSFinCheck nat
  | KSFinSend nat "error option"
  | KSFinRecv nat "error + TssP2PMsg"
  | KSAllFinished
  | KSTakeFinish

definition ks_set_prep :: "nat \<Rightarrow> sp_pc \<Rightarrow> ks_state \<Rightarrow> ks_state" where
  "ks_set_prep i pc s = s\<lparr>sc_prep := (sc_prep s)[i := pc]\<rparr>"

definition ks_set_fin :: "nat \<Rightarrow> sf_pc \<Rightarrow> ks_state \<Rightarrow> ks_state" where
  "ks_set_fin j pc s = s\<lparr>sc_fin := (sc_fin s)[j := (fst (sc_fin s ! j), pc)]\<rparr>"

text \<open>The deferred close of a channel.\<close>

definition ks_close :: "'a chan \<Rightarrow> 'a chan" where
  "ks_close c = (case chan_close c of Returned c \<Rightarrow> c | _ \<Rightarrow> c)"

text \<open>
  Returning from the first wait runs the first deferred function only, which closes two channels;
  returning later first runs the second one, which closes the streams of the map and the channel
  of the results.
\<close>

definition ks_return_early :: "error \<Rightarrow> ks_state \<Rightarrow> ks_state" where
  "ks_return_early err s =
     s\<lparr>sc_phase := KSReturned (Inl err), sc_errChan := ks_close (sc_errChan s),
       sc_readyChan := ks_close (sc_readyChan s)\<rparr>"

definition ks_return :: "error + KeySignResponse \<Rightarrow> ks_state \<Rightarrow> ks_state" where
  "ks_return res s =
     s\<lparr>sc_phase := KSReturned res, sc_closed := sc_closed s @ map snd (sc_map s),
       sc_finishChan := ks_close (sc_finishChan s), sc_errChan := ks_close (sc_errChan s),
       sc_readyChan := ks_close (sc_readyChan s)\<rparr>"

text \<open>A new entry of the map; with more entries than the threshold signing starts.\<close>

definition ks_add_ready :: "ks_call \<Rightarrow> nat \<Rightarrow> ks_state \<Rightarrow> ks_state" where
  "ks_add_ready x i s =
     (let m = AList.update (sx_rid x (pid_Id (ks_parties x ! i))) i (sc_map s);
          s = s\<lparr>sc_map := m\<rparr>
      in if kd_Threshold (sx_keyData x) <s of_nat (length m)
         then s\<lparr>sc_phase := WaitAll,
                sc_cancel := (if length m < length (ks_parties x) then CLoop (of_nat (length m)) else CNone),
                sc_signPartyIds := ks_signers x m,
                sc_fin := map (\<lambda>(_, k). (k, SFNew)) m,
                sc_finishChan := make_chan (length m)\<rparr>
         else s)"

text \<open>One more stream to cancel; the results of sending and closing are dropped.\<close>

definition ks_cancel_one :: "ks_call \<Rightarrow> int32 \<Rightarrow> nat \<Rightarrow> ks_state \<Rightarrow> ks_state" where
  "ks_cancel_one x cnt i s =
     (let cnt = cnt + 1 in
      s\<lparr>sc_out := sc_out s @ [(i, ks_cancel_msg)], sc_closed := sc_closed s @ [i],
        sc_cancel := (if cnt = of_nat (length (ks_parties x)) then CDone else CLoop cnt)\<rparr>)"

text \<open>An error of a signing party's goroutine is dropped when the channel is full.\<close>

definition ks_report :: "nat \<Rightarrow> error \<Rightarrow> ks_state \<Rightarrow> ks_state" where
  "ks_report j err s =
     (case chan_send (sc_errChan s) err of
        Returned c \<Rightarrow> ks_set_fin j (SFDone None) (s\<lparr>sc_errChan := c\<rparr>)
      | Waiting \<Rightarrow> ks_set_fin j (SFDone None) s
      | Panicked m \<Rightarrow> s\<lparr>sc_phase := KSPanicked m\<rparr>)"

definition ks_response :: "ks_call \<Rightarrow> KeySignFinishMsg \<Rightarrow> KeySignResponse" where
  "ks_response x f = \<lparr>ksr_SessionId = sx_sessionId x, ksr_SignatureR = ksf_SignatureR f,
     ksr_SignatureS = ksf_SignatureS f, ksr_SignatureV = ksf_SignatureV f\<rparr>"

definition ks_take_finish :: "ks_call \<Rightarrow> KeySignFinishMsg \<Rightarrow> ks_state \<Rightarrow> ks_state" where
  "ks_take_finish x f s =
     (if ksf_IsSuccess f then ks_return (Inr (ks_response x f)) s
      else
        (let s = s\<lparr>sc_cnt := sc_cnt s + 1\<rparr> in
         if sc_cnt s = of_nat (length (sc_map s))
         then ks_return (Inl (Status Internal
                (Sprintf (''sign all party failed. reason: '' @ ksf_FailureReason f)))) s
         else s))"

text \<open>Steps of prepare goroutine \<open>i\<close>. A stream that is not ready is closed when its goroutine ends.\<close>

definition ks_prep_is :: "ks_state \<Rightarrow> nat \<Rightarrow> sp_pc \<Rightarrow> bool" where
  "ks_prep_is s i pc \<longleftrightarrow> i < length (sc_prep s) \<and> sc_prep s ! i = pc"

definition ks_fin_is :: "ks_state \<Rightarrow> nat \<Rightarrow> sf_pc \<Rightarrow> bool" where
  "ks_fin_is s j pc \<longleftrightarrow> j < length (sc_fin s) \<and> snd (sc_fin s ! j) = pc"

definition ks_drop_stream :: "nat \<Rightarrow> bool \<Rightarrow> ks_state \<Rightarrow> ks_state" where
  "ks_drop_stream i opened s =
     ks_set_prep i (SPDone False) (s\<lparr>sc_closed := sc_closed s @ (if opened then [i] else [])\<rparr>)"

fun ks_prep_act :: "ks_call \<Rightarrow> ks_action \<Rightarrow> ks_state \<Rightarrow> ks_state option" where
  "ks_prep_act x (KSCheck i) s =
     (if ks_prep_is s i SPNew
      then Some (ks_set_prep i (if sc_ctx s = None then SPDial else SPDone False) s) else None)"
| "ks_prep_act x (KSOpen i res) s =
     (if ks_prep_is s i SPDial
      then Some (ks_set_prep i (case res of None \<Rightarrow> SPOpened | Some err \<Rightarrow> SPErr True False err) s)
      else None)"
| "ks_prep_act x (KSSend i res) s =
     (if ks_prep_is s i SPOpened
      then Some (ks_set_prep i (case res of None \<Rightarrow> SPSent | Some err \<Rightarrow> SPErr False True err)
                  (s\<lparr>sc_out := sc_out s @ [(i, ks_prepare_msg x)]\<rparr>))
      else None)"
| "ks_prep_act x (KSRecv i res) s =
     (if ks_prep_is s i SPSent then Some (ks_set_prep i (ks_reply x res) s) else None)"
| "ks_prep_act x (KSPutErr i) s =
     (if i < length (sc_prep s) then
        (case sc_prep s ! i of
           SPErr sel opened err \<Rightarrow>
             (case chan_send (sc_errChan s) err of
                Returned c \<Rightarrow> Some (ks_drop_stream i opened (s\<lparr>sc_errChan := c\<rparr>))
              | Waiting \<Rightarrow> None
              | Panicked m \<Rightarrow> Some (s\<lparr>sc_phase := KSPanicked m\<rparr>))
         | _ \<Rightarrow> None)
      else None)"
| "ks_prep_act x (KSPutReady i) s =
     (if ks_prep_is s i SPReady then
        (case chan_send (sc_readyChan s) i of
           Returned c \<Rightarrow> Some (ks_set_prep i (SPDone True) (s\<lparr>sc_readyChan := c\<rparr>))
         | Waiting \<Rightarrow> None
         | Panicked m \<Rightarrow> Some (s\<lparr>sc_phase := KSPanicked m\<rparr>))
      else None)"
| "ks_prep_act x (KSDrop i) s =
     (if i < length (sc_prep s) \<and> sc_ctx s \<noteq> None then
        (case sc_prep s ! i of
           SPErr True opened err \<Rightarrow> Some (ks_drop_stream i opened s)
         | SPReady \<Rightarrow> Some (ks_set_prep i (SPDone False) s)
         | _ \<Rightarrow> None)
      else None)"
| "ks_prep_act x a s = None"

text \<open>Steps of the goroutine of signing party \<open>j\<close>.\<close>

fun ks_fin_act :: "ks_call \<Rightarrow> ks_action \<Rightarrow> ks_state \<Rightarrow> ks_state option" where
  "ks_fin_act x (KSFinCheck j) s =
     (if ks_fin_is s j SFNew
      then Some (ks_set_fin j (if sc_ctx s = None then SFSend else SFDone None) s) else None)"
| "ks_fin_act x (KSFinSend j res) s =
     (if ks_fin_is s j SFSend then
        (let s = s\<lparr>sc_out := sc_out s @ [(fst (sc_fin s ! j), ks_start_msg (sc_signPartyIds s))]\<rparr> in
         case res of None \<Rightarrow> Some (ks_set_fin j SFSent s) | Some err \<Rightarrow> Some (ks_report j err s))
      else None)"
| "ks_fin_act x (KSFinRecv j res) s =
     (if ks_fin_is s j SFSent then
        (case ks_result x res of
           Inl err \<Rightarrow> Some (ks_report j err s)
         | Inr f \<Rightarrow>
           (case chan_send (sc_finishChan s) f of
              Returned c \<Rightarrow> Some (ks_set_fin j (SFDone (Some f)) (s\<lparr>sc_finishChan := c\<rparr>))
            | Waiting \<Rightarrow> None
            | Panicked m \<Rightarrow> Some (s\<lparr>sc_phase := KSPanicked m\<rparr>)))
      else None)"
| "ks_fin_act x a s = None"

text \<open>Steps of the cancelling goroutine.\<close>

fun ks_cancel_act :: "ks_call \<Rightarrow> ks_action \<Rightarrow> ks_state \<Rightarrow> ks_state option" where
  "ks_cancel_act x KSCancelCtx s =
     (case sc_cancel s of
        CLoop cnt \<Rightarrow> if sc_ctx s \<noteq> None then Some (s\<lparr>sc_cancel := CDone\<rparr>) else None
      | _ \<Rightarrow> None)"
| "ks_cancel_act x KSCancelNext s =
     (case sc_cancel s of
        CLoop cnt \<Rightarrow>
          (case chan_recv (sc_readyChan s) of
             Returned (None, c) \<Rightarrow> Some (s\<lparr>sc_cancel := CDone\<rparr>)
           | Returned (Some i, c) \<Rightarrow> Some (ks_cancel_one x cnt i (s\<lparr>sc_readyChan := c\<rparr>))
           | _ \<Rightarrow> None)
      | _ \<Rightarrow> None)"
| "ks_cancel_act x a s = None"

text \<open>
  Steps of the main goroutine. The channel of the errors is only closed when it returns, so it
  never receives from it when it is closed.
\<close>

fun ks_main_act :: "ks_call \<Rightarrow> ks_action \<Rightarrow> ks_state \<Rightarrow> ks_state option" where
  "ks_main_act x KSAllPrepared s =
     (if sc_phase s = WaitNew \<and> list_all sp_gone (sc_prep s)
      then Some (s\<lparr>sc_phase := KSWaitReady\<rparr>) else None)"
| "ks_main_act x KSTakeCtx s =
     (case (sc_phase s, sc_ctx s) of
        (KSWaitReady, Some err) \<Rightarrow> Some (ks_return_early err s)
      | (KSWaitFinish, Some err) \<Rightarrow> Some (ks_return (Inl err) s)
      | _ \<Rightarrow> None)"
| "ks_main_act x KSTakeErr s =
     (case (sc_phase s, chan_recv (sc_errChan s)) of
        (KSWaitReady, Returned (Some err, c)) \<Rightarrow> Some (ks_return_early err (s\<lparr>sc_errChan := c\<rparr>))
      | (KSWaitFinish, Returned (Some err, c)) \<Rightarrow> Some (ks_return (Inl err) (s\<lparr>sc_errChan := c\<rparr>))
      | _ \<Rightarrow> None)"
| "ks_main_act x KSTakeReady s =
     (case (sc_phase s, chan_recv (sc_readyChan s)) of
        (KSWaitReady, Returned (None, c)) \<Rightarrow>
          Some (ks_return_early (Errorf ''readyP2PStream closed'') s)
      | (KSWaitReady, Returned (Some i, c)) \<Rightarrow> Some (ks_add_ready x i (s\<lparr>sc_readyChan := c\<rparr>))
      | _ \<Rightarrow> None)"
| "ks_main_act x KSAllFinished s =
     (if sc_phase s = WaitAll \<and> list_all (sf_gone \<circ> snd) (sc_fin s)
      then Some (s\<lparr>sc_phase := KSWaitFinish\<rparr>) else None)"
| "ks_main_act x KSTakeFinish s =
     (case (sc_phase s, chan_recv (sc_finishChan s)) of
        (KSWaitFinish, Returned (None, c)) \<Rightarrow> Some (ks_return (Inl (Errorf ''finishMsgChan closed'')) s)
      | (KSWaitFinish, Returned (Some f, c)) \<Rightarrow> Some (ks_take_finish x f (s\<lparr>sc_finishChan := c\<rparr>))
      | _ \<Rightarrow> None)"
| "ks_main_act x a s = None"

text \<open>A step of the whole call, if the action is possible in the state. A panic ends the process.\<close>

definition ks_act :: "ks_call \<Rightarrow> ks_action \<Rightarrow> ks_state \<Rightarrow> ks_state option" where
  "ks_act x a s =
     (case (sc_phase s, a) of
        (KSPanicked m, _) \<Rightarrow> None
      | (_, KSCtxDone err) \<Rightarrow> if sc_ctx s = None then Some (s\<lparr>sc_ctx := Some err\<rparr>) else None
      | _ \<Rightarrow>
        (case ks_prep_act x a s of
           Some s' \<Rightarrow> Some s'
         | None \<Rightarrow>
           (case ks_fin_act x a s of
              Some s' \<Rightarrow> Some s'
            | None \<Rightarrow>
              (case ks_cancel_act x a s of Some s' \<Rightarrow> Some s' | None \<Rightarrow> ks_main_act x a s))))"

fun ks_exec :: "ks_call \<Rightarrow> ks_action list \<Rightarrow> ks_state \<Rightarrow> ks_state option" where
  "ks_exec x [] s = Some s"
| "ks_exec x (a # as) s = (case ks_act x a s of None \<Rightarrow> None | Some s' \<Rightarrow> ks_exec x as s')"

inductive ks_reach :: "ks_call \<Rightarrow> ks_state \<Rightarrow> bool" for x where
  ks_start: "ks_reach x (ks_init x)"
| ks_next: "ks_reach x s \<Longrightarrow> ks_act x a s = Some s' \<Longrightarrow> ks_reach x s'"

inductive_cases ks_reachE: "ks_reach x s"

lemma ks_exec_reach: "ks_exec x as s = Some s' \<Longrightarrow> ks_reach x s \<Longrightarrow> ks_reach x s'"
  by (induction as arbitrary: s) (auto split: option.splits intro: ks_next)

text \<open>Which group of goroutines a step belongs to.\<close>

lemma ks_act_cases:
  assumes "ks_act x a s = Some s'"
  obtains (ctx) err where "a = KSCtxDone err" "sc_ctx s = None" "s' = s\<lparr>sc_ctx := Some err\<rparr>"
  | (prep) "ks_prep_act x a s = Some s'"
  | (fin) "ks_fin_act x a s = Some s'"
  | (cancel) "ks_cancel_act x a s = Some s'"
  | (main) "ks_main_act x a s = Some s'"
  using assms unfolding ks_act_def
  by (auto split: ks_phase.splits ks_action.splits option.splits if_splits)

section \<open>Cases of the steps\<close>

lemma chan_send_cases:
  "chan_send c x = Returned c' \<longleftrightarrow>
     \<not> ch_closed c \<and> length (ch_buf c) < ch_cap c \<and> c' = c\<lparr>ch_buf := ch_buf c @ [x]\<rparr>"
  "chan_send c x = Panicked m \<longleftrightarrow> ch_closed c \<and> m = ''send on closed channel''"
  "chan_send c x = Waiting \<longleftrightarrow> \<not> ch_closed c \<and> ch_cap c \<le> length (ch_buf c)"
  by (auto simp: chan_send_def)

lemma chan_recv_cases:
  "chan_recv c = Returned (Some x, c') \<longleftrightarrow> (\<exists>xs. ch_buf c = x # xs \<and> c' = c\<lparr>ch_buf := xs\<rparr>)"
  "chan_recv c = Returned (None, c') \<longleftrightarrow> ch_buf c = [] \<and> ch_closed c \<and> c' = c"
  by (auto simp: chan_recv_def split: list.splits)

lemma ks_prep_cases:
  assumes "ks_prep_act x a s = Some s'"
  obtains (move) i pc m where "i < length (sc_prep s)" "\<not> sp_gone (sc_prep s ! i)" "\<not> sp_gone pc"
      "s' = ks_set_prep i pc (s\<lparr>sc_out := sc_out s @ m\<rparr>)" "m = [] \<or> m = [(i, ks_prepare_msg x)]"
  | (leave) i b where "i < length (sc_prep s)" "\<not> sp_gone (sc_prep s ! i)" "sc_ctx s \<noteq> None"
      "s' = ks_drop_stream i b s"
  | (err) i sel opened err where "i < length (sc_prep s)" "sc_prep s ! i = SPErr sel opened err"
      "\<not> ch_closed (sc_errChan s)" "length (ch_buf (sc_errChan s)) < ch_cap (sc_errChan s)"
      "s' = ks_drop_stream i opened (s\<lparr>sc_errChan := (sc_errChan s)\<lparr>ch_buf := ch_buf (sc_errChan s) @ [err]\<rparr>\<rparr>)"
  | (ready) i where "i < length (sc_prep s)" "sc_prep s ! i = SPReady"
      "\<not> ch_closed (sc_readyChan s)" "length (ch_buf (sc_readyChan s)) < ch_cap (sc_readyChan s)"
      "s' = ks_set_prep i (SPDone True)
         (s\<lparr>sc_readyChan := (sc_readyChan s)\<lparr>ch_buf := ch_buf (sc_readyChan s) @ [i]\<rparr>\<rparr>)"
  | (panic) i m where "i < length (sc_prep s)" "\<not> sp_gone (sc_prep s ! i)"
      "ch_closed (sc_errChan s) \<or> ch_closed (sc_readyChan s)" "s' = s\<lparr>sc_phase := KSPanicked m\<rparr>"
proof (cases a)
  case (KSCheck i)
  with assms that(1) [of i SPDial "[]"] that(2) [of i False] show ?thesis
    by (auto simp: ks_prep_is_def ks_drop_stream_def split: if_splits)
next
  case (KSOpen i res)
  let ?pc = "case res of None \<Rightarrow> SPOpened | Some err \<Rightarrow> SPErr True False err"
  have "\<not> sp_gone ?pc" by (simp split: option.splits)
  with KSOpen assms that(1) [of i ?pc "[]"] show ?thesis by (auto simp: ks_prep_is_def split: if_splits)
next
  case (KSSend i res)
  let ?pc = "case res of None \<Rightarrow> SPSent | Some err \<Rightarrow> SPErr False True err"
  have "\<not> sp_gone ?pc" by (simp split: option.splits)
  with KSSend assms that(1) [of i ?pc "[(i, ks_prepare_msg x)]"] show ?thesis
    by (auto simp: ks_prep_is_def split: if_splits)
next
  case (KSRecv i res)
  have "\<not> sp_gone (ks_reply x res)" by (cases res) (auto split: option.splits MsgType.splits)
  with KSRecv assms that(1) [of i "ks_reply x res" "[]"] show ?thesis
    by (auto simp: ks_prep_is_def split: if_splits)
next
  case (KSPutErr i)
  with assms that(3) [of i] that(5) [of i] show ?thesis
    by (auto simp: chan_send_cases split: if_splits sp_pc.splits outcome.splits)
next
  case (KSPutReady i)
  with assms that(4) [of i] that(5) [of i] show ?thesis
    by (auto simp: chan_send_cases ks_prep_is_def split: if_splits outcome.splits)
next
  case (KSDrop i)
  with assms that(2) [of i True] that(2) [of i False] show ?thesis
    by (auto simp: ks_drop_stream_def split: if_splits sp_pc.splits bool.splits)
qed (use assms in simp_all)

lemma ks_fin_cases:
  assumes "ks_fin_act x a s = Some s'"
  obtains (move) j pc m where "j < length (sc_fin s)" "\<not> sf_gone (snd (sc_fin s ! j))" "\<not> sf_gone pc"
      "s' = ks_set_fin j pc (s\<lparr>sc_out := sc_out s @ m\<rparr>)"
      "m = [] \<or> m = [(fst (sc_fin s ! j), ks_start_msg (sc_signPartyIds s))]"
  | (leave) j where "j < length (sc_fin s)" "\<not> sf_gone (snd (sc_fin s ! j))" "sc_ctx s \<noteq> None"
      "s' = ks_set_fin j (SFDone None) s"
  | (report) j err m where "j < length (sc_fin s)" "\<not> sf_gone (snd (sc_fin s ! j))"
      "s' = ks_report j err (s\<lparr>sc_out := sc_out s @ m\<rparr>)"
      "m = [] \<or> m = [(fst (sc_fin s ! j), ks_start_msg (sc_signPartyIds s))]"
  | (pass) j f where "j < length (sc_fin s)" "snd (sc_fin s ! j) = SFSent"
      "\<not> ch_closed (sc_finishChan s)" "length (ch_buf (sc_finishChan s)) < ch_cap (sc_finishChan s)"
      "s' = ks_set_fin j (SFDone (Some f))
         (s\<lparr>sc_finishChan := (sc_finishChan s)\<lparr>ch_buf := ch_buf (sc_finishChan s) @ [f]\<rparr>\<rparr>)"
  | (panic) j m where "j < length (sc_fin s)" "\<not> sf_gone (snd (sc_fin s ! j))"
      "ch_closed (sc_finishChan s)" "s' = s\<lparr>sc_phase := KSPanicked m\<rparr>"
proof (cases a)
  case (KSFinCheck j)
  with assms that(1) [of j SFSend "[]"] that(2) [of j] show ?thesis
    by (auto simp: ks_fin_is_def split: if_splits)
next
  case (KSFinSend j res)
  with assms that(1) [of j SFSent "[(fst (sc_fin s ! j), ks_start_msg (sc_signPartyIds s))]"]
    that(3) [of j _ "[(fst (sc_fin s ! j), ks_start_msg (sc_signPartyIds s))]"]
  show ?thesis by (auto simp: ks_fin_is_def Let_def split: if_splits option.splits)
next
  case (KSFinRecv j res)
  with assms that(3) [of j _ "[]"] that(4) [of j] that(5) [of j] show ?thesis
    by (auto simp: chan_send_cases ks_fin_is_def split: if_splits sum.splits outcome.splits)
qed (use assms in simp_all)

lemma ks_report_cases:
  obtains (put) "\<not> ch_closed (sc_errChan s)" "length (ch_buf (sc_errChan s)) < ch_cap (sc_errChan s)"
      "ks_report j err s = ks_set_fin j (SFDone None)
         (s\<lparr>sc_errChan := (sc_errChan s)\<lparr>ch_buf := ch_buf (sc_errChan s) @ [err]\<rparr>\<rparr>)"
  | (full) "\<not> ch_closed (sc_errChan s)" "ch_cap (sc_errChan s) \<le> length (ch_buf (sc_errChan s))"
      "ks_report j err s = ks_set_fin j (SFDone None) s"
  | (panic) m where "ch_closed (sc_errChan s)" "ks_report j err s = s\<lparr>sc_phase := KSPanicked m\<rparr>"
  by (cases "chan_send (sc_errChan s) err") (auto simp: ks_report_def chan_send_cases)

lemma ks_cancel_cases:
  assumes "ks_cancel_act x a s = Some s'"
  obtains (ends) cnt where "sc_cancel s = CLoop cnt" "s' = s\<lparr>sc_cancel := CDone\<rparr>"
      "sc_ctx s \<noteq> None \<or> ch_closed (sc_readyChan s) \<and> ch_buf (sc_readyChan s) = []"
  | (one) cnt i js where "sc_cancel s = CLoop cnt" "ch_buf (sc_readyChan s) = i # js"
      "s' = ks_cancel_one x cnt i (s\<lparr>sc_readyChan := (sc_readyChan s)\<lparr>ch_buf := js\<rparr>\<rparr>)"
proof (cases a)
  case KSCancelNext
  with assms that show ?thesis
    by (auto simp: chan_recv_cases split: cancel_pc.splits outcome.splits option.splits)
qed (use assms that(1) in \<open>auto split: cancel_pc.splits if_splits\<close>)

lemma ks_main_cases:
  assumes "ks_main_act x a s = Some s'"
  obtains (prepared) "sc_phase s = WaitNew" "list_all sp_gone (sc_prep s)" "s' = s\<lparr>sc_phase := KSWaitReady\<rparr>"
  | (early) err c where "sc_phase s = KSWaitReady" "s' = ks_return_early err (s\<lparr>sc_errChan := c\<rparr>)"
      "c = sc_errChan s \<and> sc_ctx s = Some err \<or>
       (\<exists>es. ch_buf (sc_errChan s) = err # es \<and> c = (sc_errChan s)\<lparr>ch_buf := es\<rparr>) \<or>
       c = sc_errChan s \<and> ch_buf (sc_readyChan s) = [] \<and> ch_closed (sc_readyChan s)"
  | (take) i js where "sc_phase s = KSWaitReady" "ch_buf (sc_readyChan s) = i # js"
      "s' = ks_add_ready x i (s\<lparr>sc_readyChan := (sc_readyChan s)\<lparr>ch_buf := js\<rparr>\<rparr>)"
  | (finished) "sc_phase s = WaitAll" "list_all (sf_gone \<circ> snd) (sc_fin s)" "s' = s\<lparr>sc_phase := KSWaitFinish\<rparr>"
  | (fails) err c where "sc_phase s = KSWaitFinish" "s' = ks_return (Inl err) (s\<lparr>sc_errChan := c\<rparr>)"
      "ch_cap c = ch_cap (sc_errChan s)"
  | (result) f fs where "sc_phase s = KSWaitFinish" "ch_buf (sc_finishChan s) = f # fs"
      "s' = ks_take_finish x f (s\<lparr>sc_finishChan := (sc_finishChan s)\<lparr>ch_buf := fs\<rparr>\<rparr>)"
proof (cases a)
  case KSTakeCtx
  with assms that(2) [of _ "sc_errChan s"] that(5) [of _ "sc_errChan s"] show ?thesis
    by (auto split: ks_phase.splits option.splits)
next
  case KSTakeErr
  with assms that(2) that(5) show ?thesis
    by (auto simp: chan_recv_cases split: ks_phase.splits option.splits outcome.splits)
next
  case KSTakeReady
  with assms that(2) [of _ "sc_errChan s"] that(3) show ?thesis
    by (auto simp: chan_recv_cases split: ks_phase.splits option.splits outcome.splits)
next
  case KSTakeFinish
  with assms that(5) [of _ "sc_errChan s"] that(6) show ?thesis
    by (auto simp: chan_recv_cases split: ks_phase.splits option.splits outcome.splits)
qed (use assms that(1,4) in \<open>auto split: if_splits\<close>)

end
