(* ===== verification/KeySignCoordInv.thy ===== *)
theory KeySignCoordInv
  imports KeySignCoord
begin

text \<open>
  Invariants of the coordinator of signing: who is alive in which phase, what the channels hold,
  and which streams are in the map.
\<close>

section \<open>Counting goroutines\<close>

definition n_gone :: "ks_state \<Rightarrow> nat" where
  "n_gone s = length (filter sp_gone (sc_prep s))"

fun sf_passed :: "sf_pc \<Rightarrow> bool" where
  "sf_passed (SFDone (Some f)) = True"
| "sf_passed _ = False"

definition n_passed :: "ks_state \<Rightarrow> nat" where
  "n_passed s = length (filter (sf_passed \<circ> snd) (sc_fin s))"

lemma ks_set_simps [simp]:
  "sc_phase (ks_set_prep i pc s) = sc_phase s" "sc_ctx (ks_set_prep i pc s) = sc_ctx s"
  "sc_prep (ks_set_prep i pc s) = (sc_prep s)[i := pc]" "sc_errChan (ks_set_prep i pc s) = sc_errChan s"
  "sc_readyChan (ks_set_prep i pc s) = sc_readyChan s" "sc_map (ks_set_prep i pc s) = sc_map s"
  "sc_cancel (ks_set_prep i pc s) = sc_cancel s" "sc_signPartyIds (ks_set_prep i pc s) = sc_signPartyIds s"
  "sc_fin (ks_set_prep i pc s) = sc_fin s" "sc_finishChan (ks_set_prep i pc s) = sc_finishChan s"
  "sc_cnt (ks_set_prep i pc s) = sc_cnt s" "sc_closed (ks_set_prep i pc s) = sc_closed s"
  "sc_out (ks_set_prep i pc s) = sc_out s"
  "sc_phase (ks_set_fin j fpc s) = sc_phase s" "sc_ctx (ks_set_fin j fpc s) = sc_ctx s"
  "sc_prep (ks_set_fin j fpc s) = sc_prep s" "sc_errChan (ks_set_fin j fpc s) = sc_errChan s"
  "sc_readyChan (ks_set_fin j fpc s) = sc_readyChan s" "sc_map (ks_set_fin j fpc s) = sc_map s"
  "sc_cancel (ks_set_fin j fpc s) = sc_cancel s" "sc_signPartyIds (ks_set_fin j fpc s) = sc_signPartyIds s"
  "sc_fin (ks_set_fin j fpc s) = (sc_fin s)[j := (fst (sc_fin s ! j), fpc)]"
  "sc_finishChan (ks_set_fin j fpc s) = sc_finishChan s"
  "sc_cnt (ks_set_fin j fpc s) = sc_cnt s" "sc_closed (ks_set_fin j fpc s) = sc_closed s"
  "sc_out (ks_set_fin j fpc s) = sc_out s"
  by (simp_all add: ks_set_prep_def ks_set_fin_def)

lemma ks_return_simps [simp]:
  "sc_phase (ks_return r s) = KSReturned r" "sc_prep (ks_return r s) = sc_prep s"
  "sc_fin (ks_return r s) = sc_fin s" "sc_map (ks_return r s) = sc_map s"
  "sc_signPartyIds (ks_return r s) = sc_signPartyIds s" "sc_out (ks_return r s) = sc_out s"
  "sc_cancel (ks_return r s) = sc_cancel s"
  "ch_buf (sc_readyChan (ks_return r s)) = ch_buf (sc_readyChan s)"
  "sc_closed (ks_return r s) = sc_closed s @ map snd (sc_map s)"
  "ch_cap (sc_errChan (ks_return r s)) = ch_cap (sc_errChan s)"
  "ch_cap (sc_readyChan (ks_return r s)) = ch_cap (sc_readyChan s)"
  "sc_phase (ks_return_early e s) = KSReturned (Inl e)" "sc_prep (ks_return_early e s) = sc_prep s"
  "sc_fin (ks_return_early e s) = sc_fin s" "sc_map (ks_return_early e s) = sc_map s"
  "sc_signPartyIds (ks_return_early e s) = sc_signPartyIds s" "sc_out (ks_return_early e s) = sc_out s"
  "sc_cancel (ks_return_early e s) = sc_cancel s" "sc_closed (ks_return_early e s) = sc_closed s"
  "ch_buf (sc_readyChan (ks_return_early e s)) = ch_buf (sc_readyChan s)"
  "ch_cap (sc_errChan (ks_return_early e s)) = ch_cap (sc_errChan s)"
  "ch_cap (sc_readyChan (ks_return_early e s)) = ch_cap (sc_readyChan s)"
  by (simp_all add: ks_return_def ks_return_early_def ks_close_def chan_close_def)

section \<open>Who is alive, and what the channels hold\<close>

definition chans_open :: "ks_state \<Rightarrow> bool" where
  "chans_open s \<longleftrightarrow> \<not> ch_closed (sc_errChan s) \<and> \<not> ch_closed (sc_readyChan s)"

text \<open>The results: buffered ones and the failures counted are those passed on so far.\<close>

definition results_ok :: "ks_state \<Rightarrow> bool" where
  "results_ok s \<longleftrightarrow> \<not> ch_closed (sc_finishChan s) \<and> ch_cap (sc_finishChan s) = length (sc_map s) \<and>
     map fst (sc_fin s) = map snd (sc_map s) \<and> sc_map s \<noteq> [] \<and>
     (\<exists>k. sc_cnt s = of_nat k \<and> length (ch_buf (sc_finishChan s)) + k = n_passed s)"

definition ks_ok :: "ks_call \<Rightarrow> ks_state \<Rightarrow> bool" where
  "ks_ok x s \<longleftrightarrow> (let n = length (ks_parties x) in
     length (sc_prep s) = n \<and> ch_cap (sc_errChan s) = n \<and> ch_cap (sc_readyChan s) = n \<and>
     (case sc_phase s of
        WaitNew \<Rightarrow> chans_open s \<and> sc_map s = [] \<and> sc_fin s = [] \<and> sc_cancel s = CNone \<and> sc_cnt s = 0 \<and>
          length (ch_buf (sc_errChan s)) + length (ch_buf (sc_readyChan s)) \<le> n_gone s
      | KSWaitReady \<Rightarrow> chans_open s \<and> list_all sp_gone (sc_prep s) \<and> sc_fin s = [] \<and>
          sc_cancel s = CNone \<and> sc_cnt s = 0
      | WaitAll \<Rightarrow> chans_open s \<and> list_all sp_gone (sc_prep s) \<and> results_ok s
      | KSWaitFinish \<Rightarrow> chans_open s \<and> list_all sp_gone (sc_prep s) \<and> results_ok s \<and>
          list_all (sf_gone \<circ> snd) (sc_fin s)
      | KSReturned r \<Rightarrow> list_all sp_gone (sc_prep s) \<and> list_all (sf_gone \<circ> snd) (sc_fin s)
      | KSPanicked m \<Rightarrow> False))"

lemma ks_ok_prep_phase:
  "ks_ok x s \<Longrightarrow> i < length (sc_prep s) \<Longrightarrow> \<not> sp_gone (sc_prep s ! i) \<Longrightarrow> sc_phase s = WaitNew"
  by (cases "sc_phase s") (auto simp: ks_ok_def Let_def list_all_length)

lemma ks_ok_fin_phase:
  "ks_ok x s \<Longrightarrow> j < length (sc_fin s) \<Longrightarrow> \<not> sf_gone (snd (sc_fin s ! j)) \<Longrightarrow> sc_phase s = WaitAll"
  by (cases "sc_phase s") (auto simp: ks_ok_def Let_def list_all_length)

lemma ks_ok_prep:
  assumes ok: "ks_ok x s" and a: "ks_prep_act x a s = Some s'"
  shows "ks_ok x s'"
  using a
proof (cases rule: ks_prep_cases)
  case (move i pc m)
  note ph = ks_ok_prep_phase [OF ok move(1,2)]
  from length_filter_update [of i "sc_prep s" sp_gone pc] move(1-3)
  have "length (filter sp_gone ((sc_prep s)[i := pc])) = n_gone s" by (simp add: n_gone_def)
  with ok ph move(4) show ?thesis by (simp add: ks_ok_def Let_def chans_open_def n_gone_def)
next
  case (leave i b)
  note ph = ks_ok_prep_phase [OF ok leave(1,2)]
  from length_filter_update [of i "sc_prep s" sp_gone "SPDone False"] leave(1,2)
  have "length (filter sp_gone ((sc_prep s)[i := SPDone False])) = Suc (n_gone s)" by (simp add: n_gone_def)
  with ok ph leave(4) show ?thesis by (simp add: ks_ok_def Let_def chans_open_def n_gone_def ks_drop_stream_def)
next
  case (err i sel opened e)
  then have g: "\<not> sp_gone (sc_prep s ! i)" by simp
  note ph = ks_ok_prep_phase [OF ok err(1) g]
  from length_filter_update [of i "sc_prep s" sp_gone "SPDone False"] err(1) g
  have "length (filter sp_gone ((sc_prep s)[i := SPDone False])) = Suc (n_gone s)" by (simp add: n_gone_def)
  with ok ph err(5) show ?thesis by (simp add: ks_ok_def Let_def chans_open_def n_gone_def ks_drop_stream_def)
next
  case (ready i)
  then have g: "\<not> sp_gone (sc_prep s ! i)" by simp
  note ph = ks_ok_prep_phase [OF ok ready(1) g]
  from length_filter_update [of i "sc_prep s" sp_gone "SPDone True"] ready(1) g
  have "length (filter sp_gone ((sc_prep s)[i := SPDone True])) = Suc (n_gone s)" by (simp add: n_gone_def)
  with ok ph ready(5) show ?thesis by (simp add: ks_ok_def Let_def chans_open_def n_gone_def)
next
  case (panic i m)
  from ks_ok_prep_phase [OF ok panic(1,2)] ok panic(3) show ?thesis
    by (simp add: ks_ok_def Let_def chans_open_def)
qed

lemma results_ok_move:
  assumes "results_ok s" and "j < length (sc_fin s)" and "\<not> sf_passed (snd (sc_fin s ! j))"
    and "\<not> sf_passed pc" and "s' = ks_set_fin j pc t" and "sc_fin t = sc_fin s" and "sc_map t = sc_map s"
    and "sc_finishChan t = sc_finishChan s" and "sc_cnt t = sc_cnt s"
  shows "results_ok s'"
proof -
  from length_filter_update [of j "sc_fin s" "sf_passed \<circ> snd" "(fst (sc_fin s ! j), pc)"] assms(2-4)
  have "n_passed s' = n_passed s" by (simp add: n_passed_def assms(5,6))
  moreover have "map fst (sc_fin s') = map fst (sc_fin s)"
    using assms(2) by (simp add: assms(5,6) map_update list_update_same_conv)
  ultimately show ?thesis using assms(1) by (simp add: results_ok_def assms(5,7-9))
qed

text \<open>A goroutine of the second phase moves, or leaves without handing over a result.\<close>

lemma ks_ok_fin_move:
  assumes ok: "ks_ok x s" and j: "j < length (sc_fin s)" "\<not> sf_gone (snd (sc_fin s ! j))"
    and s': "s' = ks_set_fin j pc t" and pc: "\<not> sf_passed pc"
    and t: "sc_fin t = sc_fin s" "sc_map t = sc_map s" "sc_finishChan t = sc_finishChan s" "sc_cnt t = sc_cnt s"
      "sc_phase t = sc_phase s" "sc_prep t = sc_prep s" "chans_open s \<Longrightarrow> chans_open t"
      "ch_cap (sc_errChan t) = ch_cap (sc_errChan s)" "ch_cap (sc_readyChan t) = ch_cap (sc_readyChan s)"
  shows "ks_ok x s'"
proof -
  note ph = ks_ok_fin_phase [OF ok j]
  from ok ph have "results_ok s" by (simp add: ks_ok_def Let_def)
  moreover have "\<not> sf_passed (snd (sc_fin s ! j))" using j(2) by (cases "snd (sc_fin s ! j)") auto
  ultimately have "results_ok s'" using results_ok_move [OF _ j(1) _ pc s' t(1-4)] by blast
  with ok ph s' t show ?thesis by (auto simp: ks_ok_def Let_def chans_open_def)
qed

text \<open>One more result in the channel of results.\<close>

lemma results_ok_pass:
  assumes "results_ok s" and "j < length (sc_fin s)" and "\<not> sf_passed (snd (sc_fin s ! j))"
    and "sc_fin s' = (sc_fin s)[j := (fst (sc_fin s ! j), SFDone (Some f))]" and "sc_map s' = sc_map s"
    and "sc_cnt s' = sc_cnt s" and "sc_finishChan s' = sc_finishChan s\<lparr>ch_buf := ch_buf (sc_finishChan s) @ [f]\<rparr>"
  shows "results_ok s'"
proof -
  from length_filter_update [of j "sc_fin s" "sf_passed \<circ> snd" "(fst (sc_fin s ! j), SFDone (Some f))"] assms(2,3)
  have "n_passed s' = Suc (n_passed s)" by (simp add: n_passed_def assms(4))
  moreover have "map fst (sc_fin s') = map fst (sc_fin s)"
    using assms(2) by (simp add: assms(4) map_update list_update_same_conv)
  ultimately show ?thesis using assms(1) by (auto simp: results_ok_def assms(5-7))
qed

lemma ks_ok_fin:
  assumes ok: "ks_ok x s" and a: "ks_fin_act x a s = Some s'"
  shows "ks_ok x s'"
  using a
proof (cases rule: ks_fin_cases)
  case (move j pc m)
  have "\<not> sf_passed pc" using move(3) by (cases pc) auto
  from ks_ok_fin_move [OF ok move(1,2,4) this] show ?thesis by (simp add: chans_open_def)
next
  case (leave j)
  from ks_ok_fin_move [OF ok leave(1,2,4)] show ?thesis by (simp add: chans_open_def)
next
  case (report j e m)
  note ph = ks_ok_fin_phase [OF ok report(1,2)]
  show ?thesis
  proof (cases rule: ks_report_cases [of "s\<lparr>sc_out := sc_out s @ m\<rparr>" j e])
    case put
    from ks_ok_fin_move [OF ok report(1,2) report(3) [unfolded put(3)]] show ?thesis by (simp add: chans_open_def)
  next
    case full
    from ks_ok_fin_move [OF ok report(1,2) report(3) [unfolded full(3)]] show ?thesis by (simp add: chans_open_def)
  next
    case (panic m')
    with ok ph report(3) show ?thesis by (simp add: ks_ok_def Let_def chans_open_def)
  qed
next
  case (pass j f)
  then have g: "\<not> sf_gone (snd (sc_fin s ! j))" by simp
  note ph = ks_ok_fin_phase [OF ok pass(1) g]
  from ok ph have "results_ok s" by (simp add: ks_ok_def Let_def)
  from results_ok_pass [OF this pass(1), of s' f] pass(2,5) have "results_ok s'" by simp
  with ok ph show ?thesis by (simp add: ks_ok_def Let_def chans_open_def pass(5))
next
  case (panic j m)
  from ks_ok_fin_phase [OF ok panic(1,2)] ok panic(3) show ?thesis
    by (simp add: ks_ok_def Let_def results_ok_def)
qed

lemma ks_ok_cancel:
  assumes ok: "ks_ok x s" and a: "ks_cancel_act x a s = Some s'"
  shows "ks_ok x s'"
  using a
proof (cases rule: ks_cancel_cases)
  case (ends cnt)
  with ok show ?thesis
    by (cases "sc_phase s") (auto simp: ks_ok_def Let_def chans_open_def results_ok_def n_passed_def)
next
  case (one cnt i js)
  with ok show ?thesis
    by (cases "sc_phase s")
      (auto simp: ks_ok_def Let_def ks_cancel_one_def chans_open_def results_ok_def n_passed_def)
qed

lemma ks_ok_main:
  assumes ok: "ks_ok x s" and a: "ks_main_act x a s = Some s'"
  shows "ks_ok x s'"
  using a
proof (cases rule: ks_main_cases)
  case prepared
  with ok show ?thesis by (auto simp: ks_ok_def Let_def chans_open_def)
next
  case (early err c)
  with ok show ?thesis by (auto simp: ks_ok_def Let_def)
next
  case (take i js)
  let ?m = "AList.update (sx_rid x (pid_Id (ks_parties x ! i))) i (sc_map s)"
  have "?m \<noteq> []" by (cases "sc_map s") auto
  moreover have "map fst (map (\<lambda>(_, k). (k, SFNew)) ?m) = map snd ?m" by (simp add: comp_def case_prod_beta)
  moreover have "filter (sf_passed \<circ> snd) (map (\<lambda>(_, k). (k, SFNew)) ?m) = []" by (auto simp: filter_empty_conv)
  ultimately show ?thesis
    using ok take by (simp add: ks_ok_def ks_add_ready_def Let_def chans_open_def results_ok_def n_passed_def make_chan_def
        del: map_map)
next
  case finished
  with ok show ?thesis by (auto simp: ks_ok_def Let_def chans_open_def results_ok_def n_passed_def)
next
  case (fails err c)
  with ok show ?thesis by (simp add: ks_ok_def Let_def)
next
  case (result f fs)
  let ?t = "s\<lparr>sc_finishChan := (sc_finishChan s)\<lparr>ch_buf := fs\<rparr>\<rparr>"
  from ok result(1) have old: "results_ok s" "chans_open s" "list_all sp_gone (sc_prep s)"
    "list_all (sf_gone \<circ> snd) (sc_fin s)" "length (sc_prep s) = length (ks_parties x)"
    "ch_cap (sc_errChan s) = length (ks_parties x)" "ch_cap (sc_readyChan s) = length (ks_parties x)"
    by (simp_all add: ks_ok_def Let_def)
  show ?thesis
  proof (cases "\<exists>r. sc_phase (ks_take_finish x f ?t) = KSReturned r")
    case True
    with old result(3) show ?thesis
      by (auto simp: ks_take_finish_def ks_ok_def Let_def split: if_splits)
  next
    case False
    then have s': "s' = ?t\<lparr>sc_cnt := sc_cnt s + 1\<rparr>"
      by (auto simp: result(3) ks_take_finish_def Let_def split: if_splits)
    from old(1) result(2) obtain k where "sc_cnt s = of_nat k" "Suc (length fs) + k = n_passed s"
      by (auto simp: results_ok_def)
    then have "\<exists>k. sc_cnt s + 1 = of_nat k \<and> length fs + k = n_passed s"
      by (intro exI [of _ "Suc k"]) (simp add: add.commute)
    then have "results_ok s'" using old(1) by (simp add: results_ok_def s' n_passed_def)
    with old result(1) show ?thesis by (simp add: ks_ok_def Let_def s' chans_open_def)
  qed
qed

lemma ks_ok_init: "ks_ok x (ks_init x)"
  by (simp add: ks_ok_def ks_init_def Let_def chans_open_def make_chan_def)

lemma ks_ok_act: "ks_ok x s \<Longrightarrow> ks_act x a s = Some s' \<Longrightarrow> ks_ok x s'"
proof (erule ks_act_cases)
  fix err assume "ks_ok x s" and "s' = s\<lparr>sc_ctx := Some err\<rparr>"
  then show ?thesis
    by (cases "sc_phase s") (auto simp: ks_ok_def Let_def chans_open_def results_ok_def n_passed_def n_gone_def)
qed (fact ks_ok_prep ks_ok_fin ks_ok_cancel ks_ok_main)+

lemma ks_ok_reach: "ks_reach x s \<Longrightarrow> ks_ok x s"
  by (induction rule: ks_reach.induct) (auto simp: ks_ok_init dest: ks_ok_act)

section \<open>The map of ready streams\<close>

definition ks_ids :: "ks_call \<Rightarrow> string list" where
  "ks_ids x = map (\<lambda>p. sx_rid x (pid_Id p)) (ks_parties x)"

definition ks_map_ok :: "ks_call \<Rightarrow> ks_state \<Rightarrow> bool" where
  "ks_map_ok x s \<longleftrightarrow> distinct (map fst (sc_map s)) \<and>
     distinct (map snd (sc_map s) @ ch_buf (sc_readyChan s)) \<and>
     (\<forall>i \<in> set (map snd (sc_map s) @ ch_buf (sc_readyChan s)).
        i < length (sc_prep s) \<and> sc_prep s ! i = SPDone True) \<and>
     (\<forall>(k, i) \<in> set (sc_map s). k = ks_ids x ! i)"

lemma ks_map_ok_same:
  "ks_map_ok x s \<Longrightarrow> sc_map s' = sc_map s \<Longrightarrow> sc_readyChan s' = sc_readyChan s \<Longrightarrow> sc_prep s' = sc_prep s \<Longrightarrow>
     ks_map_ok x s'"
  by (simp add: ks_map_ok_def)

lemma ks_map_ok_prep:
  assumes "ks_map_ok x s" and "i < length (sc_prep s)" and "\<not> sp_gone (sc_prep s ! i)"
    and "sc_prep s' = (sc_prep s)[i := pc]" and "sc_map s' = sc_map s"
    and "ch_buf (sc_readyChan s') = ch_buf (sc_readyChan s)"
  shows "ks_map_ok x s'"
proof -
  have "i \<notin> set (map snd (sc_map s) @ ch_buf (sc_readyChan s))"
    using assms(1,3) unfolding ks_map_ok_def by (metis sp_gone.simps(1))
  then have "\<forall>l \<in> set (map snd (sc_map s) @ ch_buf (sc_readyChan s)). (sc_prep s)[i := pc] ! l = sc_prep s ! l"
    by (metis nth_list_update_neq)
  with assms(1) show ?thesis unfolding ks_map_ok_def assms(4-6) by simp
qed

lemma ks_map_ok_add:
  assumes ok: "ks_map_ok x s" and n: "length (sc_prep s) = length (ks_parties x)"
    and buf: "ch_buf (sc_readyChan s) = i # js"
  shows "ks_map_ok x (ks_add_ready x i (s\<lparr>sc_readyChan := (sc_readyChan s)\<lparr>ch_buf := js\<rparr>\<rparr>))" (is "ks_map_ok x ?s'")
proof -
  let ?k = "sx_rid x (pid_Id (ks_parties x ! i))"
  let ?m = "AList.update ?k i (sc_map s)"
  have fields: "sc_map ?s' = ?m" "ch_buf (sc_readyChan ?s') = js" "sc_prep ?s' = sc_prep s"
    by (simp_all add: ks_add_ready_def Let_def)
  have i: "i < length (sc_prep s)" "sc_prep s ! i = SPDone True" "i \<notin> set (map snd (sc_map s))" "i \<notin> set js"
    "distinct js"
    using ok buf by (auto simp: ks_map_ok_def)
  have sub: "set (map snd ?m) \<subseteq> insert i (set (map snd (sc_map s)))" by (rule update_snd_sub)
  have "distinct (map fst ?m)" using ok by (simp add: ks_map_ok_def distinct_update)
  moreover have "distinct (map snd ?m @ js)"
  proof -
    have "distinct (map snd ?m)" using ok i(3) by (intro update_snd_distinct) (auto simp: ks_map_ok_def)
    moreover have "set (map snd ?m) \<inter> set js = {}" using sub i(4) ok buf by (auto simp: ks_map_ok_def)
    ultimately show ?thesis using i(5) by simp
  qed
  moreover have "\<forall>l \<in> set (map snd ?m @ js). l < length (sc_prep s) \<and> sc_prep s ! l = SPDone True"
  proof -
    have "set (map snd ?m @ js) \<subseteq> insert i (set (map snd (sc_map s) @ ch_buf (sc_readyChan s)))"
      using sub buf by auto
    with ok i(1,2) show ?thesis unfolding ks_map_ok_def by (metis (no_types, lifting) insertE subsetD)
  qed
  moreover have "\<forall>(k, l) \<in> set ?m. k = ks_ids x ! l"
  proof -
    have "set ?m \<subseteq> insert (?k, i) (set (sc_map s))" by (rule set_update_sub)
    moreover have "?k = ks_ids x ! i" using i(1) n by (simp add: ks_ids_def)
    ultimately show ?thesis using ok unfolding ks_map_ok_def by blast
  qed
  ultimately show ?thesis unfolding ks_map_ok_def fields by simp
qed

lemma ks_map_ok_act:
  assumes ok: "ks_ok x s" and m: "ks_map_ok x s" and a: "ks_act x a s = Some s'"
  shows "ks_map_ok x s'"
  using a
proof (cases rule: ks_act_cases)
  case (ctx err)
  with m show ?thesis by (simp add: ks_map_ok_def)
next
  case prep
  then show ?thesis
  proof (cases rule: ks_prep_cases)
    case (ready i)
    then have "i \<notin> set (map snd (sc_map s) @ ch_buf (sc_readyChan s))"
      using m unfolding ks_map_ok_def by (metis sp_pc.distinct(41))
    with m ready(1) show ?thesis unfolding ks_map_ok_def by (auto simp: nth_list_update ready(5))
  next
    case (panic i ms)
    with m show ?thesis by (simp add: ks_map_ok_def)
  qed (use ks_map_ok_prep [OF m] in \<open>auto simp: ks_drop_stream_def\<close>)
next
  case fin
  then show ?thesis
    by (cases rule: ks_fin_cases)
      (auto intro: ks_map_ok_same [OF m] simp: ks_report_def split: outcome.splits)
next
  case cancel
  then show ?thesis
    by (cases rule: ks_cancel_cases) (use m in \<open>auto simp: ks_map_ok_def ks_cancel_one_def Let_def\<close>)
next
  case main
  from ok have n: "length (sc_prep s) = length (ks_parties x)" by (simp add: ks_ok_def Let_def)
  from main show ?thesis
    by (cases rule: ks_main_cases)
      (use m ks_map_ok_add [OF m n] in \<open>auto simp: ks_map_ok_def ks_take_finish_def Let_def\<close>)
qed

lemma ks_map_ok_reach: "ks_reach x s \<Longrightarrow> ks_map_ok x s"
proof (induction rule: ks_reach.induct)
  case ks_start
  show ?case by (simp add: ks_map_ok_def ks_init_def Let_def make_chan_def)
next
  case (ks_next s a s')
  from ks_map_ok_act [OF ks_ok_reach [OF ks_next.hyps(1)] ks_next.IH ks_next.hyps(2)] show ?case .
qed

section \<open>What signing starts with, and what it ends with\<close>

text \<open>More ready streams than the threshold, and no more than that takes.\<close>

definition quorum :: "ks_call \<Rightarrow> nat \<Rightarrow> bool" where
  "quorum x k \<longleftrightarrow> kd_Threshold (sx_keyData x) <s of_nat k \<and>
     (k = 1 \<or> \<not> kd_Threshold (sx_keyData x) <s of_nat (k - 1))"

definition starts_ok :: "ks_state \<Rightarrow> bool" where
  "starts_ok s \<longleftrightarrow> (\<forall>(i, m) \<in> set (sc_out s). \<forall>l. m = ks_start_msg l \<longrightarrow>
     l = sc_signPartyIds s \<and> i \<in> set (map fst (sc_fin s)))"

definition passed_ok :: "ks_state \<Rightarrow> bool" where
  "passed_ok s \<longleftrightarrow> (\<forall>f \<in> set (ch_buf (sc_finishChan s)). \<exists>i. (i, SFDone (Some f)) \<in> set (sc_fin s))"

definition ks_sign_ok :: "ks_call \<Rightarrow> ks_state \<Rightarrow> bool" where
  "ks_sign_ok x s \<longleftrightarrow> starts_ok s \<and> passed_ok s \<and>
     (sc_fin s = [] \<longrightarrow> sc_map s = [] \<or> \<not> kd_Threshold (sx_keyData x) <s of_nat (length (sc_map s))) \<and>
     (sc_fin s \<noteq> [] \<longrightarrow> quorum x (length (sc_map s)) \<and> map fst (sc_fin s) = map snd (sc_map s) \<and>
        sc_signPartyIds s = ks_signers x (sc_map s)) \<and>
     (\<forall>resp. sc_phase s = KSReturned (Inr resp) \<longrightarrow> (\<exists>i f. (i, SFDone (Some f)) \<in> set (sc_fin s) \<and>
        ksf_IsSuccess f \<and> resp = ks_response x f))"

lemma ks_msgs [simp]:
  "ks_prepare_msg x \<noteq> ks_start_msg l" "ks_start_msg l \<noteq> ks_prepare_msg x" "ks_start_msg l \<noteq> ks_cancel_msg"
  "ks_cancel_msg \<noteq> ks_start_msg l" "ks_start_msg l = ks_start_msg l' \<longleftrightarrow> l = l'"
  by (simp_all add: ks_prepare_msg_def ks_start_msg_def ks_cancel_msg_def)

text \<open>Steps that leave the signing goroutines alone keep the invariant.\<close>

lemma ks_sign_ok_same:
  assumes "ks_sign_ok x s" and "sc_fin s' = sc_fin s" and "sc_map s' = sc_map s"
    and "sc_signPartyIds s' = sc_signPartyIds s" and "sc_finishChan s' = sc_finishChan s"
    and "\<forall>resp. sc_phase s' = KSReturned (Inr resp) \<longrightarrow> sc_phase s = KSReturned (Inr resp)"
    and "sc_out s' = sc_out s @ out" and "\<forall>(i, m) \<in> set out. \<forall>l. m \<noteq> ks_start_msg l"
  shows "ks_sign_ok x s'"
  using assms(1,6,8) unfolding ks_sign_ok_def starts_ok_def passed_ok_def assms(2-5,7) by auto

lemma ks_sign_ok_fin_move:
  assumes ok: "ks_sign_ok x s" and j: "j < length (sc_fin s)" "\<not> sf_gone (snd (sc_fin s ! j))"
    and s': "s' = ks_set_fin j pc t" "sc_fin t = sc_fin s" "sc_map t = sc_map s"
      "sc_signPartyIds t = sc_signPartyIds s" "sc_phase t = sc_phase s" "sc_out t = sc_out s @ m"
    and m: "m = [] \<or> m = [(fst (sc_fin s ! j), ks_start_msg (sc_signPartyIds s))]"
    and b: "set (ch_buf (sc_finishChan t)) \<subseteq> set (ch_buf (sc_finishChan s)) \<union> {f. pc = SFDone (Some f)}"
  shows "ks_sign_ok x s'"
proof -
  have fst: "map fst (sc_fin s') = map fst (sc_fin s)"
    using j(1) by (simp add: s' map_update list_update_same_conv)
  have keep: "p \<in> set (sc_fin s')" if "p \<in> set (sc_fin s)" "sf_gone (snd p)" for p
    using that j unfolding in_set_conv_nth by (auto simp: s' nth_list_update)
  have new: "(fst (sc_fin s ! j), pc) \<in> set (sc_fin s')"
    using j(1) by (simp add: s' set_update_memI)
  define A where "A = set (map fst (sc_fin s))"
  have jmem: "fst (sc_fin s ! j) \<in> A" using j(1) by (simp add: A_def)
  have st: "\<forall>(i, m) \<in> set (sc_out s). \<forall>l. m = ks_start_msg l \<longrightarrow> l = sc_signPartyIds s \<and> i \<in> A"
    using ok by (simp add: ks_sign_ok_def starts_ok_def A_def)
  have "starts_ok s'"
    using m jmem st unfolding starts_ok_def fst A_def [symmetric] by (auto simp: s')
  moreover have "passed_ok s'"
    unfolding passed_ok_def
  proof
    fix f assume "f \<in> set (ch_buf (sc_finishChan s'))"
    with b have "f \<in> set (ch_buf (sc_finishChan s)) \<or> pc = SFDone (Some f)" by (auto simp: s')
    then show "\<exists>i. (i, SFDone (Some f)) \<in> set (sc_fin s')"
    proof
      assume "f \<in> set (ch_buf (sc_finishChan s))"
      with ok obtain i where "(i, SFDone (Some f)) \<in> set (sc_fin s)"
        by (auto simp: ks_sign_ok_def passed_ok_def)
      with keep show ?thesis by fastforce
    qed (use new in blast)
  qed
  moreover have "sc_fin s' = [] \<longleftrightarrow> sc_fin s = []" by (simp add: s')
  moreover have "\<exists>i f. (i, SFDone (Some f)) \<in> set (sc_fin s') \<and> ksf_IsSuccess f \<and> resp = ks_response x f"
    if "sc_phase s' = KSReturned (Inr resp)" for resp
  proof -
    from that have "sc_phase s = KSReturned (Inr resp)" by (simp add: s')
    with ok obtain i f where "(i, SFDone (Some f)) \<in> set (sc_fin s)" "ksf_IsSuccess f" "resp = ks_response x f"
      by (auto simp: ks_sign_ok_def)
    with keep show ?thesis by fastforce
  qed
  ultimately show ?thesis
    using ok fst unfolding ks_sign_ok_def by (simp add: s')
qed

lemma ks_sign_ok_fin:
  assumes inv: "ks_ok x s" and ok: "ks_sign_ok x s" and a: "ks_fin_act x a s = Some s'"
  shows "ks_sign_ok x s'"
  using a
proof (cases rule: ks_fin_cases)
  case (move j pc m)
  from ks_sign_ok_fin_move [OF ok move(1,2,4)] move(5) show ?thesis by simp
next
  case (leave j)
  from ks_sign_ok_fin_move [OF ok leave(1,2,4), of "[]"] show ?thesis by simp
next
  case (report j e m)
  from ks_ok_fin_phase [OF inv report(1,2)] inv have op: "chans_open s" by (simp add: ks_ok_def Let_def)
  show ?thesis
  proof (cases rule: ks_report_cases [of "s\<lparr>sc_out := sc_out s @ m\<rparr>" j e])
    case put
    from ks_sign_ok_fin_move [OF ok report(1,2) report(3) [unfolded put(3)]] report(4) show ?thesis by simp
  next
    case full
    from ks_sign_ok_fin_move [OF ok report(1,2) report(3) [unfolded full(3)]] report(4) show ?thesis by simp
  next
    case (panic m')
    with op show ?thesis by (simp add: chans_open_def)
  qed
next
  case (pass j f)
  then have "\<not> sf_gone (snd (sc_fin s ! j))" by simp
  from ks_sign_ok_fin_move [OF ok pass(1) this pass(5), of "[]"] show ?thesis by simp
next
  case (panic j m)
  from ks_ok_fin_phase [OF inv panic(1,2)] inv panic(3) show ?thesis
    by (simp add: ks_ok_def Let_def results_ok_def)
qed

lemma ks_sign_ok_add:
  assumes ok: "ks_sign_ok x s" and fin: "sc_fin s = []" and m: "distinct (map fst (sc_map s))"
    and ph: "sc_phase s = KSWaitReady"
  shows "ks_sign_ok x (ks_add_ready x i (s\<lparr>sc_readyChan := c\<rparr>))"
proof -
  let ?m = "AList.update (sx_rid x (pid_Id (ks_parties x ! i))) i (sc_map s)"
  have nostart: "m \<noteq> ks_start_msg l" if "(i, m) \<in> set (sc_out s)" for i m l
    using ok that fin by (auto simp: ks_sign_ok_def starts_ok_def)
  show ?thesis
  proof (cases "kd_Threshold (sx_keyData x) <s of_nat (length ?m)")
    case False
    have "ch_buf (sc_finishChan s) = []" using ok fin by (auto simp: ks_sign_ok_def passed_ok_def)
    with False fin ph nostart show ?thesis
      by (auto simp: ks_add_ready_def Let_def ks_sign_ok_def starts_ok_def passed_ok_def)
  next
    case True
    have "length ?m = 1 \<or> \<not> kd_Threshold (sx_keyData x) <s of_nat (length ?m - 1)"
    proof (cases "sc_map s = []")
      case False
      with ok fin have old: "\<not> kd_Threshold (sx_keyData x) <s of_nat (length (sc_map s))"
        by (simp add: ks_sign_ok_def)
      with True have "length ?m \<noteq> length (sc_map s)" by auto
      with length_AList_update [OF m] have "length ?m = Suc (length (sc_map s))"
        by (auto split: if_splits)
      with old show ?thesis by simp
    qed simp
    with True have "quorum x (length ?m)" by (simp add: quorum_def)
    moreover have "map (\<lambda>(_, k). (k, SFNew)) ?m \<noteq> []" by simp
    moreover have "map fst (map (\<lambda>(_, k). (k, SFNew)) ?m) = map snd ?m" by (simp add: comp_def case_prod_beta)
    ultimately show ?thesis
      using True nostart
      by (auto simp: ks_add_ready_def Let_def ks_sign_ok_def starts_ok_def passed_ok_def make_chan_def
          simp del: map_map map_is_Nil_conv)
  qed
qed

lemma ks_sign_ok_result:
  assumes ok: "ks_sign_ok x s" and b: "ch_buf (sc_finishChan s) = f # fs"
    and ph: "sc_phase s = KSWaitFinish"
  shows "ks_sign_ok x (ks_take_finish x f (s\<lparr>sc_finishChan := (sc_finishChan s)\<lparr>ch_buf := fs\<rparr>\<rparr>))" (is "ks_sign_ok x ?s'")
proof -
  from ok b obtain i where i: "(i, SFDone (Some f)) \<in> set (sc_fin s)"
    by (auto simp: ks_sign_ok_def passed_ok_def)
  have fields: "sc_fin ?s' = sc_fin s" "sc_map ?s' = sc_map s" "sc_signPartyIds ?s' = sc_signPartyIds s"
    "sc_out ?s' = sc_out s" "ch_buf (sc_finishChan ?s') = fs"
    by (simp_all add: ks_take_finish_def Let_def ks_return_def ks_close_def chan_close_def)
  have "sc_phase ?s' = KSReturned (Inr resp) \<Longrightarrow> ksf_IsSuccess f \<and> resp = ks_response x f" for resp
    using ph by (auto simp: ks_take_finish_def Let_def split: if_splits)
  with ok i b show ?thesis
    unfolding ks_sign_ok_def starts_ok_def passed_ok_def fields by fastforce
qed

lemma ks_sign_ok_act:
  assumes inv: "ks_ok x s" and m: "ks_map_ok x s" and ok: "ks_sign_ok x s" and a: "ks_act x a s = Some s'"
  shows "ks_sign_ok x s'"
  using a
proof (cases rule: ks_act_cases)
  case (ctx err)
  with ok show ?thesis by (auto intro: ks_sign_ok_same [OF ok, of _ "[]"])
next
  case prep
  then show ?thesis
  proof (cases rule: ks_prep_cases)
    case (move i pc ms)
    then show ?thesis by (intro ks_sign_ok_same [OF ok, of _ ms]) auto
  qed (auto intro!: ks_sign_ok_same [OF ok, of _ "[]"] simp: ks_drop_stream_def)
next
  case fin
  from ks_sign_ok_fin [OF inv ok this] show ?thesis .
next
  case cancel
  then show ?thesis
  proof (cases rule: ks_cancel_cases)
    case (one cnt i js)
    then show ?thesis
      by (intro ks_sign_ok_same [OF ok, of _ "[(i, ks_cancel_msg)]"]) (auto simp: ks_cancel_one_def Let_def)
  qed (auto intro!: ks_sign_ok_same [OF ok, of _ "[]"])
next
  case main
  then show ?thesis
  proof (cases rule: ks_main_cases)
    case (take i js)
    from inv take(1) have "sc_fin s = []" by (simp add: ks_ok_def Let_def)
    with take ks_sign_ok_add [OF ok] m show ?thesis by (simp add: ks_map_ok_def)
  next
    case (result f fs)
    with ks_sign_ok_result [OF ok] show ?thesis by simp
  qed (use ok in \<open>auto simp: ks_sign_ok_def starts_ok_def passed_ok_def ks_return_def ks_return_early_def
      ks_close_def chan_close_def\<close>)
qed

lemma ks_sign_ok_reach: "ks_reach x s \<Longrightarrow> ks_sign_ok x s"
proof (induction rule: ks_reach.induct)
  case ks_start
  show ?case by (simp add: ks_sign_ok_def ks_init_def Let_def make_chan_def starts_ok_def passed_ok_def)
next
  case (ks_next s a s')
  from ks_sign_ok_act [OF ks_ok_reach [OF ks_next.hyps(1)] ks_map_ok_reach [OF ks_next.hyps(1)]
      ks_next.IH ks_next.hyps(2)] show ?case .
qed

section \<open>What the main goroutine waits for\<close>

text \<open>
  While the context lives: a prepare goroutine that is gone left its error or its stream in a
  channel or its id in the map, and if no error is waiting then every signing goroutine that is
  gone passed its result on. The failures counted are fewer than the signing parties.
\<close>

definition ks_wait_ok :: "ks_call \<Rightarrow> ks_state \<Rightarrow> bool" where
  "ks_wait_ok x s \<longleftrightarrow>
     (sc_phase s = WaitNew \<or> sc_phase s = KSWaitReady \<longrightarrow>
        (sc_ctx s = None \<longrightarrow> SPDone False \<in> set (sc_prep s) \<longrightarrow> ch_buf (sc_errChan s) \<noteq> []) \<and>
        (\<forall>i < length (sc_prep s). sc_prep s ! i = SPDone True \<longrightarrow>
           i \<in> set (ch_buf (sc_readyChan s)) \<or> ks_ids x ! i \<in> fst ` set (sc_map s))) \<and>
     (sc_phase s = WaitAll \<or> sc_phase s = KSWaitFinish \<longrightarrow>
        (sc_ctx s = None \<longrightarrow> ch_buf (sc_errChan s) = [] \<longrightarrow>
           (\<forall>p \<in> set (sc_fin s). sf_gone (snd p) \<longrightarrow> sf_passed (snd p))) \<and>
        (\<exists>k < length (sc_map s). sc_cnt s = of_nat k \<and> length (ch_buf (sc_finishChan s)) + k = n_passed s))"

lemma ks_wait_ok_prep:
  assumes inv: "ks_ok x s" and ok: "ks_wait_ok x s" and a: "ks_prep_act x a s = Some s'"
  shows "ks_wait_ok x s'"
  using a
proof (cases rule: ks_prep_cases)
  case (move i pc m)
  have ph: "sc_phase s = WaitNew" by (rule ks_ok_prep_phase [OF inv move(1,2)])
  have "SPDone False \<in> set ((sc_prep s)[i := pc]) \<Longrightarrow> SPDone False \<in> set (sc_prep s)"
    using move(3) set_update_subset_insert [of "sc_prep s" i pc] by auto
  moreover have "(sc_prep s)[i := pc] ! l = SPDone True \<Longrightarrow> sc_prep s ! l = SPDone True" for l
    using move(1,3) by (cases "l = i") auto
  ultimately show ?thesis using ok ph by (auto simp: ks_wait_ok_def move(4))
next
  case (leave i b)
  have ph: "sc_phase s = WaitNew" by (rule ks_ok_prep_phase [OF inv leave(1,2)])
  have "(sc_prep s)[i := SPDone False] ! l = SPDone True \<Longrightarrow> sc_prep s ! l = SPDone True" for l
    using leave(1) by (cases "l = i") auto
  with ok ph leave(3) show ?thesis by (auto simp: ks_wait_ok_def leave(4) ks_drop_stream_def)
next
  case (err i sel opened e)
  then have ph: "sc_phase s = WaitNew" using ks_ok_prep_phase [OF inv err(1)] by simp
  have "(sc_prep s)[i := SPDone False] ! l = SPDone True \<Longrightarrow> sc_prep s ! l = SPDone True" for l
    using err(1) by (cases "l = i") auto
  with ok ph show ?thesis by (auto simp: ks_wait_ok_def err(5) ks_drop_stream_def)
next
  case (ready i)
  then have ph: "sc_phase s = WaitNew" using ks_ok_prep_phase [OF inv ready(1)] by simp
  have "SPDone False \<in> set ((sc_prep s)[i := SPDone True]) \<Longrightarrow> SPDone False \<in> set (sc_prep s)"
    using set_update_subset_insert [of "sc_prep s" i "SPDone True"] by auto
  moreover have "(sc_prep s)[i := SPDone True] ! l = SPDone True \<Longrightarrow> l = i \<or> sc_prep s ! l = SPDone True" for l
    by (cases "l = i") auto
  ultimately show ?thesis using ok ph by (auto simp: ks_wait_ok_def ready(5))
next
  case (panic i m)
  then show ?thesis by (simp add: ks_wait_ok_def)
qed

lemma ks_wait_ok_fin_move:
  assumes ok: "ks_wait_ok x s" and ph: "sc_phase s = WaitAll"
    and j: "j < length (sc_fin s)" "\<not> sf_gone (snd (sc_fin s ! j))"
    and s': "s' = ks_set_fin j pc t" "sc_fin t = sc_fin s" "sc_map t = sc_map s" "sc_ctx t = sc_ctx s"
      "sc_phase t = sc_phase s" "sc_cnt t = sc_cnt s"
    and b: "length (ch_buf (sc_finishChan t)) = length (ch_buf (sc_finishChan s)) + (if sf_passed pc then 1 else 0)"
    and e: "sc_ctx s \<noteq> None \<or> ch_buf (sc_errChan t) \<noteq> [] \<or>
      ch_buf (sc_errChan t) = ch_buf (sc_errChan s) \<and> (sf_gone pc \<longrightarrow> sf_passed pc)"
  shows "ks_wait_ok x s'"
proof -
  have "\<not> sf_passed (snd (sc_fin s ! j))" using j(2) by (cases "snd (sc_fin s ! j)") auto
  with length_filter_update [of j "sc_fin s" "sf_passed \<circ> snd" "(fst (sc_fin s ! j), pc)"] j(1)
  have n: "n_passed s' = n_passed s + (if sf_passed pc then 1 else 0)"
    by (simp add: n_passed_def s')
  have sub: "set (sc_fin s') \<subseteq> insert (fst (sc_fin s ! j), pc) (set (sc_fin s))"
    by (simp add: s' set_update_subset_insert)
  from ok ph obtain k where k: "k < length (sc_map s)" "sc_cnt s = of_nat k"
    "length (ch_buf (sc_finishChan s)) + k = n_passed s" by (auto simp: ks_wait_ok_def)
  have "\<forall>p \<in> set (sc_fin s'). sf_gone (snd p) \<longrightarrow> sf_passed (snd p)"
    if "sc_ctx s = None" "ch_buf (sc_errChan t) = []"
  proof -
    from that e have "ch_buf (sc_errChan s) = []" and pc: "sf_gone pc \<longrightarrow> sf_passed pc" by auto
    with ok ph that have "\<forall>p \<in> set (sc_fin s). sf_gone (snd p) \<longrightarrow> sf_passed (snd p)"
      by (simp add: ks_wait_ok_def)
    with sub pc show ?thesis by auto
  qed
  moreover have "\<exists>k < length (sc_map s). sc_cnt s = of_nat k \<and> length (ch_buf (sc_finishChan t)) + k = n_passed s'"
    using k b n by (intro exI [of _ k]) auto
  ultimately show ?thesis using ph by (simp add: ks_wait_ok_def s')
qed

lemma ks_wait_ok_fin:
  assumes inv: "ks_ok x s" and ok: "ks_wait_ok x s" and a: "ks_fin_act x a s = Some s'"
    and n: "ks_parties x \<noteq> []"
  shows "ks_wait_ok x s'"
  using a
proof (cases rule: ks_fin_cases)
  case (move j pc m)
  have p: "\<not> sf_passed pc" "\<not> sf_gone pc" using move(3) by (cases pc; simp)+
  from ks_wait_ok_fin_move [OF ok ks_ok_fin_phase [OF inv move(1,2)] move(1,2,4)] p show ?thesis by simp
next
  case (leave j)
  from ks_wait_ok_fin_move [OF ok ks_ok_fin_phase [OF inv leave(1,2)] leave(1,2,4)] leave(3)
  show ?thesis by simp
next
  case (report j e m)
  note ph = ks_ok_fin_phase [OF inv report(1,2)]
  with inv n have op: "chans_open s" "0 < ch_cap (sc_errChan s)" by (simp_all add: ks_ok_def Let_def)
  show ?thesis
  proof (cases rule: ks_report_cases [of "s\<lparr>sc_out := sc_out s @ m\<rparr>" j e])
    case put
    from ks_wait_ok_fin_move [OF ok ph report(1,2) report(3) [unfolded put(3)]] show ?thesis by simp
  next
    case full
    from full(2) op(2) have "ch_buf (sc_errChan s) \<noteq> []" by auto
    with ks_wait_ok_fin_move [OF ok ph report(1,2) report(3) [unfolded full(3)]] show ?thesis by simp
  next
    case (panic m')
    with op show ?thesis by (simp add: chans_open_def)
  qed
next
  case (pass j f)
  then have g: "\<not> sf_gone (snd (sc_fin s ! j))" by simp
  from ks_wait_ok_fin_move [OF ok ks_ok_fin_phase [OF inv pass(1) g] pass(1) g pass(5)] show ?thesis by simp
next
  case (panic j m)
  then show ?thesis by (simp add: ks_wait_ok_def)
qed

lemma ks_map_length:
  assumes "ks_ok x s" and "ks_map_ok x s"
  shows "length (sc_map s) \<le> length (ks_parties x)"
proof -
  have "set (map snd (sc_map s)) \<subseteq> {..<length (ks_parties x)}"
    using assms by (auto simp: ks_ok_def ks_map_ok_def Let_def)
  from card_mono [OF _ this] distinct_card [of "map snd (sc_map s)"] assms(2) show ?thesis
    by (simp add: ks_map_ok_def)
qed

lemma ks_map_parties: "ks_ok x s \<Longrightarrow> ks_map_ok x s \<Longrightarrow> sc_map s \<noteq> [] \<Longrightarrow> ks_parties x \<noteq> []"
  using ks_map_length [of x s] by (cases "ks_parties x") auto

lemma ks_wait_ok_take:
  assumes inv: "ks_ok x s" and m: "ks_map_ok x s" and ok: "ks_wait_ok x s"
    and ph: "sc_phase s = KSWaitReady" and buf: "ch_buf (sc_readyChan s) = i # js"
  shows "ks_wait_ok x (ks_add_ready x i (s\<lparr>sc_readyChan := (sc_readyChan s)\<lparr>ch_buf := js\<rparr>\<rparr>))"
proof -
  let ?k = "sx_rid x (pid_Id (ks_parties x ! i))"
  let ?m = "AList.update ?k i (sc_map s)"
  have i: "i < length (ks_parties x)" "ks_ids x ! i = ?k"
    using m buf inv by (simp_all add: ks_map_ok_def ks_ok_def Let_def ks_ids_def)
  show ?thesis
  proof (cases "kd_Threshold (sx_keyData x) <s of_nat (length ?m)")
    case False
    have "l \<in> set js \<or> ks_ids x ! l \<in> fst ` set ?m"
      if "l < length (sc_prep s)" "sc_prep s ! l = SPDone True" for l
    proof -
      from that ok ph buf have "l = i \<or> l \<in> set js \<or> ks_ids x ! l \<in> fst ` set (sc_map s)"
        by (auto simp: ks_wait_ok_def)
      with i(2) show ?thesis by (auto simp: dom_update)
    qed
    with False ok ph show ?thesis by (simp add: ks_wait_ok_def ks_add_ready_def Let_def)
  next
    case True
    have "sc_cnt s = 0" using inv ph by (simp add: ks_ok_def Let_def)
    moreover have "filter (sf_passed \<circ> snd) (map (\<lambda>(_, k). (k, SFNew)) ?m) = []"
      by (auto simp: filter_empty_conv)
    ultimately show ?thesis
      using True by (auto simp: ks_wait_ok_def ks_add_ready_def Let_def make_chan_def n_passed_def
          intro!: exI [of _ 0] simp del: map_map)
  qed
qed

lemma ks_wait_ok_result:
  assumes ok: "ks_wait_ok x s" and ph: "sc_phase s = KSWaitFinish" and buf: "ch_buf (sc_finishChan s) = f # fs"
    and len: "length (sc_map s) < 2 ^ 32"
  shows "ks_wait_ok x (ks_take_finish x f (s\<lparr>sc_finishChan := (sc_finishChan s)\<lparr>ch_buf := fs\<rparr>\<rparr>))" (is "ks_wait_ok x ?s'")
proof -
  from ok ph buf obtain k where k: "k < length (sc_map s)" "sc_cnt s = of_nat k"
    "Suc (length fs) + k = n_passed s" by (auto simp: ks_wait_ok_def)
  show ?thesis
  proof (cases "ksf_IsSuccess f \<or> sc_cnt s + 1 = of_nat (length (sc_map s))")
    case True
    then show ?thesis by (auto simp: ks_wait_ok_def ks_take_finish_def Let_def)
  next
    case False
    with k have "Suc k \<noteq> length (sc_map s)" by (metis of_nat_Suc add.commute)
    with k have "\<exists>k < length (sc_map s). sc_cnt s + 1 = of_nat k \<and> length fs + k = n_passed s"
      by (intro exI [of _ "Suc k"]) (auto simp: add.commute)
    with False ok ph show ?thesis
      by (simp add: ks_wait_ok_def ks_take_finish_def Let_def n_passed_def)
  qed
qed

lemma ks_wait_ok_act:
  assumes inv: "ks_ok x s" and m: "ks_map_ok x s" and ok: "ks_wait_ok x s" and a: "ks_act x a s = Some s'"
    and len: "length (ks_parties x) < 2 ^ 32"
  shows "ks_wait_ok x s'"
  using a
proof (cases rule: ks_act_cases)
  case (ctx err)
  with ok show ?thesis by (simp add: ks_wait_ok_def n_passed_def)
next
  case prep
  from ks_wait_ok_prep [OF inv ok this] show ?thesis .
next
  case fin
  then have "sc_phase s = WaitAll"
    by (cases rule: ks_fin_cases) (auto intro: ks_ok_fin_phase [OF inv])
  with inv have "sc_map s \<noteq> []" by (simp add: ks_ok_def Let_def results_ok_def)
  from ks_wait_ok_fin [OF inv ok fin ks_map_parties [OF inv m this]] show ?thesis .
next
  case cancel
  then show ?thesis
  proof (cases rule: ks_cancel_cases)
    case (ends cnt)
    with ok show ?thesis by (simp add: ks_wait_ok_def n_passed_def)
  next
    case (one cnt i js)
    from one(1) inv have "sc_phase s \<noteq> WaitNew" "sc_phase s \<noteq> KSWaitReady"
      by (auto simp: ks_ok_def Let_def)
    with one ok show ?thesis by (simp add: ks_wait_ok_def n_passed_def ks_cancel_one_def Let_def)
  qed
next
  case main
  then show ?thesis
  proof (cases rule: ks_main_cases)
    case (take i js)
    with ks_wait_ok_take [OF inv m ok] show ?thesis by simp
  next
    case (result f fs)
    with ks_wait_ok_result [OF ok] ks_map_length [OF inv m] len show ?thesis by simp
  qed (use ok in \<open>simp_all add: ks_wait_ok_def n_passed_def\<close>)
qed

lemma ks_wait_ok_reach: "ks_reach x s \<Longrightarrow> length (ks_parties x) < 2 ^ 32 \<Longrightarrow> ks_wait_ok x s"
proof (induction rule: ks_reach.induct)
  case ks_start
  show ?case by (simp add: ks_wait_ok_def ks_init_def Let_def make_chan_def)
next
  case (ks_next s a s')
  from ks_wait_ok_act [OF ks_ok_reach ks_map_ok_reach] ks_next show ?case by blast
qed

lemmas ks_invs = ks_ok_reach ks_map_ok_reach ks_sign_ok_reach

end
