(* ===== verification/KeySignCoordProps.thy ===== *)
theory KeySignCoordProps
  imports KeySignCoordInv
begin

text \<open>
  The properties of the coordinator of signing: who is asked to sign, when a signature is
  returned, that no goroutine is ever stuck at a channel, that every run is finite and where it
  can stop, and what failures of single parties do to the call.
\<close>

section \<open>Every run is finite\<close>

fun sp_weight :: "sp_pc \<Rightarrow> nat" where
  "sp_weight SPNew = 6"
| "sp_weight SPDial = 5"
| "sp_weight SPOpened = 4"
| "sp_weight SPSent = 3"
| "sp_weight (SPErr sel opened err) = 2"
| "sp_weight SPReady = 2"
| "sp_weight (SPDone b) = 0"

fun sf_weight :: "sf_pc \<Rightarrow> nat" where
  "sf_weight SFNew = 4"
| "sf_weight SFSend = 3"
| "sf_weight SFSent = 2"
| "sf_weight (SFDone f) = 0"

fun phase_weight :: "nat \<Rightarrow> ks_phase \<Rightarrow> nat" where
  "phase_weight n WaitNew = 4 * n + 6"
| "phase_weight n KSWaitReady = 4 * n + 5"
| "phase_weight n WaitAll = 3"
| "phase_weight n KSWaitFinish = 2"
| "phase_weight n (KSReturned r) = 0"
| "phase_weight n (KSPanicked m) = 0"

definition ks_measure :: "ks_call \<Rightarrow> ks_state \<Rightarrow> nat" where
  "ks_measure x s =
     (if sc_ctx s = None then 1 else 0) + phase_weight (length (ks_parties x)) (sc_phase s) +
     sum_list (map sp_weight (sc_prep s)) + sum_list (map (sf_weight \<circ> snd) (sc_fin s)) +
     length (ch_buf (sc_readyChan s)) + length (ch_buf (sc_finishChan s)) +
     (case sc_cancel s of CLoop cnt \<Rightarrow> 1 | _ \<Rightarrow> 0)"

lemma ks_measure_ctx: "sc_ctx s = None \<Longrightarrow> ks_measure x (s\<lparr>sc_ctx := Some e\<rparr>) < ks_measure x s"
  by (simp add: ks_measure_def)

lemma sp_weight_drop:
  assumes "i < length (sc_prep s)" and "sp_weight (sc_prep s ! i) = sp_weight pc + d"
  shows "sum_list (map sp_weight ((sc_prep s)[i := pc])) + d = sum_list (map sp_weight (sc_prep s))"
  using sum_list_map_update [OF assms(1), of sp_weight pc] assms(2) by simp

lemma weight_less_prep:
  assumes "ks_prep_act x a s = Some s'" and inv: "ks_ok x s"
  shows "ks_measure x s' < ks_measure x s"
proof (cases a)
  case (KSCheck i)
  with assms sp_weight_drop [of i s SPDial 1] sp_weight_drop [of i s "SPDone False" 6] show ?thesis
    by (auto simp: ks_prep_is_def ks_measure_def split: if_splits)
next
  case (KSOpen i res)
  with assms sp_weight_drop [of i s SPOpened 1] sp_weight_drop [of i s "SPErr True False (the res)" 3] show ?thesis
    by (auto simp: ks_prep_is_def ks_measure_def split: if_splits option.splits)
next
  case (KSSend i res)
  with assms sp_weight_drop [of i s SPSent 1] sp_weight_drop [of i s "SPErr False True (the res)" 2] show ?thesis
    by (auto simp: ks_prep_is_def ks_measure_def split: if_splits option.splits)
next
  case (KSRecv i res)
  have "sp_weight (ks_reply x res) = 2" by (cases res) (auto split: option.splits MsgType.splits)
  with KSRecv assms sp_weight_drop [of i s "ks_reply x res" 1] show ?thesis
    by (auto simp: ks_prep_is_def ks_measure_def split: if_splits)
next
  case (KSPutErr i)
  with assms have i: "i < length (sc_prep s)" "sp_weight (sc_prep s ! i) = 2" "\<not> sp_gone (sc_prep s ! i)"
    by (auto split: if_splits sp_pc.splits)
  from ks_ok_prep_phase [OF inv i(1,3)] inv have "\<not> ch_closed (sc_errChan s)"
    by (simp add: ks_ok_def Let_def chans_open_def)
  with KSPutErr assms sp_weight_drop [of i s "SPDone False" 2] i(1,2) show ?thesis
    by (auto simp: ks_measure_def ks_drop_stream_def chan_send_cases split: sp_pc.splits outcome.splits)
next
  case (KSPutReady i)
  with assms have i: "i < length (sc_prep s)" "sc_prep s ! i = SPReady"
    by (auto simp: ks_prep_is_def split: if_splits)
  with ks_ok_prep_phase [OF inv i(1)] inv have "\<not> ch_closed (sc_readyChan s)"
    by (simp add: ks_ok_def Let_def chans_open_def)
  with KSPutReady assms sp_weight_drop [of i s "SPDone True" 2] i show ?thesis
    by (auto simp: ks_measure_def ks_prep_is_def chan_send_cases split: outcome.splits)
next
  case (KSDrop i)
  with assms sp_weight_drop [of i s "SPDone False" 2] show ?thesis
    by (auto simp: ks_measure_def ks_drop_stream_def split: if_splits sp_pc.splits bool.splits)
qed (use assms in simp_all)

lemma sf_weight_drop:
  assumes "j < length (sc_fin s)" and "sf_weight (snd (sc_fin s ! j)) = sf_weight pc + d"
  shows "sum_list (map (sf_weight \<circ> snd) ((sc_fin s)[j := (fst (sc_fin s ! j), pc)])) + d =
    sum_list (map (sf_weight \<circ> snd) (sc_fin s))"
  using sum_list_map_update [OF assms(1), of "sf_weight \<circ> snd" "(fst (sc_fin s ! j), pc)"] assms(2) by simp

lemma weight_less_report:
  assumes inv: "ks_ok x s" and j: "j < length (sc_fin s)" "sf_weight (snd (sc_fin s ! j)) = Suc d"
  shows "ks_measure x (ks_report j err (s\<lparr>sc_out := ms\<rparr>)) < ks_measure x s"
proof -
  from j have "\<not> sf_gone (snd (sc_fin s ! j))" by (cases "snd (sc_fin s ! j)") auto
  with ks_ok_fin_phase [OF inv j(1)] inv have op: "\<not> ch_closed (sc_errChan s)"
    by (simp add: ks_ok_def Let_def chans_open_def)
  from sf_weight_drop [OF j(1), of "SFDone None" "Suc d"] j(2)
  have "sum_list (map (sf_weight \<circ> snd) ((sc_fin s)[j := (fst (sc_fin s ! j), SFDone None)])) <
    sum_list (map (sf_weight \<circ> snd) (sc_fin s))" by simp
  then show ?thesis
    by (cases rule: ks_report_cases [of "s\<lparr>sc_out := ms\<rparr>" j err]) (use op in \<open>auto simp: ks_measure_def\<close>)
qed

lemma weight_less_fin:
  assumes "ks_fin_act x a s = Some s'" and inv: "ks_ok x s"
  shows "ks_measure x s' < ks_measure x s"
proof (cases a)
  case (KSFinCheck j)
  with assms sf_weight_drop [of j s SFSend 1] sf_weight_drop [of j s "SFDone None" 4] show ?thesis
    by (auto simp: ks_fin_is_def ks_measure_def split: if_splits)
next
  case (KSFinSend j res)
  with assms have j: "j < length (sc_fin s)" "snd (sc_fin s ! j) = SFSend"
    by (auto simp: ks_fin_is_def split: if_splits)
  show ?thesis
  proof (cases res)
    case None
    with KSFinSend assms j sf_weight_drop [of j s SFSent 1] show ?thesis
      by (auto simp: ks_fin_is_def ks_measure_def Let_def)
  next
    case (Some e)
    with KSFinSend assms j weight_less_report [OF inv j(1), of 2] show ?thesis
      by (auto simp: ks_fin_is_def Let_def)
  qed
next
  case (KSFinRecv j res)
  with assms have j: "j < length (sc_fin s)" "snd (sc_fin s ! j) = SFSent"
    by (auto simp: ks_fin_is_def split: if_splits)
  with ks_ok_fin_phase [OF inv j(1)] inv have op: "\<not> ch_closed (sc_finishChan s)"
    by (simp add: ks_ok_def Let_def results_ok_def)
  show ?thesis
  proof (cases "ks_result x res")
    case (Inl e)
    with KSFinRecv assms j weight_less_report [OF inv j(1), of 1 e "sc_out s"] show ?thesis
      by (auto simp: ks_fin_is_def)
  next
    case (Inr f)
    with KSFinRecv assms j sf_weight_drop [of j s "SFDone (Some f)" 2] op show ?thesis
      by (auto simp: ks_fin_is_def ks_measure_def chan_send_cases split: outcome.splits)
  qed
qed (use assms in simp_all)

lemma weight_less_main:
  assumes "ks_main_act x a s = Some s'" and inv: "ks_ok x s" and m: "ks_map_ok x s'" and inv': "ks_ok x s'"
  shows "ks_measure x s' < ks_measure x s"
  using assms(1)
proof (cases rule: ks_main_cases)
  case (take i js)
  let ?m = "AList.update (sx_rid x (pid_Id (ks_parties x ! i))) i (sc_map s)"
  have "length ?m \<le> length (ks_parties x)"
    using ks_map_length [OF inv' m] by (simp add: take(3) ks_add_ready_def Let_def split: if_splits)
  moreover have "sum_list (map (sf_weight \<circ> snd) (map (\<lambda>(_, k). (k, SFNew)) ms)) = 4 * length ms"
    for ms :: "(string \<times> nat) list" by (induction ms) auto
  moreover have "sc_fin s = []" "sc_cancel s = CNone" using inv take(1) by (simp_all add: ks_ok_def Let_def)
  ultimately show ?thesis
    using take(1,2) by (simp add: take(3) ks_measure_def ks_add_ready_def Let_def make_chan_def del: map_map)
next
  case (result f fs)
  then show ?thesis
    by (auto simp: ks_measure_def ks_take_finish_def Let_def ks_return_def ks_close_def chan_close_def)
qed (auto simp: ks_measure_def ks_return_def ks_return_early_def ks_close_def chan_close_def)

lemma weight_less_cancel:
  assumes "ks_cancel_act x a s = Some s'"
  shows "ks_measure x s' < ks_measure x s"
  using assms by (cases rule: ks_cancel_cases) (auto simp: ks_measure_def ks_cancel_one_def Let_def)

lemma ks_measure_less:
  assumes inv: "ks_ok x s" and m: "ks_map_ok x s" and a: "ks_act x a s = Some s'"
  shows "ks_measure x s' < ks_measure x s"
  using a
proof (cases rule: ks_act_cases)
  case (ctx err)
  then show ?thesis by (simp add: ks_measure_ctx)
next
  case prep
  from weight_less_prep [OF this inv] show ?thesis .
next
  case fin
  from weight_less_fin [OF this inv] show ?thesis .
next
  case cancel
  from weight_less_cancel [OF this] show ?thesis .
next
  case main
  from weight_less_main [OF this inv ks_map_ok_act [OF inv m a] ks_ok_act [OF inv a]] show ?thesis .
qed

lemma ks_exec_bound:
  "ks_reach x s \<Longrightarrow> ks_exec x as s = Some s' \<Longrightarrow> length as + ks_measure x s' \<le> ks_measure x s"
proof (induction as arbitrary: s)
  case (Cons a as)
  then obtain t where t: "ks_act x a s = Some t" "ks_exec x as t = Some s'" by (auto split: option.splits)
  from ks_measure_less [OF ks_ok_reach ks_map_ok_reach t(1)] Cons.prems(1)
  have "ks_measure x t < ks_measure x s" by blast
  moreover from Cons.IH [OF ks_next [OF Cons.prems(1) t(1)] t(2)]
  have "length as + ks_measure x s' \<le> ks_measure x t" .
  ultimately show ?case by simp
qed simp

section \<open>A call for the witnesses\<close>

definition DemoSignCall :: "string list \<Rightarrow> int32 \<Rightarrow> ks_call" where
  "DemoSignCall ids t = \<lparr>sx_request = \<lparr>ksq_KeyId = ''k'', ksq_SignMsg = [7], ksq_SignId = ''i''\<rparr>,
     sx_keyData = \<lparr>kd_KeyId = ''k'', kd_KeySessionId = ''ks'', kd_Threshold = t,
       kd_AllPartyId = map (\<lambda>i. \<lparr>pid_Id = i, pid_Moniker = i, pid_Key = []\<rparr>) ids, kd_Pubkey = [],
       kd_Status = KEY_STATUS_READY, kd_SaveDataJson = [], kd_CreatedTime = None, kd_UpdatedTime = None\<rparr>,
     sx_sessionId = ''s'', sx_deadline = \<lparr>ts_Seconds = 600, ts_Nanos = 0\<rparr>, sx_rid = (\<lambda>i. i),
     sx_type_text = (\<lambda>_. [])\<rparr>"

definition demo_result :: KeySignFinishMsg where
  "demo_result = \<lparr>ksf_IsSuccess = True, ksf_FailureReason = [], ksf_SignatureR = [1],
     ksf_SignatureS = [2], ksf_SignatureV = [0]\<rparr>"

definition demo_prepared :: "nat \<Rightarrow> ks_action list" where
  "demo_prepared i = [KSCheck i, KSOpen i None, KSSend i None,
     KSRecv i (Inr (p2p_msg (TssP2PMsg_KeySignReadyMsg KeySignReadyMsg))), KSPutReady i]"

definition demo_signed :: "nat \<Rightarrow> ks_action list" where
  "demo_signed j = [KSFinCheck j, KSFinSend j None,
     KSFinRecv j (Inr (p2p_msg (TssP2PMsg_KeySignFinishMsg demo_result)))]"

text \<open>Two of three parties are ready and sign; the third one cannot be reached.\<close>

definition demo_race :: "ks_action list" where
  "demo_race = demo_prepared 0 @ demo_prepared 1 @ [KSCheck 2, KSOpen 2 (Some (Errorf ''dial'')), KSPutErr 2,
     KSAllPrepared, KSTakeReady, KSTakeReady] @ demo_signed 0 @ demo_signed 1 @ [KSAllFinished]"

definition DemoSign3 :: ks_call where "DemoSign3 = DemoSignCall [''A'', ''B'', ''C''] 1"

definition demo_state :: "ks_action list \<Rightarrow> ks_state" where
  "demo_state as = the (ks_exec DemoSign3 as (ks_init DemoSign3))"

lemma demo_reach: "ks_exec DemoSign3 as (ks_init DemoSign3) \<noteq> None \<Longrightarrow> ks_reach DemoSign3 (demo_state as)"
  using ks_exec_reach [OF _ ks_start] by (auto simp: demo_state_def)

lemma demo_race_runs: "ks_exec DemoSign3 demo_race (ks_init DemoSign3) \<noteq> None"
  by code_simp

lemma demo_race_state: "sc_phase (demo_state demo_race) = KSWaitFinish \<and>
    ch_buf (sc_errChan (demo_state demo_race)) = [Errorf ''dial''] \<and>
    ch_buf (sc_finishChan (demo_state demo_race)) = [demo_result, demo_result]"
  by code_simp

lemma demo_race_state2: "sc_out (demo_state demo_race) =
    [(0, ks_prepare_msg DemoSign3), (1, ks_prepare_msg DemoSign3),
     (0, ks_start_msg (take 2 (ks_parties DemoSign3))), (1, ks_start_msg (take 2 (ks_parties DemoSign3)))]"
  by code_simp

lemma demo_parties: "length (ks_parties DemoSign3) = 3"
  by code_simp

lemmas demo_race_reach = demo_reach [OF demo_race_runs]

section \<open>Properties\<close>

lemma map_entry:
  assumes "ks_ok x s" and "ks_map_ok x s" and "(k, l) \<in> set (sc_map s)"
  shows "l < length (ks_parties x) \<and> k = ks_ids x ! l \<and> sc_prep s ! l = SPDone True"
proof -
  have "l \<in> set (map snd (sc_map s) @ ch_buf (sc_readyChan s))" using assms(3) by force
  with assms(2) have "l < length (sc_prep s) \<and> sc_prep s ! l = SPDone True" unfolding ks_map_ok_def by blast
  moreover have "k = ks_ids x ! l" using assms(2,3) unfolding ks_map_ok_def by blast
  moreover have "length (sc_prep s) = length (ks_parties x)" using assms(1) by (simp add: ks_ok_def Let_def)
  ultimately show ?thesis by simp
qed

text \<open>
  C11. Who is asked to sign. In every run, when a start message has been sent on some stream: the
  number of parties in the map is one more than the threshold (or one, when the threshold is
  negative); the map holds different ids and different streams, each the stream of a party that
  answered ready, under the id that stream reports; the start message went to one of them, and it
  names the parties of the record whose ids are in the map, in the order of the record.
\<close>

theorem keysign_start_quorum:
  assumes "ks_reach x s" and "(i, ks_start_msg ps) \<in> set (sc_out s)" and "length (ks_parties x) < 2 ^ 31"
  shows "int (length (sc_map s)) = max 1 (sint (kd_Threshold (sx_keyData x)) + 1) \<and>
    i \<in> set (map snd (sc_map s)) \<and> ps = ks_signers x (sc_map s) \<and>
    distinct (map fst (sc_map s)) \<and> distinct (map snd (sc_map s)) \<and>
    (\<forall>(k, l) \<in> set (sc_map s). l < length (ks_parties x) \<and> k = ks_ids x ! l \<and> sc_prep s ! l = SPDone True)"
proof -
  from ks_invs [OF assms(1)] have inv: "ks_ok x s" and m: "ks_map_ok x s" and sg: "ks_sign_ok x s" by simp_all
  from sg assms(2) have st: "ps = sc_signPartyIds s" "i \<in> set (map fst (sc_fin s))"
    by (auto simp: ks_sign_ok_def starts_ok_def)
  then have "sc_fin s \<noteq> []" by auto
  with sg have q: "quorum x (length (sc_map s))" "map fst (sc_fin s) = map snd (sc_map s)"
    "sc_signPartyIds s = ks_signers x (sc_map s)" by (auto simp: ks_sign_ok_def)
  with st(2) have ne: "sc_map s \<noteq> []" by auto
  let ?k = "length (sc_map s)"
  have bound: "sint (of_nat l :: int32) = int l" if "l \<le> ?k" for l
  proof -
    from that ks_map_length [OF inv m] assms(3) have "l < 2 ^ 31" by simp
    then show ?thesis by (rule sint_of_nat_int32)
  qed
  from q(1) bound [of ?k] bound [of "?k - 1"] ne have "sint (kd_Threshold (sx_keyData x)) < int ?k"
    "?k = 1 \<or> int ?k - 1 \<le> sint (kd_Threshold (sx_keyData x))"
    by (auto simp: quorum_def word_sless_alt of_nat_diff Suc_leI)
  moreover have "0 < ?k" using ne by simp
  ultimately have "int ?k = max 1 (sint (kd_Threshold (sx_keyData x)) + 1)" by linarith
  moreover have "l < length (ks_parties x) \<and> k = ks_ids x ! l \<and> sc_prep s ! l = SPDone True"
    if "(k, l) \<in> set (sc_map s)" for k l by (rule map_entry [OF inv m that])
  ultimately show ?thesis
    using st q m by (auto simp: ks_map_ok_def)
qed

theorem keysign_start_quorum_witness:
  "length (sc_map (demo_state demo_race)) = 2 \<and> kd_Threshold (sx_keyData DemoSign3) = 1"
proof -
  have "(0, ks_start_msg (take 2 (ks_parties DemoSign3))) \<in> set (sc_out (demo_state demo_race))"
    by (simp add: demo_race_state2)
  moreover have "kd_Threshold (sx_keyData DemoSign3) = 1" by (simp add: DemoSign3_def DemoSignCall_def)
  ultimately show ?thesis
    using keysign_start_quorum [OF demo_race_reach, of 0 "take 2 (ks_parties DemoSign3)"] demo_parties by simp
qed

text \<open>
  A signature comes from a signing party. In every run that returns a response, one of the
  parties in the map (which are as in the previous property) passed on a finish message with
  success, and the response is its signature under the session id of the call.
\<close>

theorem keysign_signature_from_signer:
  assumes "ks_reach x s" and "sc_phase s = KSReturned (Inr resp)"
  shows "\<exists>i f. i \<in> set (map snd (sc_map s)) \<and> (i, SFDone (Some f)) \<in> set (sc_fin s) \<and> ksf_IsSuccess f \<and>
    resp = \<lparr>ksr_SessionId = sx_sessionId x, ksr_SignatureR = ksf_SignatureR f,
      ksr_SignatureS = ksf_SignatureS f, ksr_SignatureV = ksf_SignatureV f\<rparr> \<and>
    kd_Threshold (sx_keyData x) <s of_nat (length (sc_map s))"
proof -
  from ks_sign_ok_reach [OF assms(1)] assms(2) obtain i f where
    f: "(i, SFDone (Some f)) \<in> set (sc_fin s)" "ksf_IsSuccess f" "resp = ks_response x f"
    and ne: "sc_fin s \<noteq> []"
    by (fastforce simp: ks_sign_ok_def)
  from ks_sign_ok_reach [OF assms(1)] ne have q: "quorum x (length (sc_map s))"
    "map fst (sc_fin s) = map snd (sc_map s)" by (auto simp: ks_sign_ok_def)
  have "i \<in> set (map fst (sc_fin s))" using f(1) by force
  with f q show ?thesis unfolding q(2) by (auto simp: ks_response_def quorum_def)
qed


text \<open>A goroutine that is about to pass on its ready stream, and a run that ends with a signature.\<close>

definition demo_one_ready :: "ks_action list" where "demo_one_ready = take 4 (demo_prepared 0)"

lemma demo_one_ready_state: "ks_exec DemoSign3 demo_one_ready (ks_init DemoSign3) \<noteq> None \<and>
    sc_prep (demo_state demo_one_ready) = [SPReady, SPNew, SPNew]"
  by code_simp


definition demo_success :: "ks_action list" where "demo_success = demo_race @ [KSTakeFinish]"

lemma demo_success_state: "ks_exec DemoSign3 demo_success (ks_init DemoSign3) \<noteq> None \<and>
    sc_phase (demo_state demo_success) = KSReturned (Inr (ks_response DemoSign3 demo_result))"
  by code_simp

theorem keysign_signature_from_signer_witness:
  "\<exists>i f. i \<in> set (map snd (sc_map (demo_state demo_success))) \<and>
     (i, SFDone (Some f)) \<in> set (sc_fin (demo_state demo_success)) \<and> ksf_SignatureR f = [1]"
proof -
  have "ksr_SignatureR (ks_response DemoSign3 demo_result) = [1]"
    by (simp add: ks_response_def demo_result_def)
  with keysign_signature_from_signer [OF demo_reach] demo_success_state show ?thesis
    by (metis KeySignResponse.select_convs(2))
qed

text \<open>
  C14. Every run is finite. Whatever the order of the actions, a run of the call on \<open>n\<close> parties
  has at most \<open>10 n + 7\<close> steps.
\<close>

theorem keysign_terminates:
  assumes "ks_exec x as (ks_init x) = Some s"
  shows "length as \<le> 10 * length (ks_parties x) + 7"
proof -
  have "ks_measure x (ks_init x) = 10 * length (ks_parties x) + 7"
    by (simp add: ks_measure_def ks_init_def Let_def make_chan_def map_replicate_const sum_list_replicate)
  with ks_exec_bound [OF ks_start assms] show ?thesis by simp
qed

theorem keysign_terminates_witness: "length demo_race \<le> 10 * length (ks_parties DemoSign3) + 7"
proof -
  obtain s where "ks_exec DemoSign3 demo_race (ks_init DemoSign3) = Some s" using demo_race_runs by blast
  from keysign_terminates [OF this] show ?thesis .
qed

section \<open>Where a run can stop\<close>

text \<open>Nothing but the end of the context can happen next.\<close>

definition ks_stuck :: "ks_call \<Rightarrow> ks_state \<Rightarrow> bool" where
  "ks_stuck x s \<longleftrightarrow> (\<forall>a s'. ks_act x a s = Some s' \<longrightarrow> (\<exists>err. a = KSCtxDone err))"

lemma ks_stuckD: "ks_stuck x s \<Longrightarrow> (\<And>err. a \<noteq> KSCtxDone err) \<Longrightarrow> ks_act x a s = None"
  by (cases "ks_act x a s") (auto simp: ks_stuck_def)

lemma stuck_prep:
  assumes inv: "ks_ok x s" and stuck: "ks_stuck x s"
  shows "list_all sp_gone (sc_prep s)"
proof (rule ccontr)
  assume "\<not> ?thesis"
  then obtain i where i: "i < length (sc_prep s)" "\<not> sp_gone (sc_prep s ! i)" by (auto simp: list_all_length)
  have ph: "sc_phase s = WaitNew" by (rule ks_ok_prep_phase [OF inv i])
  have "n_gone s < length (sc_prep s)" unfolding n_gone_def by (rule length_filter_less) (use i in auto)
  with inv ph have room: "\<not> ch_closed (sc_errChan s)" "length (ch_buf (sc_errChan s)) < ch_cap (sc_errChan s)"
    "\<not> ch_closed (sc_readyChan s)" "length (ch_buf (sc_readyChan s)) < ch_cap (sc_readyChan s)"
    by (simp_all add: ks_ok_def Let_def chans_open_def)
  from ks_stuckD [OF stuck, of "KSCheck i"] ks_stuckD [OF stuck, of "KSOpen i None"]
    ks_stuckD [OF stuck, of "KSSend i None"] ks_stuckD [OF stuck, of "KSRecv i (Inl (Errorf []))"]
    ks_stuckD [OF stuck, of "KSPutErr i"] ks_stuckD [OF stuck, of "KSPutReady i"] i ph room
  show False
    by (cases "sc_prep s ! i") (auto simp: ks_act_def ks_prep_is_def chan_send_def)
qed

lemma stuck_fin:
  assumes inv: "ks_ok x s" and stuck: "ks_stuck x s"
  shows "list_all (sf_gone \<circ> snd) (sc_fin s)"
proof (rule ccontr)
  assume "\<not> ?thesis"
  then obtain j where j: "j < length (sc_fin s)" "\<not> sf_gone (snd (sc_fin s ! j))" by (auto simp: list_all_length)
  have ph: "sc_phase s = WaitAll" by (rule ks_ok_fin_phase [OF inv j])
  from ks_stuckD [OF stuck, of "KSFinCheck j"] ks_stuckD [OF stuck, of "KSFinSend j None"]
    ks_stuckD [OF stuck, of "KSFinRecv j (Inl (Errorf []))"] j ph
  show False by (cases "snd (sc_fin s ! j)") (auto simp: ks_act_def ks_fin_is_def)
qed

text \<open>In the last wait there is always something to take.\<close>

lemma not_stuck_finish:
  assumes inv: "ks_ok x s" and w: "ks_wait_ok x s" and ph: "sc_phase s = KSWaitFinish"
    and ctx: "sc_ctx s = None"
  shows "ch_buf (sc_errChan s) \<noteq> [] \<or> ch_buf (sc_finishChan s) \<noteq> []"
proof (rule ccontr)
  assume none: "\<not> ?thesis"
  from w ph ctx none have all: "\<forall>p \<in> set (sc_fin s). sf_gone (snd p) \<longrightarrow> sf_passed (snd p)"
    and k: "\<exists>k < length (sc_map s). k = n_passed s" by (auto simp: ks_wait_ok_def)
  from inv ph have "list_all (sf_gone \<circ> snd) (sc_fin s)" "results_ok s" by (simp_all add: ks_ok_def Let_def)
  with all have "filter (sf_passed \<circ> snd) (sc_fin s) = sc_fin s" by (auto simp: list_all_iff)
  moreover from \<open>results_ok s\<close> have "length (sc_fin s) = length (sc_map s)"
    unfolding results_ok_def by (metis length_map)
  ultimately show False using k by (simp add: n_passed_def)
qed

lemma ks_act_main:
  "ks_main_act x a s = Some s' \<Longrightarrow> a \<in> {KSAllPrepared, KSTakeCtx, KSTakeErr, KSTakeReady, KSAllFinished, KSTakeFinish} \<Longrightarrow>
     (\<And>m. sc_phase s \<noteq> KSPanicked m) \<Longrightarrow> ks_act x a s = Some s'"
  by (auto simp: ks_act_def split: ks_phase.splits)

lemma stuck_main:
  assumes inv: "ks_ok x s" and w: "ks_wait_ok x s" and stuck: "ks_stuck x s"
    and run: "\<And>r. sc_phase s \<noteq> KSReturned r"
  shows "sc_phase s = KSWaitReady \<and> sc_ctx s = None \<and> ch_buf (sc_errChan s) = [] \<and> ch_buf (sc_readyChan s) = []"
proof -
  have np: "\<And>m. sc_phase s \<noteq> KSPanicked m" using inv by (auto simp: ks_ok_def Let_def)
  have none: "ks_main_act x a s = None"
    if "a \<in> {KSAllPrepared, KSTakeCtx, KSTakeErr, KSTakeReady, KSAllFinished, KSTakeFinish}" for a
  proof (cases "ks_main_act x a s")
    case (Some s')
    have "ks_act x a s = Some s'" by (rule ks_act_main [OF Some that np])
    moreover have "\<And>err. a \<noteq> KSCtxDone err" using that by auto
    ultimately show ?thesis using ks_stuckD [OF stuck, of a] by simp
  qed
  have "sc_phase s \<noteq> WaitNew" using none [of KSAllPrepared] stuck_prep [OF inv stuck] by auto
  moreover have "sc_phase s \<noteq> WaitAll" using none [of KSAllFinished] stuck_fin [OF inv stuck] by auto
  moreover have "sc_phase s \<noteq> KSWaitFinish"
  proof
    assume ph: "sc_phase s = KSWaitFinish"
    with none [of KSTakeCtx] have "sc_ctx s = None" by (cases "sc_ctx s") auto
    from not_stuck_finish [OF inv w ph this] none [of KSTakeErr] none [of KSTakeFinish] ph show False
      by (auto simp: chan_recv_def neq_Nil_conv)
  qed
  ultimately have ph: "sc_phase s = KSWaitReady" using run np by (cases "sc_phase s") auto
  from inv ph have "chans_open s" by (simp add: ks_ok_def Let_def)
  with ph none [of KSTakeCtx] none [of KSTakeErr] none [of KSTakeReady] show ?thesis
    by (cases "sc_ctx s"; cases "ch_buf (sc_errChan s)"; cases "ch_buf (sc_readyChan s)")
      (auto simp: chan_recv_def chans_open_def)
qed

text \<open>
  C17. The only way to wait for ever. If all streams answer, the call can stop before it returns,
  with nothing but the end of its context ahead, only in the first wait, when every party has
  answered ready, and the parties report no more different ids than the threshold.
\<close>

theorem keysign_stuck_only_by_threshold:
  assumes "ks_reach x s" and "ks_stuck x s" and "length (ks_parties x) < 2 ^ 31"
    and "ks_parties x \<noteq> []" and "\<forall>r. sc_phase s \<noteq> KSReturned r"
  shows "sc_phase s = KSWaitReady \<and> sc_ctx s = None \<and> sc_prep s = replicate (length (ks_parties x)) (SPDone True) \<and>
    int (card (set (ks_ids x))) \<le> sint (kd_Threshold (sx_keyData x))"
proof -
  from ks_invs [OF assms(1)] have inv: "ks_ok x s" and m: "ks_map_ok x s" and sg: "ks_sign_ok x s" by simp_all
  have w: "ks_wait_ok x s" by (rule ks_wait_ok_reach [OF assms(1)]) (use assms(3) in simp)
  from stuck_main [OF inv w assms(2)] assms(5) have st: "sc_phase s = KSWaitReady" "sc_ctx s = None"
    "ch_buf (sc_errChan s) = []" "ch_buf (sc_readyChan s) = []" by blast+
  have len: "length (sc_prep s) = length (ks_parties x)" using inv by (simp add: ks_ok_def Let_def)
  have "list_all sp_gone (sc_prep s)" by (rule stuck_prep [OF inv assms(2)])
  moreover have "SPDone False \<notin> set (sc_prep s)" using w st by (auto simp: ks_wait_ok_def)
  ultimately have "pc = SPDone True" if "pc \<in> set (sc_prep s)" for pc
    using that by (cases pc) (auto simp: list_all_iff intro: ccontr)
  then have ready: "sc_prep s = replicate (length (ks_parties x)) (SPDone True)"
    using len by (metis replicate_eqI)
  have "set (ks_ids x) \<subseteq> fst ` set (sc_map s)"
  proof
    fix k assume "k \<in> set (ks_ids x)"
    then obtain l where "l < length (ks_parties x)" "k = ks_ids x ! l" by (auto simp: in_set_conv_nth ks_ids_def)
    with w st ready show "k \<in> fst ` set (sc_map s)" by (auto simp: ks_wait_ok_def)
  qed
  then have "card (set (ks_ids x)) \<le> card (fst ` set (sc_map s))" by (intro card_mono) auto
  also have "\<dots> \<le> length (sc_map s)" by (metis card_length length_map list.set_map)
  finally have c: "card (set (ks_ids x)) \<le> length (sc_map s)" .
  have "ks_ids x \<noteq> []" using assms(4) by (simp add: ks_ids_def)
  then have "0 < card (set (ks_ids x))" by (simp add: card_gt_0_iff)
  with c have ne: "sc_map s \<noteq> []" by auto
  have "sc_fin s = []" using inv st(1) by (simp add: ks_ok_def Let_def)
  with sg ne have "\<not> kd_Threshold (sx_keyData x) <s of_nat (length (sc_map s))" by (simp add: ks_sign_ok_def)
  moreover have "length (sc_map s) < 2 ^ 31" using ks_map_length [OF inv m] assms(3) by simp
  ultimately have "int (length (sc_map s)) \<le> sint (kd_Threshold (sx_keyData x))"
    by (simp add: word_sless_alt sint_of_nat_int32)
  with c st ready show ?thesis by simp
qed

text \<open>One party, ready, with a threshold of one.\<close>

definition DemoSign1 :: ks_call where "DemoSign1 = DemoSignCall [''A''] 1"

definition demo_alone :: ks_state where
  "demo_alone = the (ks_exec DemoSign1 (demo_prepared 0 @ [KSAllPrepared, KSTakeReady]) (ks_init DemoSign1))"

lemma demo_alone_runs:
  "ks_exec DemoSign1 (demo_prepared 0 @ [KSAllPrepared, KSTakeReady]) (ks_init DemoSign1) \<noteq> None"
  by code_simp

lemma demo_alone_state: "sc_phase demo_alone = KSWaitReady \<and> sc_ctx demo_alone = None \<and>
    sc_prep demo_alone = [SPDone True] \<and> sc_errChan demo_alone = make_chan 1 \<and>
    sc_readyChan demo_alone = make_chan 1 \<and> sc_fin demo_alone = [] \<and> sc_cancel demo_alone = CNone \<and>
    length (ks_parties DemoSign1) = 1 \<and> kd_Threshold (sx_keyData DemoSign1) = 1 \<and> ks_ids DemoSign1 = [''A'']"
  by code_simp

theorem keysign_stuck_only_by_threshold_witness:
  "int (card (set (ks_ids DemoSign1))) \<le> sint (kd_Threshold (sx_keyData DemoSign1))"
proof -
  have reach: "ks_reach DemoSign1 demo_alone"
    using ks_exec_reach [OF _ ks_start, of DemoSign1 _ demo_alone] demo_alone_runs by (auto simp: demo_alone_def)
  have "ks_stuck DemoSign1 demo_alone"
    unfolding ks_stuck_def
  proof (intro allI impI)
    fix a s' assume "ks_act DemoSign1 a demo_alone = Some s'"
    then show "\<exists>err. a = KSCtxDone err"
    proof (cases rule: ks_act_cases)
      case prep
      then show ?thesis by (cases rule: ks_prep_cases) (auto simp: demo_alone_state)
    next
      case fin
      then show ?thesis by (cases rule: ks_fin_cases) (auto simp: demo_alone_state)
    next
      case cancel
      then show ?thesis by (cases rule: ks_cancel_cases) (auto simp: demo_alone_state)
    next
      case main
      then show ?thesis by (cases rule: ks_main_cases) (auto simp: demo_alone_state make_chan_def)
    qed simp
  qed
  moreover have "ks_parties DemoSign1 \<noteq> []" using demo_alone_state by auto
  ultimately show ?thesis
    using keysign_stuck_only_by_threshold [OF reach] demo_alone_state by simp
qed

section \<open>Failures of single parties\<close>

text \<open>
  C33. One silent party blocks the call. While a prepare goroutine waits for the reply of its
  party, the call cannot get past its very first wait, whatever the other parties answer and also
  when its context has ended: reading from a stream does not look at the context.
\<close>

theorem keysign_silent_party_blocks:
  assumes "ks_reach x s" and "ks_prep_is s i SPSent" and "ks_exec x as s = Some s'"
    and "\<forall>res. KSRecv i res \<notin> set as"
  shows "sc_phase s' = WaitNew \<and> ks_prep_is s' i SPSent"
  using assms
proof (induction as arbitrary: s)
  case Nil
  then have "i < length (sc_prep s)" "\<not> sp_gone (sc_prep s ! i)" by (auto simp: ks_prep_is_def)
  from ks_ok_prep_phase [OF ks_ok_reach [OF Nil.prems(1)] this] Nil.prems show ?case by simp
next
  case (Cons a as)
  then obtain t where t: "ks_act x a s = Some t" "ks_exec x as t = Some s'" by (auto split: option.splits)
  have inv: "ks_ok x s" by (rule ks_ok_reach [OF Cons.prems(1)])
  have i: "i < length (sc_prep s)" "sc_prep s ! i = SPSent" using Cons.prems(2) by (auto simp: ks_prep_is_def)
  have "ks_prep_is t i SPSent"
    using t(1)
  proof (cases rule: ks_act_cases)
    case prep
    have "\<forall>res. a \<noteq> KSRecv i res" using Cons.prems(4) by auto
    with prep i show ?thesis
      by (cases a) (auto simp: ks_prep_is_def ks_drop_stream_def nth_list_update
          split: if_splits sp_pc.splits outcome.splits bool.splits)
  next
    case fin
    then show ?thesis
      by (cases rule: ks_fin_cases) (use i in \<open>auto simp: ks_prep_is_def ks_report_def split: outcome.splits\<close>)
  next
    case cancel
    then show ?thesis
      by (cases rule: ks_cancel_cases) (use i in \<open>auto simp: ks_prep_is_def ks_cancel_one_def Let_def\<close>)
  next
    case main
    then show ?thesis
      by (cases rule: ks_main_cases)
        (use i in \<open>auto simp: ks_prep_is_def ks_add_ready_def ks_take_finish_def Let_def\<close>)
  qed (use i in \<open>simp add: ks_prep_is_def\<close>)
  from Cons.IH [OF ks_next [OF Cons.prems(1) t(1)] this t(2)] Cons.prems(4) show ?case by simp
qed

text \<open>Two parties are ready, the third one does not answer, and the context has ended.\<close>

definition demo_silent :: "ks_action list" where
  "demo_silent = [KSCheck 2, KSOpen 2 None, KSSend 2 None]"

definition demo_rest :: "ks_action list" where
  "demo_rest = demo_prepared 0 @ demo_prepared 1 @ [KSCtxDone (Errorf ''deadline'')]"

lemma demo_silent_state: "ks_exec DemoSign3 demo_silent (ks_init DemoSign3) \<noteq> None \<and>
    sc_prep (demo_state demo_silent) = [SPNew, SPNew, SPSent] \<and>
    ks_exec DemoSign3 demo_rest (demo_state demo_silent) \<noteq> None"
  by code_simp

theorem keysign_silent_party_blocks_witness:
  "\<exists>s'. ks_exec DemoSign3 demo_rest (demo_state demo_silent) = Some s' \<and> sc_phase s' = WaitNew"
proof -
  obtain s' where s': "ks_exec DemoSign3 demo_rest (demo_state demo_silent) = Some s'"
    using demo_silent_state by blast
  have "ks_reach DemoSign3 (demo_state demo_silent)" using demo_reach demo_silent_state by blast
  moreover have "ks_prep_is (demo_state demo_silent) 2 SPSent"
    using demo_silent_state by (simp add: ks_prep_is_def)
  moreover have "\<forall>res. KSRecv 2 res \<notin> set demo_rest" by (simp add: demo_rest_def demo_prepared_def)
  ultimately show ?thesis using keysign_silent_party_blocks [OF _ _ s'] s' by blast
qed

text \<open>
  C34. One failing party can fail the call and abandon the others. In the first wait, when the
  error of some party is in its channel, the call can return that error however many parties are
  ready; after that nothing is sent any more and no stream is ever closed: the ready parties are
  neither started nor cancelled.
\<close>

theorem keysign_error_abandons_ready:
  assumes "ks_reach x s" and "sc_phase s = KSWaitReady" and "ch_buf (sc_errChan s) = err # errs"
  shows "\<exists>s1. ks_act x KSTakeErr s = Some s1 \<and> sc_phase s1 = KSReturned (Inl err) \<and>
    (\<forall>as s2. ks_exec x as s1 = Some s2 \<longrightarrow>
       sc_phase s2 = KSReturned (Inl err) \<and> sc_out s2 = sc_out s \<and> sc_closed s2 = sc_closed s)"
proof -
  have inv: "ks_ok x s" by (rule ks_ok_reach [OF assms(1)])
  let ?s1 = "ks_return_early err (s\<lparr>sc_errChan := (sc_errChan s)\<lparr>ch_buf := errs\<rparr>\<rparr>)"
  have a: "ks_act x KSTakeErr s = Some ?s1"
    using assms(2,3) by (simp add: ks_act_def chan_recv_def)
  have quiet: "sc_phase s2 = KSReturned (Inl err) \<and> sc_out s2 = sc_out t \<and> sc_closed s2 = sc_closed t"
    if "ks_exec x as t = Some s2" "ks_ok x t" "sc_phase t = KSReturned (Inl err)" "sc_cancel t = CNone" for as t s2
    using that
  proof (induction as arbitrary: t)
    case (Cons b as)
    then obtain u where u: "ks_act x b t = Some u" "ks_exec x as u = Some s2" by (auto split: option.splits)
    have ok: "ks_ok x u" by (rule ks_ok_act [OF Cons.prems(2) u(1)])
    have "sc_phase u = KSReturned (Inl err) \<and> sc_cancel u = CNone \<and> sc_out u = sc_out t \<and> sc_closed u = sc_closed t"
      using u(1)
    proof (cases rule: ks_act_cases)
      case prep
      then show ?thesis
        by (cases rule: ks_prep_cases)
          (use ks_ok_prep_phase [OF Cons.prems(2)] Cons.prems(3) in force)+
    next
      case fin
      then show ?thesis
        by (cases rule: ks_fin_cases)
          (use ks_ok_fin_phase [OF Cons.prems(2)] Cons.prems(3) in force)+
    next
      case cancel
      then show ?thesis by (cases rule: ks_cancel_cases) (use Cons.prems(4) in auto)
    next
      case main
      then show ?thesis by (cases rule: ks_main_cases) (use Cons.prems(3) in auto)
    qed (use Cons.prems in simp)
    with Cons.IH [OF u(2) ok] show ?case by simp
  qed simp
  have "sc_cancel ?s1 = CNone" using inv assms(2) by (simp add: ks_ok_def Let_def)
  with quiet [OF _ ks_ok_act [OF inv a]] a show ?thesis by auto
qed

text \<open>Two of three parties are ready, which is enough to sign, when the error of the third is taken.\<close>

definition demo_two_ready :: "ks_action list" where
  "demo_two_ready = demo_prepared 0 @ demo_prepared 1 @ [KSCheck 2, KSOpen 2 (Some (Errorf ''dial'')), KSPutErr 2,
     KSAllPrepared]"

lemma demo_two_ready_state: "ks_exec DemoSign3 demo_two_ready (ks_init DemoSign3) \<noteq> None \<and>
    sc_phase (demo_state demo_two_ready) = KSWaitReady \<and>
    ch_buf (sc_errChan (demo_state demo_two_ready)) = [Errorf ''dial''] \<and>
    ch_buf (sc_readyChan (demo_state demo_two_ready)) = [0, 1] \<and> sc_closed (demo_state demo_two_ready) = []"
  by code_simp

theorem keysign_error_abandons_ready_witness:
  "\<exists>s1. ks_act DemoSign3 KSTakeErr (demo_state demo_two_ready) = Some s1 \<and> sc_closed s1 = [] \<and>
     sc_phase s1 = KSReturned (Inl (Errorf ''dial''))"
proof -
  have "ks_reach DemoSign3 (demo_state demo_two_ready)" using demo_reach demo_two_ready_state by blast
  from keysign_error_abandons_ready [OF this] demo_two_ready_state obtain s1 where
    s1: "ks_act DemoSign3 KSTakeErr (demo_state demo_two_ready) = Some s1"
      "sc_phase s1 = KSReturned (Inl (Errorf ''dial''))"
      "\<forall>as s2. ks_exec DemoSign3 as s1 = Some s2 \<longrightarrow> sc_closed s2 = []" by auto
  have "ks_exec DemoSign3 [] s1 = Some s1" by simp
  with s1 show ?thesis by blast
qed

text \<open>
  A leftover error races with the signature. In the last wait, when an error of some party
  is in its channel and a successful result in the other, both endings are possible: the call
  returns the signature, or it returns the error and the signature is lost.
\<close>

theorem keysign_error_races_signature:
  assumes "sc_phase s = KSWaitFinish" and "ch_buf (sc_errChan s) = err # errs"
    and "ch_buf (sc_finishChan s) = f # fs" and "ksf_IsSuccess f"
  shows "(\<exists>s1. ks_act x KSTakeErr s = Some s1 \<and> sc_phase s1 = KSReturned (Inl err)) \<and>
    (\<exists>s2. ks_act x KSTakeFinish s = Some s2 \<and> sc_phase s2 = KSReturned (Inr (ks_response x f)))"
  using assms by (auto simp: ks_act_def chan_recv_def ks_take_finish_def)

theorem keysign_error_races_signature_witness:
  "ks_reach DemoSign3 (demo_state demo_race) \<and>
   (\<exists>s1. ks_act DemoSign3 KSTakeErr (demo_state demo_race) = Some s1 \<and>
     sc_phase s1 = KSReturned (Inl (Errorf ''dial''))) \<and>
   (\<exists>s2. ks_act DemoSign3 KSTakeFinish (demo_state demo_race) = Some s2 \<and>
     sc_phase s2 = KSReturned (Inr (ks_response DemoSign3 demo_result)))"
  using keysign_error_races_signature [of "demo_state demo_race" "Errorf ''dial''" "[]" demo_result "[demo_result]"]
    demo_race_state demo_race_reach by (simp add: demo_result_def)

text \<open>
  Signing parties are looked up by the id of the record, and stored under the id their
  stream reports. When these never agree (the record may spell a peer id in another encoding),
  every start message names no party at all, however many are ready; when they agree for every
  party and are different, it names exactly as many parties as are in the map.
\<close>

theorem keysign_signers_by_id:
  assumes "ks_reach x s" and "(i, ks_start_msg ps) \<in> set (sc_out s)"
  shows "((\<forall>p \<in> set (ks_parties x). \<forall>q \<in> set (ks_parties x). sx_rid x (pid_Id p) \<noteq> pid_Id q) \<longrightarrow> ps = []) \<and>
    ((\<forall>p \<in> set (ks_parties x). sx_rid x (pid_Id p) = pid_Id p) \<longrightarrow> distinct (map pid_Id (ks_parties x)) \<longrightarrow>
       length ps = length (sc_map s))"
proof -
  from ks_invs [OF assms(1)] have inv: "ks_ok x s" and m: "ks_map_ok x s" and sg: "ks_sign_ok x s" by simp_all
  from sg assms(2) have st: "ps = sc_signPartyIds s" "sc_fin s \<noteq> []"
    by (auto simp: ks_sign_ok_def starts_ok_def)
  with sg have ps: "ps = ks_signers x (sc_map s)" by (simp add: ks_sign_ok_def)
  have key: "\<exists>p \<in> set (ks_parties x). k = sx_rid x (pid_Id p)" if "k \<in> fst ` set (sc_map s)" for k
  proof -
    from that obtain l where "(k, l) \<in> set (sc_map s)" by auto
    with map_entry [OF inv m] have "k = ks_ids x ! l" "l < length (ks_parties x)" by blast+
    then show ?thesis by (auto simp: ks_ids_def)
  qed
  have mem: "map_of (sc_map s) k \<noteq> None \<longleftrightarrow> k \<in> fst ` set (sc_map s)" for k
    by (metis map_of_eq_None_iff)
  have "ps = []" if "\<forall>p \<in> set (ks_parties x). \<forall>q \<in> set (ks_parties x). sx_rid x (pid_Id p) \<noteq> pid_Id q"
  proof -
    have "pid_Id p \<notin> fst ` set (sc_map s)" if "p \<in> set (ks_parties x)" for p
      using key [of "pid_Id p"] that \<open>\<forall>p \<in> set (ks_parties x). _\<close> by metis
    then show ?thesis unfolding ps ks_signers_def mem by (simp only: go_simps option.case filter_empty_conv) blast
  qed
  moreover have "length ps = length (sc_map s)"
    if id: "\<forall>p \<in> set (ks_parties x). sx_rid x (pid_Id p) = pid_Id p" and d: "distinct (map pid_Id (ks_parties x))"
  proof -
    have ps': "ps = filter (\<lambda>p. pid_Id p \<in> fst ` set (sc_map s)) (ks_parties x)"
      unfolding ps ks_signers_def mem by (simp only: go_simps option.case)
    have "k \<in> pid_Id ` set ps" if k: "k \<in> fst ` set (sc_map s)" for k
    proof -
      from key [OF k] obtain p where "p \<in> set (ks_parties x)" "k = sx_rid x (pid_Id p)" by blast
      with id have "p \<in> set (ks_parties x)" "k = pid_Id p" by simp_all
      with k show ?thesis unfolding ps' by simp
    qed
    moreover have "pid_Id ` set ps \<subseteq> fst ` set (sc_map s)" unfolding ps' by (simp add: image_subset_iff)
    ultimately have ids: "set (map pid_Id ps) = fst ` set (sc_map s)" by auto
    have "distinct (map pid_Id ps)"
      using d unfolding ps ks_signers_def by (rule distinct_map_filter)
    from distinct_card [OF this] ids have "length ps = card (fst ` set (sc_map s))" by simp
    also have "\<dots> = length (sc_map s)"
      using m distinct_card [of "map fst (sc_map s)"] by (simp add: ks_map_ok_def)
    finally show ?thesis .
  qed
  ultimately show ?thesis by blast
qed

theorem keysign_signers_by_id_witness:
  "length (take 2 (ks_parties DemoSign3)) = length (sc_map (demo_state demo_race))"
proof -
  have "(0, ks_start_msg (take 2 (ks_parties DemoSign3))) \<in> set (sc_out (demo_state demo_race))"
    by (simp add: demo_race_state2)
  moreover have "\<forall>p \<in> set (ks_parties DemoSign3). sx_rid DemoSign3 (pid_Id p) = pid_Id p"
    by (simp add: DemoSign3_def DemoSignCall_def)
  moreover have "distinct (map pid_Id (ks_parties DemoSign3))" by code_simp
  ultimately show ?thesis using keysign_signers_by_id [OF demo_race_reach] by blast
qed

end
