(* ===== verification/KeySignNode.thy ===== *)
theory KeySignNode
  imports Node Validation
begin

text \<open>
  The node's side of signing: \<open>handleKeySign\<close>, \<open>handleKeySign0\<close> and \<open>ParseSignature\<close> of
  \<open>tss/tss_keysign.go\<close>, in the same shape as key generation. Differences of the code that the
  model keeps: the store is only read, the coordinator can cancel, a failed close of a session
  stream is only logged, errors are not sent to the other parties, and the channel of the session
  and the coordinator's stream are closed at the end.
\<close>

record SignatureData =
  sgd_R :: bytes
  sgd_S :: bytes
  sgd_SignatureRecovery :: bytes

section \<open>\<open>handleKeySign0\<close>\<close>

definition ksf_failed :: "string \<Rightarrow> KeySignFinishMsg" where
  "ksf_failed reason = \<lparr>ksf_IsSuccess = False, ksf_FailureReason = reason, ksf_SignatureR = [],
     ksf_SignatureS = [], ksf_SignatureV = []\<rparr>"

text \<open>The record of the key, read after what other goroutines did to the store.\<close>

definition read_key ::
    "'s Manager \<Rightarrow> 's env \<Rightarrow> KeySignPrepareMsg \<Rightarrow> ('s, 'pm) world
     \<Rightarrow> (error + KeyData option) \<times> ('s, 'pm) world" where
  "read_key m E prep w =
     (let s = e_other E (w_tick w) (w_store w)
      in (getKeyDataByKeyIdAndKeySessionIdFromStorage (m_localStorage m) (ksp_KeyId prep)
            (ksp_KeySessionId prep) s,
          w\<lparr>w_tick := Suc (w_tick w), w_store := s\<rparr>))"

text \<open>
  Step 1: the record, the validator (its signature is dropped), the saved data, the ready message
  and the coordinator's decision.
\<close>

datatype 'sd sign_decision = SignStart KeyData 'sd KeySignStartMsg | SignCancelled

definition keysign_step1 ::
    "'s Manager \<Rightarrow> ('pre, 'sd, 'pm, 'pk) TssLib \<Rightarrow> 's env \<Rightarrow> KeySignPrepareMsg \<Rightarrow> ('s, 'pm) world
     \<Rightarrow> (error + 'sd sign_decision) outcome \<times> ('s, 'pm) world" where
  "keysign_step1 m T E prep w =
     (case read_key m E prep w of
        (Inl err, w) \<Rightarrow> (Returned (Inl err), w)
      | (Inr None, w) \<Rightarrow> (Returned (Inl (Errorf ''key data not found'')), w)
      | (Inr (Some keyData), w) \<Rightarrow>
        (case (if \<not> m_dev m
               then (case v_KeySignValidate (m_validator m) (w_tick w)
                       (KeySignPrepareMsg_GetSignId (Some prep)) (KeySignPrepareMsg_GetKeyId (Some prep))
                       (KeySignPrepareMsg_GetSignMsg (Some prep)) of
                       Inl err \<Rightarrow> Some err | Inr _ \<Rightarrow> None)
               else None) of
           Some err \<Rightarrow> (Returned (Inl err), w)
         | None \<Rightarrow>
           (case sd_json_Unmarshal T (kd_SaveDataJson keyData) of
              Inl err \<Rightarrow> (Returned (Inl err), w)
            | Inr saveData \<Rightarrow>
              (case send_main E (TssP2PMsg_KeySignReadyMsg KeySignReadyMsg) w of
                 (Some err, w) \<Rightarrow> (Returned (Inl err), w)
               | (None, w) \<Rightarrow>
                 (case recv_main E w of
                    (None, w) \<Rightarrow> (Waiting, w)
                  | (Some (Inl err), w) \<Rightarrow> (Returned (Inl err), w)
                  | (Some (Inr p2pMsg), w) \<Rightarrow>
                    (case tp_MsgType p2pMsg of
                       Some (TssP2PMsg_KeySignStartMsg start) \<Rightarrow>
                         (Returned (Inr (SignStart keyData saveData start)), w)
                     | Some (TssP2PMsg_KeySignCancelMsg _) \<Rightarrow> (Returned (Inr SignCancelled), w)
                     | _ \<Rightarrow> (Returned (Inl (invalid_type E p2pMsg)), w)))))))"

text \<open>Step 2: the signing parties and the local party.\<close>

definition keysign_step2 ::
    "'s Manager \<Rightarrow> ('pre, 'sd, 'pm, 'pk) TssLib \<Rightarrow> KeySignPrepareMsg \<Rightarrow> KeyData \<Rightarrow> 'sd
     \<Rightarrow> KeySignStartMsg \<Rightarrow> ('s, 'pm) world
     \<Rightarrow> (error + (string \<Rightarrow> TssPartyID option)) outcome \<times> ('s, 'pm) world" where
  "keysign_step2 m T prep keyData saveData start w =
     (let sorted = sorted_parties T (kss_SignPartyId start);
          idMap = id_map sorted
      in case idMap (PartyID_GetId (Some (m_LocalPartyId m))) of
           None \<Rightarrow> (Returned (Inl (Errorf ''localPartyID not found'')), w)
         | Some tssLocalSortedPartyID \<Rightarrow>
           (case NewSigningParty T (be_nat (KeySignPrepareMsg_GetSignMsg (Some prep))) sorted
               tssLocalSortedPartyID (kd_Threshold keyData) saveData of
              Some msg \<Rightarrow> (Panicked msg, w)
            | None \<Rightarrow> (Returned (Inr idMap), step StartedParty w)))"

definition signature_finish :: "SignatureData \<Rightarrow> KeySignFinishMsg" where
  "signature_finish sig = \<lparr>ksf_IsSuccess = True, ksf_FailureReason = [], ksf_SignatureR = sgd_R sig,
     ksf_SignatureS = sgd_S sig, ksf_SignatureV = sgd_SignatureRecovery sig\<rparr>"

text \<open>Step 3: the event loop.\<close>

fun keysign_loop ::
    "'s Manager \<Rightarrow> ('pre, 'sd, 'pm, 'pk) TssLib \<Rightarrow> 's env \<Rightarrow> KeySignStartMsg \<Rightarrow> string
     \<Rightarrow> (string \<Rightarrow> TssPartyID option) \<Rightarrow> SignatureData lib_event list \<Rightarrow> ('s, 'pm) world
     \<Rightarrow> (error + KeySignFinishMsg) outcome \<times> ('s, 'pm) world" where
  "keysign_loop m T E start protocolId idMap [] w = (Waiting, w)"
| "keysign_loop m T E start protocolId idMap (CtxDone # evs) w = (Returned (Inl DeadlineExceeded), w)"
| "keysign_loop m T E start protocolId idMap (ProcessMsg p2pProcessMsg # evs) w =
     (case tp_MsgType p2pProcessMsg of
        Some (TssP2PMsg_ProcessUpdateMsg updateMsg) \<Rightarrow>
          (case idMap (ProcessUpdateMsg_GetFromPartyId (Some updateMsg)) of
             None \<Rightarrow> (Returned (Inl (Errorf ''fromPartyID not found in sortedPartyId'')), w)
           | Some fromSortedPartyID \<Rightarrow>
             (case ParseWireMessage T (pum_MsgWireBytes updateMsg) fromSortedPartyID
                 (pum_IsBroadcast updateMsg) of
                Inl err \<Rightarrow> (Returned (Inl err), w)
              | Inr msg \<Rightarrow> keysign_loop m T E start protocolId idMap evs (step (Updated msg) w)))
      | Some (TssP2PMsg_ProcessErrorMsg errMsg) \<Rightarrow>
          (Returned (Inr (ksf_failed (pem_ErrorMsg errMsg))), w)
      | _ \<Rightarrow> (Returned (Inl (Errorf ''invalid p2pMsgType'')), w))"
| "keysign_loop m T E start protocolId idMap (OutCh msg # evs) w =
     (case om_WireBytes msg of
        Inl err \<Rightarrow> (Returned (Inl err), w)
      | Inr msgWireBytes \<Rightarrow>
          (let self = PartyID_GetId (Some (m_LocalPartyId m)) in
           case send_updates False E protocolId (update_msg self msgWireBytes msg)
               (recipients self (kss_SignPartyId start) msg) w of
             (Some err, w) \<Rightarrow> (Returned (Inl err), w)
           | (None, w) \<Rightarrow> keysign_loop m T E start protocolId idMap evs w))"
| "keysign_loop m T E start protocolId idMap (EndCh sig # evs) w =
     (Returned (Inr (signature_finish sig)), w)"
| "keysign_loop m T E start protocolId idMap (ErrCh err # evs) w = (Returned (Inl err), w)"

definition handleKeySign0 ::
    "'s Manager \<Rightarrow> ('pre, 'sd, 'pm, 'pk) TssLib \<Rightarrow> 's env \<Rightarrow> KeySignPrepareMsg \<Rightarrow> string
     \<Rightarrow> SignatureData lib_event list \<Rightarrow> ('s, 'pm) world
     \<Rightarrow> (error + KeySignFinishMsg) outcome \<times> ('s, 'pm) world" where
  "handleKeySign0 m T E prep protocolId evs w =
     (case keysign_step1 m T E prep w of
        (Returned (Inl err), w) \<Rightarrow> (Returned (Inl err), w)
      | (Panicked msg, w) \<Rightarrow> (Panicked msg, w)
      | (Waiting, w) \<Rightarrow> (Waiting, w)
      | (Returned (Inr SignCancelled), w) \<Rightarrow>
          (Returned (Inr (ksf_failed ''key sign canceled'')), w)
      | (Returned (Inr (SignStart keyData saveData start)), w) \<Rightarrow>
          (case keysign_step2 m T prep keyData saveData start w of
             (Returned (Inr idMap), w) \<Rightarrow> keysign_loop m T E start protocolId idMap evs w
           | (Returned (Inl err), w) \<Rightarrow> (Returned (Inl err), w)
           | (Panicked msg, w) \<Rightarrow> (Panicked msg, w)
           | (Waiting, w) \<Rightarrow> (Waiting, w)))"

section \<open>\<open>handleKeySign\<close>\<close>

definition keysign_protocol :: "string \<Rightarrow> string" where
  "keysign_protocol sessionId = ''/tss/keySign/session/'' @ sessionId"

definition keysign_prepare ::
    "'s env \<Rightarrow> ('s, 'pm) world \<Rightarrow> (error + KeySignPrepareMsg) option \<times> ('s, 'pm) world" where
  "keysign_prepare E w =
     (case recv_main E w of
        (None, w) \<Rightarrow> (None, w)
      | (Some (Inl err), w) \<Rightarrow> (Some (Inl err), w)
      | (Some (Inr p2pMsg), w) \<Rightarrow>
        (case GetKeySignPrepareMsg (Some p2pMsg) of
           None \<Rightarrow> (Some (Inl (invalid_type E p2pMsg)), w)
         | Some prep \<Rightarrow> (Some (Inr prep), w)))"

text \<open>
  The deferred calls, last registered first: the handler is removed, the channel of the session
  closed, the coordinator's stream closed.
\<close>

definition keysign_cleanup ::
    "string \<Rightarrow> TssP2PMsg chan \<Rightarrow> ('s, 'pm) world \<Rightarrow> TssP2PMsg chan \<times> ('s, 'pm) world" where
  "keysign_cleanup protocolId c w =
     ((case chan_close c of Returned c \<Rightarrow> c | _ \<Rightarrow> c), step ClosedMain (remove_handler protocolId w))"

text \<open>The result carries the session's channel once it is made.\<close>

definition handleKeySign ::
    "'s Manager \<Rightarrow> ('pre, 'sd, 'pm, 'pk) TssLib \<Rightarrow> 's env \<Rightarrow> SignatureData lib_event list
     \<Rightarrow> ('s, 'pm) world \<Rightarrow> unit outcome \<times> TssP2PMsg chan option \<times> ('s, 'pm) world" where
  "handleKeySign m T E evs w =
     (case keysign_prepare E w of
        (None, w) \<Rightarrow> (Waiting, None, w)
      | (Some (Inl err), w) \<Rightarrow>
          (let (_, w) = send_main E (TssP2PMsg_KeySignFinishMsg (ksf_failed (err_text err))) w
           in (Returned (), None, step ClosedMain w))
      | (Some (Inr prep), w) \<Rightarrow>
          (let protocolId = keysign_protocol (ksp_SessionId prep);
               p2pProcessMsgChan = make_chan 0;
               w = set_handler protocolId (KeySignSessionHandler (ksp_SessionId prep)) w
           in case handleKeySign0 m T E prep protocolId evs w of
                (Waiting, w) \<Rightarrow> (Waiting, Some p2pProcessMsgChan, w)
              | (Panicked msg, w) \<Rightarrow>
                  (let (c, w) = keysign_cleanup protocolId p2pProcessMsgChan w
                   in (Panicked msg, Some c, w))
              | (Returned res, w) \<Rightarrow>
                  (let f = (case res of Inl err \<Rightarrow> ksf_failed (err_text err) | Inr f \<Rightarrow> f);
                       (_, w) = send_main E (TssP2PMsg_KeySignFinishMsg f) w;
                       (c, w) = keysign_cleanup protocolId p2pProcessMsgChan w
                   in (Returned (), Some c, w))))"

section \<open>\<open>ParseSignature\<close>\<close>

definition ParseSignature :: "bytes \<Rightarrow> (bytes \<times> bytes \<times> bytes) outcome" where
  "ParseSignature signature =
     (if length signature < 64 then Panicked ''slice bounds out of range''
      else
        (let r = take 32 signature; s = take 32 (drop 32 signature); v = drop 64 signature
         in case v of
              [] \<Rightarrow> Panicked ''index out of range''
            | v0 # vs \<Rightarrow> Returned (r, s, (if 1 < v0 then v0 - 27 else v0) # vs)))"

section \<open>Lemmas\<close>

abbreviation ks_ready :: TssP2PMsg where
  "ks_ready \<equiv> p2p_msg (TssP2PMsg_KeySignReadyMsg KeySignReadyMsg)"

abbreviation ks_finish :: "KeySignFinishMsg \<Rightarrow> TssP2PMsg" where
  "ks_finish f \<equiv> p2p_msg (TssP2PMsg_KeySignFinishMsg f)"

lemma keysign_prepare_eq: "keysign_prepare E w = (r, w') \<Longrightarrow> main_msgs w' = main_msgs w \<and>
    w_handlers w' = w_handlers w \<and> w_store w' = w_store w"
  by (auto simp: keysign_prepare_def recv_main_def split: option.splits sum.splits)

lemma read_key_eq: "read_key m E prep w = (r, w') \<Longrightarrow> main_msgs w' = main_msgs w \<and>
    w_handlers w' = w_handlers w \<and> w_store w' = e_other E (w_tick w) (w_store w)"
  by (auto simp: read_key_def Let_def main_msgs_def)

lemma keysign_step1_msgs:
  assumes "keysign_step1 m T E prep w = (r, w')"
  shows "w_handlers w' = w_handlers w \<and> w_store w' = e_other E (w_tick w) (w_store w) \<and>
    (main_msgs w' = main_msgs w \<and> (\<exists>err. r = Returned (Inl err)) \<or>
     main_msgs w' = main_msgs w @ [ks_ready] \<and> (\<forall>msg. r \<noteq> Panicked msg))"
proof -
  obtain k w1 where 1: "read_key m E prep w = (k, w1)" by fastforce
  obtain e2 w2 where 2: "send_main E (TssP2PMsg_KeySignReadyMsg KeySignReadyMsg) w1 = (e2, w2)" by fastforce
  obtain e3 w3 where 3: "recv_main E w2 = (e3, w3)" by fastforce
  note eqs = read_key_eq [OF 1] send_main_eq [OF 2] recv_main_eq [OF 3]
  show ?thesis
    using assms 1 2 3 eqs unfolding keysign_step1_def
    by (auto split: option.splits sum.splits if_splits MsgType.splits)
qed

lemma keysign_step2_msgs: "keysign_step2 m T prep kd sd st w = (r, w') \<Longrightarrow>
    main_msgs w' = main_msgs w \<and> w_handlers w' = w_handlers w \<and> w_store w' = w_store w"
  by (auto simp: keysign_step2_def Let_def split: option.splits)

text \<open>The loop writes nothing to the coordinator; a success carries the library's signature.\<close>

lemma keysign_loop_msgs: "keysign_loop m T E st pr ids evs w = (r, w') \<Longrightarrow>
    main_msgs w' = main_msgs w \<and> w_handlers w' = w_handlers w \<and> w_store w' = w_store w \<and>
    (\<forall>f. r = Returned (Inr f) \<longrightarrow> ksf_IsSuccess f \<longrightarrow>
       (\<exists>sig. EndCh sig \<in> set evs \<and> f = signature_finish sig))"
proof (induction evs arbitrary: w)
  case (Cons ev evs)
  show ?case
  proof (cases ev)
    case CtxDone
    with Cons.prems show ?thesis by auto
  next
    case (ProcessMsg msg)
    have upd: ?thesis if "keysign_loop m T E st pr ids evs (step (Updated pm) w) = (r, w')" for pm
      using Cons.IH [OF that] by auto
    show ?thesis
    proof (cases "\<exists>pm. keysign_loop m T E st pr ids evs (step (Updated pm) w) = (r, w')")
      case True
      with upd show ?thesis by blast
    next
      case False
      with ProcessMsg Cons.prems show ?thesis
        by (auto split: option.splits MsgType.splits sum.splits simp: ksf_failed_def)
    qed
  next
    case (OutCh msg)
    have more: ?thesis
      if "send_updates False E pr mm ps w = (e, w2)" "keysign_loop m T E st pr ids evs w2 = (r, w')"
      for mm ps e w2
      using Cons.IH [OF that(2)] send_updates_eq [OF that(1)] by auto
    let ?self = "PartyID_GetId (Some (m_LocalPartyId m))"
    show ?thesis
    proof (cases "om_WireBytes msg")
      case (Inr wire)
      obtain e w2 where sent: "send_updates False E pr (update_msg ?self wire msg)
        (recipients ?self (kss_SignPartyId st) msg) w = (e, w2)" by fastforce
      show ?thesis
      proof (cases e)
        case None
        with OutCh Cons.prems Inr sent more [OF sent] show ?thesis by (simp add: Let_def)
      next
        case (Some err)
        with OutCh Cons.prems Inr sent send_updates_eq [OF sent] show ?thesis by (auto simp: Let_def)
      qed
    qed (use OutCh Cons.prems in auto)
  next
    case (EndCh sig)
    with Cons.prems show ?thesis by auto
  next
    case (ErrCh err)
    with Cons.prems show ?thesis by auto
  qed
qed auto

end
