(* ===== verification/KeySignProps.thy ===== *)
theory KeySignProps
  imports KeySignNode KeyGenProps
begin

text \<open>
  The properties of a node's side of signing: what it answers, that it never changes the store,
  what has to hold before it takes part, and what happens to protocol messages that arrive when
  its session ends.
\<close>

lemma handleKeySign0_msgs:
  assumes "handleKeySign0 m T E prep pr evs w = (r, w')"
  shows "w_handlers w' = w_handlers w \<and> w_store w' = e_other E (w_tick w) (w_store w) \<and>
    (main_msgs w' = main_msgs w \<and> (\<exists>err. r = Returned (Inl err)) \<or>
     main_msgs w' = main_msgs w @ [ks_ready]) \<and>
    (\<forall>f. r = Returned (Inr f) \<longrightarrow> ksf_IsSuccess f \<longrightarrow> (\<exists>sig. EndCh sig \<in> set evs \<and> f = signature_finish sig))"
proof -
  obtain r1 w1 where 1: "keysign_step1 m T E prep w = (r1, w1)" by fastforce
  note eq1 = keysign_step1_msgs [OF 1]
  show ?thesis
  proof (cases "\<exists>kd sd st. r1 = Returned (Inr (SignStart kd sd st))")
    case True
    then obtain kd sd st where r1: "r1 = Returned (Inr (SignStart kd sd st))" by blast
    obtain r2 w2 where 2: "keysign_step2 m T prep kd sd st w1 = (r2, w2)" by fastforce
    show ?thesis
    proof (cases "\<exists>ids. r2 = Returned (Inr ids)")
      case True
      then obtain ids where "r2 = Returned (Inr ids)" by blast
      with assms 1 2 r1 have "keysign_loop m T E st pr ids evs w2 = (r, w')"
        by (simp add: handleKeySign0_def)
      from keysign_loop_msgs [OF this] keysign_step2_msgs [OF 2] eq1 r1 show ?thesis by auto
    next
      case False
      with assms 1 2 r1 have "w' = w2 \<and> (\<forall>f. r \<noteq> Returned (Inr f))"
        by (auto simp: handleKeySign0_def split: outcome.splits sum.splits)
      with keysign_step2_msgs [OF 2] eq1 r1 show ?thesis by auto
    qed
  next
    case False
    with assms 1 have "w' = w1 \<and> (\<forall>f. r = Returned (Inr f) \<longrightarrow> \<not> ksf_IsSuccess f)"
      and "(\<exists>err. r1 = Returned (Inl err)) \<longrightarrow> (\<exists>err. r = Returned (Inl err))"
      by (auto simp: handleKeySign0_def ksf_failed_def split: outcome.splits sum.splits sign_decision.splits)
    with eq1 show ?thesis by auto
  qed
qed

lemma keysign_cleanup_eq:
  "keysign_cleanup pr c w = (c', w') \<Longrightarrow> main_msgs w' = main_msgs w \<and> w_store w' = w_store w \<and>
     w_handlers w' = (w_handlers w)(pr := None) \<and> (\<not> ch_closed c \<longrightarrow> ch_closed c')"
  by (auto simp: keysign_cleanup_def chan_close_def)

text \<open>A run that has its prepare message and ends, by its phases.\<close>

lemma handleKeySign_session:
  assumes "keysign_prepare E w = (Some (Inr prep), w1)" and "handleKeySign m T E evs w = (r, c, w')"
    and "r \<noteq> Waiting"
  obtains r2 w2 w3 ch where "handleKeySign0 m T E prep (keysign_protocol (ksp_SessionId prep)) evs
      (set_handler (keysign_protocol (ksp_SessionId prep)) (KeySignSessionHandler (ksp_SessionId prep)) w1)
      = (r2, w2)"
    and "keysign_cleanup (keysign_protocol (ksp_SessionId prep)) (make_chan 0) w3 = (ch, w')" "c = Some ch"
    and "(\<exists>msg. r2 = Panicked msg \<and> r = Panicked msg \<and> w3 = w2) \<or>
      (\<exists>res e. r2 = Returned res \<and> r = Returned () \<and> send_main E (TssP2PMsg_KeySignFinishMsg
        (case res of Inl err \<Rightarrow> ksf_failed (err_text err) | Inr f \<Rightarrow> f)) w2 = (e, w3))"
proof -
  let ?p = "keysign_protocol (ksp_SessionId prep)"
  obtain r2 w2 where 2: "handleKeySign0 m T E prep ?p evs
      (set_handler ?p (KeySignSessionHandler (ksp_SessionId prep)) w1) = (r2, w2)" by fastforce
  show ?thesis
  proof (cases r2)
    case Waiting
    with assms 2 show ?thesis by (simp add: handleKeySign_def Let_def)
  next
    case (Panicked msg)
    obtain ch w4 where 4: "keysign_cleanup ?p (make_chan 0) w2 = (ch, w4)" by fastforce
    with Panicked assms 2 have "r = Panicked msg" "c = Some ch" "w' = w4"
      by (simp_all add: handleKeySign_def Let_def)
    with Panicked 2 4 show ?thesis by (intro that [of r2 w2 w2 ch]) auto
  next
    case (Returned res)
    obtain e w3 where 3: "send_main E (TssP2PMsg_KeySignFinishMsg
        (case res of Inl err \<Rightarrow> ksf_failed (err_text err) | Inr f \<Rightarrow> f)) w2 = (e, w3)" by fastforce
    obtain ch w4 where 4: "keysign_cleanup ?p (make_chan 0) w3 = (ch, w4)" by fastforce
    from Returned assms 2 3 4 have "r = Returned ()" "c = Some ch" "w' = w4"
      by (simp_all add: handleKeySign_def Let_def)
    with Returned 2 3 4 show ?thesis by (intro that [of r2 w2 w3 ch]) auto
  qed
qed

section \<open>The validator and the saved data come first\<close>

lemma keysign_step1_gate:
  assumes "keysign_step1 m T E prep w = (r, w')" and "main_msgs w' \<noteq> main_msgs w"
  shows "(\<exists>kd sd. getKeyDataByKeyIdAndKeySessionIdFromStorage (m_localStorage m) (ksp_KeyId prep)
        (ksp_KeySessionId prep) (e_other E (w_tick w) (w_store w)) = Inr (Some kd) \<and>
      sd_json_Unmarshal T (kd_SaveDataJson kd) = Inr sd) \<and>
    (m_dev m \<or> (\<exists>now sig. v_KeySignValidate (m_validator m) now (ksp_SignId prep) (ksp_KeyId prep)
      (ksp_SignMsg prep) = Inr sig))"
proof -
  obtain k w1 where 1: "read_key m E prep w = (k, w1)" by fastforce
  have k: "k = getKeyDataByKeyIdAndKeySessionIdFromStorage (m_localStorage m) (ksp_KeyId prep)
      (ksp_KeySessionId prep) (e_other E (w_tick w) (w_store w))"
    using 1 by (simp add: read_key_def Let_def)
  have m1: "main_msgs w1 = main_msgs w" using read_key_eq [OF 1] by simp
  have g: "KeySignPrepareMsg_GetSignId (Some prep) = ksp_SignId prep"
    "KeySignPrepareMsg_GetKeyId (Some prep) = ksp_KeyId prep"
    "KeySignPrepareMsg_GetSignMsg (Some prep) = ksp_SignMsg prep"
    by (simp_all add: go_simps)
  show ?thesis
    using assms 1 m1 unfolding keysign_step1_def g k [symmetric]
    by (cases k) (auto split: option.splits sum.splits if_splits)
qed

lemma handleKeySign_gate:
  assumes "keysign_prepare E w = (Some (Inr prep), w1)" and "handleKeySign m T E evs w = (r, c, w')"
    and "ks_ready \<in> set (main_msgs w')" and "ks_ready \<notin> set (main_msgs w)"
  shows "(\<exists>n kd sd. getKeyDataByKeyIdAndKeySessionIdFromStorage (m_localStorage m) (ksp_KeyId prep)
        (ksp_KeySessionId prep) (e_other E n (w_store w)) = Inr (Some kd) \<and>
      sd_json_Unmarshal T (kd_SaveDataJson kd) = Inr sd) \<and>
    (m_dev m \<or> (\<exists>now sig. v_KeySignValidate (m_validator m) now (ksp_SignId prep) (ksp_KeyId prep)
      (ksp_SignMsg prep) = Inr sig))"
proof -
  let ?p = "keysign_protocol (ksp_SessionId prep)"
  let ?w1 = "set_handler ?p (KeySignSessionHandler (ksp_SessionId prep)) w1"
  have w1: "main_msgs ?w1 = main_msgs w" "w_store ?w1 = w_store w"
    using keysign_prepare_eq [OF assms(1)] by simp_all
  obtain r2 w2 where 2: "handleKeySign0 m T E prep ?p evs ?w1 = (r2, w2)" by fastforce
  obtain r3 w3 where 3: "keysign_step1 m T E prep ?w1 = (r3, w3)" by fastforce
  have "ks_ready \<in> set (main_msgs w2)"
  proof (cases "r = Waiting")
    case True
    with assms(1,2) 2 have "w' = w2"
      by (auto simp: handleKeySign_def Let_def split: outcome.splits prod.splits)
    with assms(3) show ?thesis by simp
  next
    case False
    from assms(1,2) False show ?thesis
    proof (rule handleKeySign_session)
      fix r2' w2' w3' ch
      assume h: "handleKeySign0 m T E prep ?p evs ?w1 = (r2', w2')"
        "keysign_cleanup ?p (make_chan 0) w3' = (ch, w')"
        "(\<exists>msg. r2' = Panicked msg \<and> r = Panicked msg \<and> w3' = w2') \<or>
          (\<exists>res e. r2' = Returned res \<and> r = Returned () \<and> send_main E (TssP2PMsg_KeySignFinishMsg
            (case res of Inl err \<Rightarrow> ksf_failed (err_text err) | Inr f \<Rightarrow> f)) w2' = (e, w3'))"
      from h(1) 2 have "w2' = w2" by simp
      with h(3) keysign_cleanup_eq [OF h(2)] assms(3) show "ks_ready \<in> set (main_msgs w2)"
        by (auto dest!: send_main_eq)
    qed
  qed
  with w1 assms(4) have ne: "main_msgs w2 \<noteq> main_msgs ?w1" by auto
  have "main_msgs w3 \<noteq> main_msgs ?w1"
  proof
    assume "main_msgs w3 = main_msgs ?w1"
    with keysign_step1_msgs [OF 3] obtain err where "r3 = Returned (Inl err)" by auto
    with 2 3 have "w2 = w3" by (simp add: handleKeySign0_def)
    with ne \<open>main_msgs w3 = main_msgs ?w1\<close> show False by simp
  qed
  from keysign_step1_gate [OF 3 this] w1 show ?thesis by auto
qed

lemma handleKeySign_answer:
  assumes "keysign_prepare E w = (Some (Inr prep), w1)" and "handleKeySign m T E evs w = (Returned (), c, w')"
  shows "(\<exists>f. (main_msgs w' = main_msgs w @ [ks_finish f] \<and> \<not> ksf_IsSuccess f \<or>
       main_msgs w' = main_msgs w @ [ks_ready, ks_finish f]) \<and>
     (ksf_IsSuccess f \<longrightarrow> (\<exists>sig. EndCh sig \<in> set evs \<and> f = signature_finish sig))) \<and>
    (\<exists>n. w_store w' = e_other E n (w_store w))"
proof -
  let ?p = "keysign_protocol (ksp_SessionId prep)"
  let ?w1 = "set_handler ?p (KeySignSessionHandler (ksp_SessionId prep)) w1"
  have w1: "main_msgs ?w1 = main_msgs w" "w_store ?w1 = w_store w"
    using keysign_prepare_eq [OF assms(1)] by simp_all
  from assms(1,2) show ?thesis
  proof (rule handleKeySign_session)
    fix r2 w2 w3 ch
    assume 0: "handleKeySign0 m T E prep ?p evs ?w1 = (r2, w2)"
      and cl: "keysign_cleanup ?p (make_chan 0) w3 = (ch, w')"
      and "(\<exists>msg. r2 = Panicked msg \<and> Returned () = Panicked msg \<and> w3 = w2) \<or>
        (\<exists>res e. r2 = Returned res \<and> Returned () = Returned () \<and> send_main E (TssP2PMsg_KeySignFinishMsg
          (case res of Inl err \<Rightarrow> ksf_failed (err_text err) | Inr f \<Rightarrow> f)) w2 = (e, w3))"
    then obtain res e where res: "r2 = Returned res" "send_main E (TssP2PMsg_KeySignFinishMsg
      (case res of Inl err \<Rightarrow> ksf_failed (err_text err) | Inr f \<Rightarrow> f)) w2 = (e, w3)" by auto
    let ?f = "case res of Inl err \<Rightarrow> ksf_failed (err_text err) | Inr f \<Rightarrow> f"
    from handleKeySign0_msgs [OF 0] res(1) have
      "main_msgs w2 = main_msgs w \<and> \<not> ksf_IsSuccess ?f \<or> main_msgs w2 = main_msgs w @ [ks_ready]"
      "ksf_IsSuccess ?f \<longrightarrow> (\<exists>sig. EndCh sig \<in> set evs \<and> ?f = signature_finish sig)"
      "\<exists>n. w_store w2 = e_other E n (w_store w)"
      using w1 by (auto simp: ksf_failed_def split: sum.splits)
    with keysign_cleanup_eq [OF cl] send_main_eq [OF res(2)] show ?thesis
      by (intro conjI exI [of _ ?f]) auto
  qed simp
qed

lemma handleKeySign_vetted:
  assumes "m_validator m = New U H url" and "\<not> m_dev m"
    and "keysign_prepare E w = (Some (Inr prep), w1)" and "handleKeySign m T E evs w = (r, c, w')"
    and "ks_ready \<in> set (main_msgs w')" and "ks_ready \<notin> set (main_msgs w)"
  shows "\<exists>now. sign_done H url now (ksp_SignId prep) \<or>
    sign_registered U H url now (ksp_SignId prep) (ksp_KeyId prep) (ksp_SignMsg prep)"
proof -
  from handleKeySign_gate [OF assms(3-6)] assms(2) obtain now sig where
    "v_KeySignValidate (New U H url) now (ksp_SignId prep) (ksp_KeyId prep) (ksp_SignMsg prep) = Inr sig"
    unfolding assms(1) by blast
  from rest.keysign_pass [OF this] show ?thesis by blast
qed

lemma store_run_append:
  "store_run ls s ops' s' \<Longrightarrow> store_run ls s0 ops s \<Longrightarrow> store_run ls s0 (ops @ ops') s'"
proof (induction rule: store_run.induct)
  case (run_op s ops' s' op e s'')
  then have "store_run ls s0 (ops @ ops') s'" by blast
  from store_run.run_op [OF this run_op.hyps(2,3)] show ?case by simp
qed simp

lemma others_reachable:
  assumes "store_reachable D db_inv C s" and "others_ok (LevelDBStorage D C) E"
  shows "store_reachable D db_inv C (e_other E n s)"
proof -
  from assms(2) obtain ops where "store_run (LevelDBStorage D C) s ops (e_other E n s)"
    by (auto simp: others_ok_def)
  with assms(1) show ?thesis unfolding store_reachable_def by (metis store_run_append)
qed

lemma handleKeySign_ready_record:
  assumes "leveldb D db_inv C" and "m_localStorage m = LevelDBStorage D C"
    and "store_reachable D db_inv C (w_store w)" and "others_ok (LevelDBStorage D C) E"
    and "sd_json_Unmarshal T [] = Inl err"
    and "keysign_prepare E w = (Some (Inr prep), w1)" and "handleKeySign m T E evs w = (r, c, w')"
    and "ks_ready \<in> set (main_msgs w')" and "ks_ready \<notin> set (main_msgs w)"
  shows "\<exists>n kd. GetKeyDataByKeyIdAndKeySessionId D C (e_other E n (w_store w)) (ksp_KeyId prep)
      (ksp_KeySessionId prep) = Inr (Some kd) \<and> kd_Status kd = KEY_STATUS_READY"
proof -
  from handleKeySign_gate [OF assms(6-9)] obtain n kd sd where
    get: "GetKeyDataByKeyIdAndKeySessionId D C (e_other E n (w_store w)) (ksp_KeyId prep)
      (ksp_KeySessionId prep) = Inr (Some kd)" and sd: "sd_json_Unmarshal T (kd_SaveDataJson kd) = Inr sd"
    by (auto simp: getKeyDataByKeyIdAndKeySessionIdFromStorage_def assms(2) LevelDBStorage_def)
  note inv = store_reachableE [OF assms(1) others_reachable [OF assms(3,4)]]
  from get have "leveldb.lv_rows D C (e_other E n (w_store w)) (row_key (ksp_KeyId prep) (ksp_KeySessionId prep)) = Some kd"
    by (simp add: get_iff_rows [OF assms(1) inv(1)])
  with inv(3) [of n] have "kd_Status kd = KEY_STATUS_READY \<or> kd_SaveDataJson kd = []"
    unfolding local_storage.drafts_empty_def [OF leveldb.lv_storage [OF assms(1)]] by blast
  with sd assms(5) get show ?thesis by auto
qed

section \<open>A concrete node for the witnesses\<close>

definition SignTss :: "(unit, string, bytes, bytes) TssLib" where
  "SignTss = DemoTss\<lparr>sd_json_Unmarshal := (\<lambda>j. if j = [] then Inl (Errorf ''unexpected end of JSON input'') else Inr j)\<rparr>"

definition demo_sign_prepare :: KeySignPrepareMsg where
  "demo_sign_prepare = \<lparr>ksp_SignId = ''i'', ksp_SessionId = ''t'', ksp_KeyId = ''k'',
     ksp_KeySessionId = ''s'', ksp_SignMsg = [65, 255],
     ksp_Deadline = Some \<lparr>ts_Seconds = 600, ts_Nanos = 0\<rparr>\<rparr>"

definition SignEnv :: "memdb env" where
  "SignEnv = (DemoEnv demo_prepare)\<lparr>e_recv := (\<lambda>n. Some (Inr (p2p_msg
     (if n = 0 then TssP2PMsg_KeySignPrepareMsg demo_sign_prepare
      else TssP2PMsg_KeySignStartMsg \<lparr>kss_SignPartyId = [party ''A'', party ''B'']\<rparr>))))\<rparr>"

definition demo_signature :: SignatureData where
  "demo_signature = \<lparr>sgd_R = [1], sgd_S = [2], sgd_SignatureRecovery = [0]\<rparr>"

abbreviation "demo_keysign \<equiv>
  handleKeySign (DemoManager False) SignTss SignEnv [EndCh demo_signature] (DemoWorld (demo_ready ''k'' ''s''))"

lemma sign_prepare_run:
  "keysign_prepare SignEnv (DemoWorld s) = (Some (Inr demo_sign_prepare), (DemoWorld s)\<lparr>w_tick := 1\<rparr>)"
  by (simp add: keysign_prepare_def recv_main_def SignEnv_def DemoWorld_def go_simps)

lemma demo_sign_validated:
  "v_KeySignValidate (m_validator (DemoManager False)) now ''i'' ''k'' [65, 255] = Inr []"
proof -
  have "getSignInfo DemoHttp ''u'' now ''i'' = Inr \<lparr>si_Height = ''1'', si_Result = demo_sign\<rparr>"
    by (simp add: getSignInfo_def rest_get_def DemoHttp_def)
  then show ?thesis
    by (simp add: DemoManager_def NewManager_def New_def KeySignValidate_def demo_sign_def EqualFold_refl)
qed

lemma demo_read:
  "getKeyDataByKeyIdAndKeySessionIdFromStorage (m_localStorage (DemoManager dev)) ''k'' ''s'' (demo_ready ''k'' ''s'')
     = Inr (Some (readyKeyData ''k'' ''s''))"
  using demo_facts(4) [of "''k''" "''s''"]
  by (simp add: demo_manager getKeyDataByKeyIdAndKeySessionIdFromStorage_def LevelDBStorage_def ascii_def)

lemma demo_keysign_run:
  "\<exists>c w'. demo_keysign = (Returned (), c, w') \<and> main_msgs w' = [ks_ready, ks_finish (signature_finish demo_signature)]"
proof -
  let ?m = "DemoManager False" and ?start = "\<lparr>kss_SignPartyId = [party ''A'', party ''B'']\<rparr>"
  let ?w1 = "set_handler (keysign_protocol ''t'') (KeySignSessionHandler ''t'')
    ((DemoWorld (demo_ready ''k'' ''s''))\<lparr>w_tick := 1\<rparr>)"
  have env: "e_other SignEnv n s = s" "e_send SignEnv n msg = None"
    "0 < n \<Longrightarrow> e_recv SignEnv n = Some (Inr (p2p_msg (TssP2PMsg_KeySignStartMsg ?start)))" for n s msg
    by (simp_all add: SignEnv_def DemoEnv_def)
  have prep: "ksp_SignId demo_sign_prepare = ''i''" "ksp_KeyId demo_sign_prepare = ''k''"
    "ksp_KeySessionId demo_sign_prepare = ''s''" "ksp_SignMsg demo_sign_prepare = [65, 255]"
    "ksp_SessionId demo_sign_prepare = ''t''"
    by (simp_all add: demo_sign_prepare_def)
  have json: "sd_json_Unmarshal SignTss (kd_SaveDataJson (readyKeyData ''k'' ''s'')) = Inr ''{}''"
    by (simp add: SignTss_def readyKeyData_def)
  have dev: "\<not> m_dev ?m" by (simp add: DemoManager_def NewManager_def)
  have "\<exists>w2. keysign_step1 ?m SignTss SignEnv demo_sign_prepare w =
      (Returned (Inr (SignStart (readyKeyData ''k'' ''s'') ''{}'' ?start)), w2)"
    if "w_store w = demo_ready ''k'' ''s''" "w_tick w = 1" for w :: "(memdb, bytes) world"
    using that by (simp add: keysign_step1_def read_key_def env prep demo_read demo_sign_validated json
        go_simps send_main_def recv_main_def Let_def dev)
  from this [of ?w1] obtain w2 where step1: "keysign_step1 ?m SignTss SignEnv demo_sign_prepare ?w1 =
      (Returned (Inr (SignStart (readyKeyData ''k'' ''s'') ''{}'' ?start)), w2)"
    by (auto simp: DemoWorld_def)
  have "id_map (sorted_parties SignTss [party ''A'', party ''B'']) ''A'' \<noteq> None"
    by (simp add: id_map_def sorted_parties_def SignTss_def DemoTss_def convertToTssPartyId_def party_def)
  moreover have "PartyID_GetId (Some (m_LocalPartyId ?m)) = ''A''"
    by (simp add: PartyID_GetId_def DemoManager_def NewManager_def party_def)
  moreover have "NewSigningParty SignTss n ps p t sd = None" for n ps p t sd
    by (simp add: SignTss_def DemoTss_def)
  ultimately obtain ids where step2: "keysign_step2 ?m SignTss demo_sign_prepare (readyKeyData ''k'' ''s'') ''{}'' ?start w2 =
      (Returned (Inr ids), step StartedParty w2)"
    by (auto simp: keysign_step2_def Let_def)
  have main: "main_msgs w2 = [ks_ready]"
    using keysign_step1_msgs [OF step1] by (simp add: DemoWorld_def main_msgs_def)
  show ?thesis
    using step1 step2 main
    by (simp add: handleKeySign_def sign_prepare_run Let_def prep handleKeySign0_def send_main_def env
        keysign_cleanup_def)
qed

lemma w_store_demo: "w_store (DemoWorld s) = s"
  by (simp add: DemoWorld_def)

lemma demo_main_msgs [simp]: "main_msgs (DemoWorld s) = []"
  by (simp add: DemoWorld_def main_msgs_def)

section \<open>Properties\<close>



text \<open>
  When a node agrees to sign. Outside development mode, if the node answers a prepare message
  with ready, then at some moment of the run the validator's service had a signature for the sign
  id already, or had registered the sign id for this key id with a message that folds to the
  requested one.
\<close>

theorem keysign_vetted:
  assumes "m_validator m = New U H url" and "\<not> m_dev m"
    and "keysign_prepare E w = (Some (Inr prep), w1)" and "handleKeySign m T E evs w = (r, c, w')"
    and "ks_ready \<in> set (main_msgs w')" and "ks_ready \<notin> set (main_msgs w)"
  shows "\<exists>now. sign_done H url now (ksp_SignId prep) \<or>
    sign_registered U H url now (ksp_SignId prep) (ksp_KeyId prep) (ksp_SignMsg prep)"
  using assms by (rule handleKeySign_vetted)

theorem keysign_vetted_witness:
  "\<exists>now. sign_done DemoHttp ''u'' now ''i'' \<or> sign_registered DemoUnicode DemoHttp ''u'' now ''i'' ''k'' [65, 255]"
proof -
  obtain c w' where run: "demo_keysign = (Returned (), c, w')"
    and msgs: "main_msgs w' = [ks_ready, ks_finish (signature_finish demo_signature)]"
    using demo_keysign_run by blast
  have v: "m_validator (DemoManager False) = New DemoUnicode DemoHttp ''u''" "\<not> m_dev (DemoManager False)"
    by (simp_all add: DemoManager_def NewManager_def)
  from msgs have "ks_ready \<in> set (main_msgs w')" by simp
  from keysign_vetted [OF v sign_prepare_run run this] show ?thesis
    by (simp add: demo_sign_prepare_def)
qed

text \<open>
  Only ready keys sign. The handler does not look at the status of the record, but a record
  that is pending or failed holds no saved data, and parsing that fails: if the node answers ready
  on a store with the history of handler operations, the record it read was ready.
\<close>

theorem keysign_only_ready_keys:
  assumes "leveldb D db_inv C" and "m_localStorage m = LevelDBStorage D C"
    and "store_reachable D db_inv C (w_store w)" and "others_ok (LevelDBStorage D C) E"
    and "sd_json_Unmarshal T [] = Inl err"
    and "keysign_prepare E w = (Some (Inr prep), w1)" and "handleKeySign m T E evs w = (r, c, w')"
    and "ks_ready \<in> set (main_msgs w')" and "ks_ready \<notin> set (main_msgs w)"
  shows "\<exists>n kd. GetKeyDataByKeyIdAndKeySessionId D C (e_other E n (w_store w)) (ksp_KeyId prep)
      (ksp_KeySessionId prep) = Inr (Some kd) \<and> kd_Status kd = KEY_STATUS_READY"
  using assms by (rule handleKeySign_ready_record)

theorem keysign_only_ready_keys_witness:
  "\<exists>kd. GetKeyDataByKeyIdAndKeySessionId MemDB DemoCodec (demo_ready ''k'' ''s'') ''k'' ''s'' = Inr (Some kd) \<and>
     kd_Status kd = KEY_STATUS_READY"
proof -
  have a: "ascii ''k''" by (simp add: ascii_def)
  obtain c w' where run: "demo_keysign = (Returned (), c, w')"
    and msgs: "main_msgs w' = [ks_ready, ks_finish (signature_finish demo_signature)]"
    using demo_keysign_run by blast
  have reach: "store_reachable MemDB mem_inv DemoCodec (w_store (DemoWorld (demo_ready ''k'' ''s'')))"
    using demo_facts(6) [OF a] by (simp add: DemoWorld_def)
  have others: "others_ok demoLS SignEnv"
    unfolding others_ok_def by (simp add: SignEnv_def DemoEnv_def) (blast intro: run_nil)
  have un: "sd_json_Unmarshal SignTss [] = Inl (Errorf ''unexpected end of JSON input'')"
    by (simp add: SignTss_def)
  from msgs have "ks_ready \<in> set (main_msgs w')" by simp
  from keysign_only_ready_keys [OF demo_leveldb demo_manager reach others un sign_prepare_run run this]
  show ?thesis by (auto simp: demo_sign_prepare_def SignEnv_def DemoEnv_def w_store_demo)
qed

text \<open>
  C37. Late protocol messages crash the node. When a signing session ends, the handler's cleanup
  closes the session's channel while streams accepted earlier may still be reading or waiting to
  hand over their message; each one that has a message then sends on the closed channel and
  panics.
\<close>

theorem keysign_late_message_panics:
  assumes "keysign_prepare E w = (Some (Inr prep), w1)" and "handleKeySign m T E evs w = (r, c, w')"
    and "r \<noteq> Waiting"
  shows "\<exists>ch. c = Some ch \<and> session_stream ch (Inr msg) = Panicked ''send on closed channel'' \<and>
    w_handlers w' (keysign_protocol (ksp_SessionId prep)) = None"
  using assms
proof (rule handleKeySign_session)
  fix r2 w2 w3 ch
  assume "keysign_cleanup (keysign_protocol (ksp_SessionId prep)) (make_chan 0) w3 = (ch, w')" "c = Some ch"
  then show ?thesis
    by (auto simp: session_stream_def chan_send_def make_chan_def dest!: keysign_cleanup_eq)
qed

theorem keysign_late_message_panics_witness:
  "\<exists>ch w'. demo_keysign = (Returned (), Some ch, w') \<and>
     session_stream ch (Inr ks_ready) = Panicked ''send on closed channel''"
proof -
  obtain c w' where run: "demo_keysign = (Returned (), c, w')" using demo_keysign_run by blast
  from keysign_late_message_panics [OF sign_prepare_run run, of ks_ready] run show ?thesis by auto
qed

text \<open>
  Splitting a signature. \<open>ParseSignature\<close> returns exactly for at least 65 bytes and panics for
  fewer; the parts in order are the signature, except that the first byte of V is brought down by
  27 when it exceeds one, so that 27 and 28 become 0 and 1 and these stay as they are.
\<close>

theorem ParseSignature_parts:
  "(if length signature < 65 then \<exists>msg. ParseSignature signature = Panicked msg
    else \<exists>r s v0 vs. ParseSignature signature = Returned (r, s, (if 1 < v0 then v0 - 27 else v0) # vs) \<and>
      r @ s @ v0 # vs = signature \<and> length r = 32 \<and> length s = 32)"
proof (cases "length signature < 65")
  case True
  then have "64 \<le> length signature \<Longrightarrow> drop 64 signature = []" by simp
  with True show ?thesis by (auto simp: ParseSignature_def)
next
  case False
  then obtain v0 vs where v: "drop 64 signature = v0 # vs"
    by (cases "drop 64 signature") auto
  have "take 32 signature @ take 32 (drop 32 signature) @ drop 64 signature = signature"
  proof -
    have "take 32 (drop 32 signature) @ drop 64 signature = drop 32 signature"
      using append_take_drop_id [of 32 "drop 32 signature"] by simp
    then show ?thesis by simp
  qed
  with False v show ?thesis
    by (auto simp: ParseSignature_def Let_def)
qed

end
