(* ===== verification/Composition.thy ===== *)
theory Composition
  imports KeyGenCoordProps KeyGenProps KeySignCoordProps KeySignProps
begin

text \<open>
  The coordinator and the nodes together. The coordinator's stream \<open>i\<close> is answered by a run of
  the handler of node \<open>i\<close>: what the coordinator reads from it is what that handler has written,
  in order, or an error. The nodes have stores, clocks and networks of their own.
\<close>

section \<open>Reading what a node has written\<close>

definition nth_reply :: "TssP2PMsg list \<Rightarrow> nat \<Rightarrow> error + TssP2PMsg \<Rightarrow> bool" where
  "nth_reply ms k res = (case res of Inl err \<Rightarrow> True | Inr m \<Rightarrow> k < length ms \<and> ms ! k = m)"

lemma nth_reply_simps [simp]:
  "nth_reply ms k (Inl err)" "nth_reply ms k (Inr m) \<longleftrightarrow> k < length ms \<and> ms ! k = m"
  by (simp_all add: nth_reply_def)

section \<open>Key generation\<close>

text \<open>
  \<open>out i\<close> is what node \<open>i\<close> writes. The goroutine of stream \<open>i\<close> reads once before the start message
  and once after it.
\<close>

fun kg_link :: "(nat \<Rightarrow> TssP2PMsg list) \<Rightarrow> kg_action \<Rightarrow> kg_state \<Rightarrow> bool" where
  "kg_link out (KGRecv i res) s = nth_reply (out i) 0 res"
| "kg_link out (KGFinRecv j res) s = nth_reply (out (fst (kc_fin s ! j))) 1 res"
| "kg_link out a s = True"

inductive kg_net :: "kg_call \<Rightarrow> (nat \<Rightarrow> TssP2PMsg list) \<Rightarrow> kg_state \<Rightarrow> bool" for x out where
  kg_net_start: "kg_net x out (kg_init (Inr (kx_sessionId x)) x)"
| kg_net_step: "kg_net x out s \<Longrightarrow> kg_link out a s \<Longrightarrow> kg_act x a s = Some s' \<Longrightarrow> kg_net x out s'"

fun kg_net_exec :: "kg_call \<Rightarrow> (nat \<Rightarrow> TssP2PMsg list) \<Rightarrow> kg_action list \<Rightarrow> kg_state \<Rightarrow> kg_state option" where
  "kg_net_exec x out [] s = Some s"
| "kg_net_exec x out (a # as) s =
     (if kg_link out a s
      then (case kg_act x a s of None \<Rightarrow> None | Some s' \<Rightarrow> kg_net_exec x out as s')
      else None)"

lemma kg_net_exec_net: "kg_net_exec x out as s = Some s' \<Longrightarrow> kg_net x out s \<Longrightarrow> kg_net x out s'"
  by (induction as arbitrary: s) (auto split: if_splits option.splits intro: kg_net_step)

lemma kg_net_reach: "kg_net x out s \<Longrightarrow> kg_reach x s"
  by (induction rule: kg_net.induct) (auto intro: kg_reach.intros)

text \<open>What the second phase knows is the second message of the node.\<close>

fun told :: "fin_pc \<Rightarrow> KeyGenFinishMsg option" where
  "told (FMsg f) = Some f"
| "told (FDelivered f) = Some f"
| "told pc = None"

definition kg_told :: "(nat \<Rightarrow> TssP2PMsg list) \<Rightarrow> (nat \<times> fin_pc) list \<Rightarrow> bool" where
  "kg_told out fin \<longleftrightarrow> (\<forall>(i, pc) \<in> set fin. \<forall>f. told pc = Some f \<longrightarrow> nth_reply (out i) 1 (Inr (kg_finish f)))"

lemma kg_told_update:
  "kg_told out fin \<Longrightarrow> (\<And>f. told pc = Some f \<Longrightarrow> nth_reply (out i) 1 (Inr (kg_finish f))) \<Longrightarrow>
     kg_told out (fin[j := (i, pc)])"
  using set_update_subset_insert [of fin j "(i, pc)"] unfolding kg_told_def by fast

lemma kg_told_nth:
  "kg_told out fin \<Longrightarrow> j < length fin \<Longrightarrow> told (snd (fin ! j)) = Some f \<Longrightarrow>
     nth_reply (out (fst (fin ! j))) 1 (Inr (kg_finish f))"
  unfolding kg_told_def by (metis (mono_tags, lifting) case_prodD nth_mem prod.collapse)

lemma kg_result_told:
  "told (kg_result x res) = Some f \<Longrightarrow> nth_reply ms 1 res \<Longrightarrow> nth_reply ms 1 (Inr (kg_finish f))"
  by (cases res) (auto split: option.splits MsgType.splits)

lemma kg_told_act:
  assumes "kg_told out (kc_fin s)" and "kg_link out a s" and "kg_act x a s = Some s'"
  shows "kg_told out (kc_fin s')"
proof (cases a)
  case (KGTakeReady i)
  with assms(3) have "kc_fin s' = kc_fin s \<or> kc_fin s' = map (\<lambda>(_, k). (k, FNew)) (kc_map s')"
    by (auto simp: kg_add_ready_def Let_def split: if_splits)
  then show ?thesis
  proof
    assume "kc_fin s' = map (\<lambda>(_, k). (k, FNew)) (kc_map s')"
    then show ?thesis by (auto simp: kg_told_def)
  qed (use assms(1) in simp)
next
  case (KGFinSend j res)
  with assms show ?thesis
    by (auto intro!: kg_told_update split: if_splits option.splits)
next
  case (KGFinRecv j res)
  with assms kg_result_told [of x res] show ?thesis
    by (auto intro!: kg_told_update split: if_splits)
next
  case (KGTakeFinErr j)
  with assms show ?thesis
    by (auto intro!: kg_told_update split: if_splits fin_pc.splits)
next
  case (KGTakeFinish j)
  with assms obtain f where j: "j < length (kc_fin s)" "snd (kc_fin s ! j) = FMsg f" "s' = kg_take_finish x j f s"
    by (auto split: if_splits fin_pc.splits)
  have "kc_fin s' = (kc_fin s)[j := (fst (kc_fin s ! j), FDelivered f)]"
    by (simp add: j(3) kg_take_finish_def Let_def)
  with kg_told_nth [OF assms(1) j(1)] j(2) show ?thesis
    by (auto intro!: kg_told_update assms(1))
qed (use assms in \<open>auto split: if_splits kg_phase.splits prep_pc.splits\<close>)

lemma kg_told_net: "kg_net x out s \<Longrightarrow> kg_told out (kc_fin s)"
proof (induction rule: kg_net.induct)
  case kg_net_start
  show ?case by (simp add: kg_init_def kg_told_def)
next
  case (kg_net_step s a s')
  from kg_told_act [OF kg_net_step.IH kg_net_step.hyps(2,3)] show ?case .
qed

text \<open>
  A node of the call: its store has the history of handler operations, and its handler, started on
  a fresh stream that brought the coordinator's prepare message, has returned.
\<close>

definition kg_node ::
    "'db DB \<Rightarrow> ('db \<Rightarrow> bool) \<Rightarrow> KeyDataCodec \<Rightarrow> kg_call \<Rightarrow> 'db Manager \<Rightarrow> ('pre, 'sd, 'pm, 'pk) TssLib
     \<Rightarrow> 'db env \<Rightarrow> 'sd lib_event list \<Rightarrow> ('db, 'pm) world \<Rightarrow> ('db, 'pm) world \<Rightarrow> bool" where
  "kg_node D db_inv C x m T E evs w w' \<longleftrightarrow>
     m_localStorage m = LevelDBStorage D C \<and> store_reachable D db_inv C (w_store w) \<and>
     others_ok (LevelDBStorage D C) E \<and> main_msgs w = [] \<and>
     (\<exists>prep w1. keygen_prepare E w = (Some (Inr prep), w1) \<and>
        p2p_msg (TssP2PMsg_KeyGenPrepareMsg prep) = kg_prepare_msg x) \<and>
     handleKeyGen m T E evs w = (Returned (), w')"

lemma kg_node_success:
  assumes "leveldb D db_inv C" and "reencodes C" and node: "kg_node D db_inv C x m T E evs w w'"
    and f: "nth_reply (main_msgs w') 1 (Inr (kg_finish f))" "kgf_IsSuccess f"
  shows "\<exists>d. GetKeyDataByKeyIdAndKeySessionId D C (w_store w') (kgq_KeyId (kx_request x)) (kx_sessionId x)
      = Inr (Some d) \<and> kd_Status d = KEY_STATUS_READY \<and> kd_Pubkey d = kgf_PublicKey f"
proof -
  from node obtain prep w1 where prep: "keygen_prepare E w = (Some (Inr prep), w1)"
    "p2p_msg (TssP2PMsg_KeyGenPrepareMsg prep) = kg_prepare_msg x" and run: "handleKeyGen m T E evs w = (Returned (), w')"
    and h: "m_localStorage m = LevelDBStorage D C" "store_reachable D db_inv C (w_store w)"
      "others_ok (LevelDBStorage D C) E" "main_msgs w = []"
    unfolding kg_node_def by blast
  from prep(2) have ids: "kgp_KeyId prep = kgq_KeyId (kx_request x)" "kgp_SessionId prep = kx_sessionId x"
    by (simp_all add: kg_prepare_msg_def)
  from handleKeyGen_msgs [OF run] h(4) f(1) have out: "main_msgs w' = [kg_ready, kg_finish f]" by auto
  from handleKeyGen_answer [OF assms(1,2) h(1-3) prep(1) run] out f(2) show ?thesis
    by (auto simp: ids append_eq_Cons_conv)
qed

section \<open>Signing\<close>

fun ks_link :: "(nat \<Rightarrow> TssP2PMsg list) \<Rightarrow> ks_action \<Rightarrow> ks_state \<Rightarrow> bool" where
  "ks_link out (KSRecv i res) s = nth_reply (out i) 0 res"
| "ks_link out (KSFinRecv j res) s = nth_reply (out (fst (sc_fin s ! j))) 1 res"
| "ks_link out a s = True"

inductive ks_net :: "ks_call \<Rightarrow> (nat \<Rightarrow> TssP2PMsg list) \<Rightarrow> ks_state \<Rightarrow> bool" for x out where
  ks_net_start: "ks_net x out (ks_init x)"
| ks_net_step: "ks_net x out s \<Longrightarrow> ks_link out a s \<Longrightarrow> ks_act x a s = Some s' \<Longrightarrow> ks_net x out s'"

fun ks_net_exec :: "ks_call \<Rightarrow> (nat \<Rightarrow> TssP2PMsg list) \<Rightarrow> ks_action list \<Rightarrow> ks_state \<Rightarrow> ks_state option" where
  "ks_net_exec x out [] s = Some s"
| "ks_net_exec x out (a # as) s =
     (if ks_link out a s
      then (case ks_act x a s of None \<Rightarrow> None | Some s' \<Rightarrow> ks_net_exec x out as s')
      else None)"

lemma ks_net_exec_net: "ks_net_exec x out as s = Some s' \<Longrightarrow> ks_net x out s \<Longrightarrow> ks_net x out s'"
  by (induction as arbitrary: s) (auto split: if_splits option.splits intro: ks_net_step)

lemma ks_net_reach: "ks_net x out s \<Longrightarrow> ks_reach x s"
  by (induction rule: ks_net.induct) (auto intro: ks_reach.intros)

text \<open>A stream that is ready brought the ready message, and a result passed on the node's second.\<close>

definition ks_ready_told :: "(nat \<Rightarrow> TssP2PMsg list) \<Rightarrow> sp_pc list \<Rightarrow> bool" where
  "ks_ready_told out prep \<longleftrightarrow> (\<forall>i < length prep. prep ! i = SPReady \<or> prep ! i = SPDone True \<longrightarrow>
     nth_reply (out i) 0 (Inr ks_ready))"

definition ks_fin_told :: "(nat \<Rightarrow> TssP2PMsg list) \<Rightarrow> (nat \<times> sf_pc) list \<Rightarrow> bool" where
  "ks_fin_told out fin \<longleftrightarrow>
     (\<forall>(i, pc) \<in> set fin. \<forall>f. pc = SFDone (Some f) \<longrightarrow> nth_reply (out i) 1 (Inr (ks_finish f)))"

lemma ks_ready_told_update:
  "ks_ready_told out prep \<Longrightarrow> (pc = SPReady \<or> pc = SPDone True \<Longrightarrow> nth_reply (out i) 0 (Inr ks_ready)) \<Longrightarrow>
     ks_ready_told out (prep[i := pc])"
  unfolding ks_ready_told_def by (metis length_list_update nth_list_update_eq nth_list_update_neq)

lemma ks_fin_told_update:
  "ks_fin_told out fin \<Longrightarrow> (\<And>f. pc = SFDone (Some f) \<Longrightarrow> nth_reply (out i) 1 (Inr (ks_finish f))) \<Longrightarrow>
     ks_fin_told out (fin[j := (i, pc)])"
  using set_update_subset_insert [of fin j "(i, pc)"] unfolding ks_fin_told_def by fast

lemma ks_reply_ready:
  "ks_reply x res = SPReady \<Longrightarrow> nth_reply ms 0 res \<Longrightarrow> nth_reply ms 0 (Inr ks_ready)"
proof (cases res)
  case (Inr m)
  assume "ks_reply x res = SPReady" and ms: "nth_reply ms 0 res"
  with Inr obtain r where "tp_MsgType m = Some (TssP2PMsg_KeySignReadyMsg r)"
    by (auto split: option.splits MsgType.splits)
  then have "m = ks_ready" by (cases m; cases r) simp
  with ms Inr show ?thesis by simp
qed simp

lemma ks_reply_done: "ks_reply x res \<noteq> SPDone b"
  by (cases res) (auto split: option.splits MsgType.splits)

lemma ks_result_told:
  "ks_result x res = Inr f \<Longrightarrow> nth_reply ms 1 res \<Longrightarrow> nth_reply ms 1 (Inr (ks_finish f))"
  by (cases res) (auto split: option.splits MsgType.splits)

lemma ks_ready_told_prep:
  assumes "ks_ready_told out (sc_prep s)" and "ks_link out a s" and "ks_prep_act x a s = Some s'"
  shows "ks_ready_told out (sc_prep s')"
proof (cases a)
  case (KSRecv i res)
  with assms ks_reply_ready [of x res "out i"] show ?thesis
    by (auto simp: ks_reply_done intro!: ks_ready_told_update split: if_splits)
next
  case (KSPutReady i)
  with assms show ?thesis
    by (auto simp: ks_prep_is_def ks_ready_told_def [of _ "sc_prep s"] intro!: ks_ready_told_update
        split: if_splits outcome.splits)
qed (use assms in \<open>auto simp: ks_drop_stream_def intro!: ks_ready_told_update
      split: if_splits option.splits outcome.splits sp_pc.splits bool.splits\<close>)

lemma ks_fin_told_fin:
  assumes "ks_fin_told out (sc_fin s)" and "ks_link out a s" and "ks_fin_act x a s = Some s'"
  shows "ks_fin_told out (sc_fin s')"
proof -
  have report: "ks_fin_told out (sc_fin (ks_report j err t))" if "sc_fin t = sc_fin s" for j err t
    using that assms(1) by (cases rule: ks_report_cases [of t j err]) (auto intro!: ks_fin_told_update)
  show ?thesis
  proof (cases a)
    case (KSFinCheck j)
    with assms show ?thesis by (auto intro!: ks_fin_told_update split: if_splits)
  next
    case (KSFinSend j res)
    with assms report show ?thesis
      by (auto simp: Let_def intro!: ks_fin_told_update split: if_splits option.splits)
  next
    case (KSFinRecv j res)
    with assms report ks_result_told [of x res] show ?thesis
      by (auto intro!: ks_fin_told_update split: if_splits sum.splits outcome.splits)
  qed (use assms in simp_all)
qed

lemma ks_told_act:
  assumes told: "ks_ready_told out (sc_prep s)" "ks_fin_told out (sc_fin s)" and l: "ks_link out a s"
    and a: "ks_act x a s = Some s'"
  shows "ks_ready_told out (sc_prep s') \<and> ks_fin_told out (sc_fin s')"
  using a
proof (cases rule: ks_act_cases)
  case prep
  have "sc_fin s' = sc_fin s" using prep by (cases rule: ks_prep_cases) (auto simp: ks_drop_stream_def)
  with told ks_ready_told_prep [OF told(1) l prep] show ?thesis by simp
next
  case fin
  have "sc_prep s' = sc_prep s" using fin
  proof (cases rule: ks_fin_cases)
    case (report j err m)
    then show ?thesis by (cases rule: ks_report_cases [of "s\<lparr>sc_out := sc_out s @ m\<rparr>" j err]) auto
  qed auto
  with told ks_fin_told_fin [OF told(2) l fin] show ?thesis by simp
next
  case cancel
  then show ?thesis using told by (cases rule: ks_cancel_cases) (auto simp: ks_cancel_one_def Let_def)
next
  case main
  then show ?thesis
  proof (cases rule: ks_main_cases)
    case (take i js)
    have "sc_prep s' = sc_prep s \<and> (sc_fin s' = sc_fin s \<or> sc_fin s' = map (\<lambda>(_, k). (k, SFNew)) (sc_map s'))"
      using take(3) by (auto simp: ks_add_ready_def Let_def)
    then show ?thesis using told by (elim conjE disjE) (auto simp: ks_fin_told_def [of _ "map f xs" for f xs])
  qed (use told in \<open>auto simp: ks_return_early_def ks_take_finish_def Let_def\<close>)
qed (use told in simp)

lemma ks_told_net: "ks_net x out s \<Longrightarrow> ks_ready_told out (sc_prep s) \<and> ks_fin_told out (sc_fin s)"
proof (induction rule: ks_net.induct)
  case ks_net_start
  show ?case by (simp add: ks_init_def Let_def ks_ready_told_def ks_fin_told_def)
next
  case (ks_net_step s a s')
  from ks_told_act [OF _ _ ks_net_step.hyps(2,3)] ks_net_step.IH show ?case by blast
qed

text \<open>
  A node of the call outside of dev mode: its validator asks a service, its store has the history
  of handler operations, and its handler was started on a fresh stream that brought the
  coordinator's prepare message. The handler may have returned, be waiting, or have panicked.
\<close>

definition ks_node ::
    "'db DB \<Rightarrow> ('db \<Rightarrow> bool) \<Rightarrow> KeyDataCodec \<Rightarrow> UnicodeTables \<Rightarrow> 'res Http \<Rightarrow> string \<Rightarrow> ks_call
     \<Rightarrow> 'db Manager \<Rightarrow> ('pre, 'sd, 'pm, 'pk) TssLib \<Rightarrow> 'db env \<Rightarrow> SignatureData lib_event list
     \<Rightarrow> ('db, 'pm) world \<Rightarrow> ('db, 'pm) world \<Rightarrow> bool" where
  "ks_node D db_inv C U H url x m T E evs w w' \<longleftrightarrow>
     m_localStorage m = LevelDBStorage D C \<and> m_validator m = New U H url \<and> \<not> m_dev m \<and>
     store_reachable D db_inv C (w_store w) \<and> others_ok (LevelDBStorage D C) E \<and>
     (\<exists>err. sd_json_Unmarshal T [] = Inl err) \<and> main_msgs w = [] \<and>
     (\<exists>prep w1. keysign_prepare E w = (Some (Inr prep), w1) \<and>
        p2p_msg (TssP2PMsg_KeySignPrepareMsg prep) = ks_prepare_msg x) \<and>
     (\<exists>r c. handleKeySign m T E evs w = (r, c, w'))"

text \<open>What a node has made sure of when it says that it is ready.\<close>

definition ks_vouches ::
    "'db DB \<Rightarrow> KeyDataCodec \<Rightarrow> UnicodeTables \<Rightarrow> 'res Http \<Rightarrow> string \<Rightarrow> ks_call \<Rightarrow> 'db env
     \<Rightarrow> ('db, 'pm) world \<Rightarrow> bool" where
  "ks_vouches D C U H url x E w \<longleftrightarrow>
     (\<exists>now. sign_done H url now (ksq_SignId (sx_request x)) \<or>
        sign_registered U H url now (ksq_SignId (sx_request x)) (ksq_KeyId (sx_request x))
          (ksq_SignMsg (sx_request x))) \<and>
     (\<exists>n kd. GetKeyDataByKeyIdAndKeySessionId D C (e_other E n (w_store w)) (ksq_KeyId (sx_request x))
        (kd_KeySessionId (sx_keyData x)) = Inr (Some kd) \<and> kd_Status kd = KEY_STATUS_READY)"

lemma ks_node_ready:
  assumes "leveldb D db_inv C" and node: "ks_node D db_inv C U H url x m T E evs w w'"
    and rdy: "nth_reply (main_msgs w') 0 (Inr ks_ready)"
  shows "ks_vouches D C U H url x E w"
proof -
  from node obtain prep w1 r c err where prep: "keysign_prepare E w = (Some (Inr prep), w1)"
    "p2p_msg (TssP2PMsg_KeySignPrepareMsg prep) = ks_prepare_msg x"
    and run: "handleKeySign m T E evs w = (r, c, w')"
    and h: "m_localStorage m = LevelDBStorage D C" "store_reachable D db_inv C (w_store w)"
      "others_ok (LevelDBStorage D C) E" "main_msgs w = []" "m_validator m = New U H url" "\<not> m_dev m"
      "sd_json_Unmarshal T [] = Inl err"
    unfolding ks_node_def by blast
  from prep(2) have ids: "ksp_SignId prep = ksq_SignId (sx_request x)" "ksp_KeyId prep = ksq_KeyId (sx_request x)"
    "ksp_KeySessionId prep = kd_KeySessionId (sx_keyData x)" "ksp_SignMsg prep = ksq_SignMsg (sx_request x)"
    by (simp_all add: ks_prepare_msg_def)
  from rdy have sent: "ks_ready \<in> set (main_msgs w')" by (metis nth_reply_simps(2) nth_mem)
  have fresh: "ks_ready \<notin> set (main_msgs w)" by (simp add: h(4))
  from handleKeySign_vetted [OF h(5,6) prep(1) run sent fresh]
    handleKeySign_ready_record [OF assms(1) h(1-3,7) prep(1) run sent fresh]
  show ?thesis unfolding ks_vouches_def ids by blast
qed

lemma ks_node_signature:
  assumes node: "ks_node D db_inv C U H url x m T E evs w w'"
    and f: "nth_reply (main_msgs w') 1 (Inr (ks_finish f))" "ksf_IsSuccess f"
  shows "\<exists>sig. EndCh sig \<in> set evs \<and> f = signature_finish sig"
proof -
  from node obtain prep w1 r c where prep: "keysign_prepare E w = (Some (Inr prep), w1)"
    and run: "handleKeySign m T E evs w = (r, c, w')" and h: "main_msgs w = []"
    unfolding ks_node_def by blast
  let ?p = "keysign_protocol (ksp_SessionId prep)"
  let ?w1 = "set_handler ?p (KeySignSessionHandler (ksp_SessionId prep)) w1"
  have w1: "main_msgs ?w1 = []" using keysign_prepare_eq [OF prep] h by simp
  have short: "length (main_msgs w2) \<le> 1" if "handleKeySign0 m T E prep ?p evs ?w1 = (r2, w2)" for r2 w2
    using handleKeySign0_msgs [OF that] w1 by auto
  show ?thesis
  proof (cases "r = Returned ()")
    case True
    from handleKeySign_answer [OF prep run [unfolded True]] h f show ?thesis by auto
  next
    case False
    have "length (main_msgs w') \<le> 1"
    proof (cases "r = Waiting")
      case True
      with run prep have "\<exists>r2. handleKeySign0 m T E prep ?p evs ?w1 = (r2, w')"
        by (auto simp: handleKeySign_def Let_def split: outcome.splits prod.splits)
      with short show ?thesis by blast
    next
      case ended: False
      from prep run ended show ?thesis
      proof (rule handleKeySign_session)
        fix r2 w2 w3 ch
        assume 0: "handleKeySign0 m T E prep ?p evs ?w1 = (r2, w2)"
          and cl: "keysign_cleanup ?p (make_chan 0) w3 = (ch, w')"
          and "(\<exists>msg. r2 = Panicked msg \<and> r = Panicked msg \<and> w3 = w2) \<or>
            (\<exists>res e. r2 = Returned res \<and> r = Returned () \<and> send_main E (TssP2PMsg_KeySignFinishMsg
              (case res of Inl err \<Rightarrow> ksf_failed (err_text err) | Inr f \<Rightarrow> f)) w2 = (e, w3))"
        with False have "w3 = w2" by auto
        with short [OF 0] keysign_cleanup_eq [OF cl] show ?thesis by simp
      qed
    qed
    with f(1) show ?thesis by simp
  qed
qed

end
