(* ===== verification/KeyGenCoordEnd.thy ===== *)
theory KeyGenCoordEnd
  imports KeyGenCoordProps
begin

text \<open>
  Every run of the coordinator of key generation is finite, and where it can end: what is left
  when nothing but the end of the context can happen.
\<close>

section \<open>Every run is finite\<close>

fun pp_weight :: "prep_pc \<Rightarrow> nat" where
  "pp_weight PNew = 4"
| "pp_weight POpened = 3"
| "pp_weight PSent = 2"
| "pp_weight (PErr opened err) = 1"
| "pp_weight PReady = 1"
| "pp_weight PDone = 0"

fun pf_weight :: "fin_pc \<Rightarrow> nat" where
  "pf_weight FNew = 3"
| "pf_weight FSent = 2"
| "pf_weight (FErr err) = 1"
| "pf_weight (FMsg f) = 1"
| "pf_weight (FDelivered f) = 0"
| "pf_weight FGone = 0"

fun kg_phase_weight :: "nat \<Rightarrow> kg_phase \<Rightarrow> nat" where
  "kg_phase_weight n WaitReady = 3 * n + 1"
| "kg_phase_weight n WaitFinish = 1"
| "kg_phase_weight n (KGReturned r) = 0"

definition kg_measure :: "kg_call \<Rightarrow> kg_state \<Rightarrow> nat" where
  "kg_measure x s = sum_list (map pp_weight (kc_prep s)) + sum_list (map (pf_weight \<circ> snd) (kc_fin s)) +
     kg_phase_weight (length (kg_parties x)) (kc_phase s)"

lemma prep_next_weight: "prep_next a b \<Longrightarrow> pp_weight b < pp_weight a"
  by (cases a) auto

lemma fin_next_weight: "fin_next a b \<Longrightarrow> pf_weight b < pf_weight a"
  by (cases a) auto

lemma prep_weight_update:
  assumes "i < length prep" and "pp_weight pc < pp_weight (prep ! i)"
  shows "sum_list (map pp_weight (prep[i := pc])) < sum_list (map pp_weight prep)"
  using sum_list_map_update [OF assms(1), of pp_weight pc] assms(2) by simp

lemma fin_weight_update:
  assumes "j < length fin" and "pf_weight pc < pf_weight (snd (fin ! j))"
  shows "sum_list (map (pf_weight \<circ> snd) (fin[j := (k, pc)])) < sum_list (map (pf_weight \<circ> snd) fin)"
  using sum_list_map_update [OF assms(1), of "pf_weight \<circ> snd" "(k, pc)"] assms(2) by simp

lemma kg_measure_ready:
  assumes "i < length (kc_prep s)" and "kc_phase s = WaitReady" and "kc_prep s ! i = PReady"
  shows "kg_measure x (kg_add_ready x i s) < kg_measure x s"
proof -
  have three: "sum_list (map (pf_weight \<circ> snd) (map (\<lambda>(_, k). (k, FNew)) m)) = 3 * length m"
    for m :: "(string \<times> nat) list"
    by (induction m) auto
  from prep_weight_update [OF assms(1), of PDone] assms(3) show ?thesis
    by (simp add: kg_measure_def kg_add_ready_def Let_def three assms(2) del: map_map)
qed

lemma kg_measure_less:
  assumes "kg_act x a s = Some s'"
  shows "kg_measure x s' < kg_measure x s"
  using assms
proof (cases rule: kg_act_cases)
  case (cancel err)
  then show ?thesis by (cases "kc_phase s") (auto simp: kg_measure_def)
next
  case (prep i pc out)
  from prep_weight_update [OF prep(1) prep_next_weight [OF prep(2)]] prep(4) show ?thesis
    by (simp add: kg_measure_def)
next
  case (err i opened err)
  from prep_weight_update [OF err(1), of PDone] err(2-4) show ?thesis by (simp add: kg_measure_def)
next
  case (ready i)
  with kg_measure_ready show ?thesis by blast
next
  case (fin j pc out)
  from fin_weight_update [OF fin(1) fin_next_weight [OF fin(2)], of "fst (kc_fin s ! j)"] fin(3) show ?thesis
    by (simp add: kg_measure_def)
next
  case (fin_err j err)
  from fin_weight_update [OF fin_err(1), of FGone "fst (kc_fin s ! j)"] fin_err(3,4) show ?thesis by (simp add: kg_measure_def)
next
  case (finish j f)
  from fin_weight_update [OF finish(1), of "FDelivered f" "fst (kc_fin s ! j)"] finish(2-4) show ?thesis
    by (auto simp: kg_measure_def kg_take_finish_def Let_def)
qed

lemma kg_exec_bound: "kg_exec x as s = Some s' \<Longrightarrow> length as + kg_measure x s' \<le> kg_measure x s"
proof (induction as arbitrary: s)
  case (Cons a as)
  then obtain t where t: "kg_act x a s = Some t" "kg_exec x as t = Some s'" by (auto split: option.splits)
  from kg_measure_less [OF t(1)] Cons.IH [OF t(2)] show ?case by simp
qed simp

lemma kg_measure_init: "kg_measure x (kg_init (Inr sid) x) = 7 * length (kg_parties x) + 1"
  by (simp add: kg_measure_def kg_init_def map_replicate_const sum_list_replicate comp_def)

section \<open>What is waited for\<close>

text \<open>
  In the first phase a goroutine that is gone has put its stream into the map; in the second phase
  none is gone without a result, and a result is missing.
\<close>

definition kg_wait_ok :: "kg_call \<Rightarrow> kg_state \<Rightarrow> bool" where
  "kg_wait_ok x s \<longleftrightarrow>
     (kc_phase s = WaitReady \<longrightarrow> (\<forall>i < length (kc_prep s). kc_prep s ! i = PDone \<longrightarrow>
        kg_ids x ! i \<in> fst ` set (kc_map s))) \<and>
     (kc_phase s = WaitFinish \<longrightarrow> FGone \<notin> snd ` set (kc_fin s) \<and>
        kc_cnt s \<noteq> of_nat (length (kg_parties x)))"

lemma kg_wait_ok_prep:
  assumes "kg_wait_ok x s" and "kc_prep s' = (kc_prep s)[i := pc]" and "pc \<noteq> PDone"
    and "kc_phase s' = kc_phase s" and "kc_map s' = kc_map s" and "kc_fin s' = kc_fin s" and "kc_cnt s' = kc_cnt s"
  shows "kg_wait_ok x s'"
proof -
  have "kc_prep s ! j = PDone" if "j < length (kc_prep s)" "(kc_prep s)[i := pc] ! j = PDone" for j
    using that assms(3) by (cases "i = j") auto
  with assms(1) show ?thesis unfolding kg_wait_ok_def assms(2,4-7) by simp
qed

lemma kg_wait_ok_fin:
  assumes "kg_wait_ok x s" and "kc_fin s' = (kc_fin s)[j := (k, pc)]" and "pc \<noteq> FGone"
    and "kc_phase s' = kc_phase s" and "kc_map s' = kc_map s" and "kc_prep s' = kc_prep s" and "kc_cnt s' = kc_cnt s"
  shows "kg_wait_ok x s'"
  using assms(1,3) set_update_subset_insert [of "kc_fin s" j "(k, pc)"]
  unfolding kg_wait_ok_def assms(2,4-7) by fastforce

lemma kg_wait_ok_returned: "kc_phase s = KGReturned r \<Longrightarrow> kg_wait_ok x s"
  by (simp add: kg_wait_ok_def)

lemma kg_wait_ok_ready:
  assumes ok: "kg_wait_ok x s" and m: "map_ok x s" and p: "phase_ok x s"
    and n: "length (kg_parties x) < 2 ^ 32" and i: "i < length (kc_prep s)" "kc_phase s = WaitReady"
  shows "kg_wait_ok x (kg_add_ready x i s)"
proof -
  let ?k = "kx_rid x (pid_Id (kg_parties x ! i))" and ?s = "kg_add_ready x i s"
  let ?m = "AList.update ?k i (kc_map s)"
  from i(1) m have key: "kg_ids x ! i = ?k" by (simp add: map_ok_def kg_ids_def)
  have dom: "fst ` set ?m = insert ?k (fst ` set (kc_map s))" by (simp add: dom_update)
  show ?thesis
  proof (cases "length ?m = length (kg_parties x)")
    case False
    with i(2) have s': "kc_phase ?s = WaitReady" "kc_prep ?s = (kc_prep s)[i := PDone]" "kc_map ?s = ?m"
      by (simp_all add: kg_add_ready_def Let_def)
    have "kg_ids x ! j \<in> fst ` set ?m" if "j < length (kc_prep s)" "(kc_prep s)[i := PDone] ! j = PDone" for j
      using that ok i(2) key unfolding dom by (cases "j = i") (auto simp: kg_wait_ok_def)
    with s' show ?thesis by (simp add: kg_wait_ok_def)
  next
    case True
    then have s': "kc_phase ?s = WaitFinish" "kc_fin ?s = map (\<lambda>(_, k). (k, FNew)) ?m" "kc_cnt ?s = kc_cnt s"
      by (simp_all add: kg_add_ready_def Let_def)
    have "?m \<noteq> []" by auto
    with True have "0 < length (kg_parties x)" by (metis length_greater_0_conv)
    with n have "(of_nat (length (kg_parties x)) :: int32) \<noteq> 0"
      using unat_of_nat_int32 [OF n] by (metis less_irrefl unat_0)
    moreover have "kc_cnt s = 0" using p i(2) by (simp add: phase_ok_def)
    ultimately show ?thesis unfolding kg_wait_ok_def s' by auto
  qed
qed

lemma kg_wait_ok_act:
  assumes ok: "kg_wait_ok x s" and m: "map_ok x s" and p: "phase_ok x s"
    and n: "length (kg_parties x) < 2 ^ 32" and a: "kg_act x a s = Some s'"
  shows "kg_wait_ok x s'"
  using a
proof (cases rule: kg_act_cases)
  case (prep i pc out)
  with prep_next_pcs [OF prep(2)] show ?thesis by (intro kg_wait_ok_prep [OF ok, of _ i pc]) auto
next
  case (ready i)
  with kg_wait_ok_ready [OF ok m p n] show ?thesis by blast
next
  case (fin j pc out)
  with fin_next_pcs [OF fin(2)] show ?thesis
    by (intro kg_wait_ok_fin [OF ok, of _ j "fst (kc_fin s ! j)" pc]) auto
next
  case (finish j f)
  let ?fin = "(kc_fin s)[j := (fst (kc_fin s ! j), FDelivered f)]"
  have "FGone \<notin> snd ` set ?fin"
    using ok finish(2) set_update_subset_insert [of "kc_fin s" j "(fst (kc_fin s ! j), FDelivered f)"]
    unfolding kg_wait_ok_def by fastforce
  then show ?thesis unfolding finish(4) by (auto simp: kg_take_finish_def Let_def kg_wait_ok_def finish(2))
qed (auto intro: kg_wait_ok_returned)

lemma kg_wait_ok_reach: "kg_reach x s \<Longrightarrow> length (kg_parties x) < 2 ^ 32 \<Longrightarrow> kg_wait_ok x s"
proof (induction rule: kg_reach.induct)
  case kg_start
  show ?case by (auto simp: kg_init_def kg_wait_ok_def)
next
  case (kg_step s a s')
  from kg_wait_ok_act [OF kg_step.IH [OF kg_step.prems] _ _ kg_step.prems kg_step.hyps(2)] kg_inv [OF kg_step.hyps(1)]
  show ?case by blast
qed

section \<open>Where a run can stop\<close>

text \<open>Nothing but the end of the context can happen next.\<close>

definition kg_stuck :: "kg_call \<Rightarrow> kg_state \<Rightarrow> bool" where
  "kg_stuck x s \<longleftrightarrow> (\<forall>a s'. kg_act x a s = Some s' \<longrightarrow> (\<exists>err. a = KGCtxDone err))"

lemma kg_stuckD: "kg_stuck x s \<Longrightarrow> (\<And>err. a \<noteq> KGCtxDone err) \<Longrightarrow> kg_act x a s = None"
  by (cases "kg_act x a s") (auto simp: kg_stuck_def)

lemma kg_stuck_prep:
  assumes "kg_stuck x s" and "kc_phase s = WaitReady" and "i < length (kc_prep s)"
  shows "kc_prep s ! i = PDone"
proof -
  note no = kg_stuckD [OF assms(1)]
  from no [of "KGOpen i None"] no [of "KGSend i None"] no [of "KGRecv i (Inl (Errorf []))"]
    no [of "KGTakeErr i"] no [of "KGTakeReady i"] assms(2,3)
  show ?thesis by (cases "kc_prep s ! i") auto
qed

lemma kg_stuck_fin:
  assumes "kg_stuck x s" and "kc_phase s = WaitFinish" and "j < length (kc_fin s)"
  shows "\<exists>f. snd (kc_fin s ! j) = FDelivered f \<or> snd (kc_fin s ! j) = FGone"
proof -
  note no = kg_stuckD [OF assms(1)]
  from no [of "KGFinSend j None"] no [of "KGFinRecv j (Inl (Errorf []))"]
    no [of "KGTakeFinErr j"] no [of "KGTakeFinish j"] assms(2,3)
  show ?thesis by (cases "snd (kc_fin s ! j)") auto
qed

lemma kg_stuck_ready:
  assumes "kg_reach x s" and "length (kg_parties x) < 2 ^ 32" and "kg_stuck x s" and "kc_phase s = WaitReady"
  shows "\<not> distinct (kg_ids x) \<or> kg_parties x = []"
proof (rule ccontr)
  assume "\<not> ?thesis"
  then have d: "distinct (kg_ids x)" and ne: "kg_parties x \<noteq> []" by simp_all
  from kg_inv [OF assms(1)] have inv: "map_ok x s" "phase_ok x s" by simp_all
  from inv(1) have n: "length (kc_prep s) = length (kg_parties x)" "distinct (map fst (kc_map s))"
    "fst ` set (kc_map s) \<subseteq> set (kg_ids x)" by (force simp: map_ok_def kg_ids_def)+
  have len: "length (kg_ids x) = length (kg_parties x)" by (simp add: kg_ids_def)
  have "set (kg_ids x) \<subseteq> fst ` set (kc_map s)"
  proof
    fix k assume "k \<in> set (kg_ids x)"
    then obtain i where i: "i < length (kg_parties x)" "k = kg_ids x ! i" unfolding len [symmetric] by (metis in_set_conv_nth)
    with kg_stuck_prep [OF assms(3,4)] n(1) kg_wait_ok_reach [OF assms(1,2)] assms(4)
    show "k \<in> fst ` set (kc_map s)" by (simp add: kg_wait_ok_def)
  qed
  with n(3) have eq: "set (map fst (kc_map s)) = set (kg_ids x)" by auto
  from distinct_card [OF d] distinct_card [OF n(2)] eq len have l: "length (kc_map s) = length (kg_parties x)" by simp
  moreover from l ne have "kc_map s \<noteq> []" by auto
  ultimately show False using inv(2) assms(4) by (simp add: phase_ok_def)
qed

lemma kg_stuck_finish:
  assumes "kg_reach x s" and "length (kg_parties x) < 2 ^ 32" and "kg_stuck x s"
  shows "kc_phase s \<noteq> WaitFinish"
proof
  assume ph: "kc_phase s = WaitFinish"
  from kg_inv [OF assms(1)] ph have h: "length (kc_map s) = length (kg_parties x)"
    "map fst (kc_fin s) = map snd (kc_map s)" "kc_cnt s = of_nat (n_delivered s)"
    by (simp_all add: phase_ok_def)
  have len: "length (kc_fin s) = length (kg_parties x)" using h(1,2) by (metis length_map)
  from kg_wait_ok_reach [OF assms(1,2)] ph have w: "FGone \<notin> snd ` set (kc_fin s)"
    "kc_cnt s \<noteq> of_nat (length (kg_parties x))" by (simp_all add: kg_wait_ok_def)
  have "delivered (snd p)" if "p \<in> set (kc_fin s)" for p
  proof -
    from that obtain j where j: "j < length (kc_fin s)" "p = kc_fin s ! j" by (metis in_set_conv_nth)
    from that have "snd p \<in> snd ` set (kc_fin s)" by simp
    with kg_stuck_fin [OF assms(3) ph j(1)] w(1) j(2) show ?thesis by (metis delivered.simps(1))
  qed
  then have "filter (delivered \<circ> snd) (kc_fin s) = kc_fin s" by (simp add: filter_id_conv)
  with len h(3) w(2) show False by (simp add: n_delivered_def)
qed

text \<open>
  C13. Key generation ends. A run on \<open>n\<close> parties has at most \<open>7 n + 1\<close> steps. When it has come
  to a point where nothing but the end of the context can happen (so all streams have answered),
  then the call has returned, or the request named no party or two that report the same id.
\<close>

theorem keygen_ends:
  assumes "kg_exec x as (kg_init (Inr (kx_sessionId x)) x) = Some s" and "length (kg_parties x) < 2 ^ 32"
  shows "length as \<le> 7 * length (kg_parties x) + 1 \<and>
    ((\<forall>a s'. kg_act x a s = Some s' \<longrightarrow> (\<exists>err. a = KGCtxDone err)) \<longrightarrow>
       (\<exists>res. kc_phase s = KGReturned res) \<or> \<not> distinct (kg_ids x) \<or> kg_parties x = [])"
proof -
  have reach: "kg_reach x s" by (rule kg_exec_reach [OF assms(1) kg_start])
  have "(\<exists>res. kc_phase s = KGReturned res) \<or> \<not> distinct (kg_ids x) \<or> kg_parties x = []" if "kg_stuck x s"
    using kg_stuck_ready [OF reach assms(2) that] kg_stuck_finish [OF reach assms(2) that]
    by (cases "kc_phase s") auto
  with kg_exec_bound [OF assms(1)] show ?thesis by (auto simp: kg_measure_init kg_stuck_def)
qed

theorem keygen_ends_witness:
  "\<exists>s. kg_exec (DemoCall [''A'', ''B'']) demo_abandon (kg_init (Inr ''s'') (DemoCall [''A'', ''B''])) = Some s \<and>
     length demo_abandon \<le> 15"
proof -
  let ?x = "DemoCall [''A'', ''B'']"
  have n: "length (kg_parties ?x) = 2" by (simp add: kg_parties_def DemoCall_def go_simps)
  obtain s where s: "kg_exec ?x demo_abandon (kg_init (Inr ''s'') ?x) = Some s"
    by (simp add: demo_abandon_def kg_init_def kg_parties_def DemoCall_def go_simps kg_ready_reply_def
        kg_return_def)
  have "kg_exec ?x demo_abandon (kg_init (Inr (kx_sessionId ?x)) ?x) = Some s"
    using s by (simp add: DemoCall_def)
  from keygen_ends [OF this] n s show ?thesis by simp
qed

end
