(* ===== verification/KeyGenVote.thy ===== *)
theory KeyGenVote
  imports KeyGenCoordProps
begin

text \<open>
  The abstract specification of the coordinator of key generation, a vote in two rounds, and the
  proof that \<open>KeyGen\<close> with its goroutines and channels implements it.
\<close>

section \<open>The vote\<close>

text \<open>
  The ids of the parties that have joined, the votes cast (by the number of the party) and the
  outcome of the call.
\<close>

record vote =
  uv_ready :: "string set"
  uv_votes :: "(nat \<times> KeyGenFinishMsg) set"
  uv_out :: "(error + KeyGenResponse) option"

definition uv_init :: vote where
  "uv_init = \<lparr>uv_ready = {}, uv_votes = {}, uv_out = None\<rparr>"

text \<open>
  Parties join until there are \<open>n\<close> of them. Then each votes at most once; the first vote against
  ends the call with its reason, the last vote for ends it with the key of that vote. Until it has
  ended the call can be given up at any moment.
\<close>

inductive uv_step :: "string list \<Rightarrow> string \<Rightarrow> vote \<Rightarrow> vote \<Rightarrow> bool" for ids sid where
  uv_join: "uv_out v = None \<Longrightarrow> uv_votes v = {} \<Longrightarrow> card (uv_ready v) \<noteq> length ids \<Longrightarrow>
    k \<in> set ids \<Longrightarrow> k \<notin> uv_ready v \<Longrightarrow>
    uv_step ids sid v (v\<lparr>uv_ready := insert k (uv_ready v)\<rparr>)"
| uv_for: "uv_out v = None \<Longrightarrow> card (uv_ready v) = length ids \<Longrightarrow> i < length ids \<Longrightarrow>
    i \<notin> fst ` uv_votes v \<Longrightarrow> kgf_IsSuccess f \<Longrightarrow> Suc (card (uv_votes v)) \<noteq> length ids \<Longrightarrow>
    uv_step ids sid v (v\<lparr>uv_votes := insert (i, f) (uv_votes v)\<rparr>)"
| uv_last: "uv_out v = None \<Longrightarrow> card (uv_ready v) = length ids \<Longrightarrow> i < length ids \<Longrightarrow>
    i \<notin> fst ` uv_votes v \<Longrightarrow> kgf_IsSuccess f \<Longrightarrow> Suc (card (uv_votes v)) = length ids \<Longrightarrow>
    uv_step ids sid v (v\<lparr>uv_votes := insert (i, f) (uv_votes v),
      uv_out := Some (Inr \<lparr>kgr_SessionId = sid, kgr_PublicKey = kgf_PublicKey f\<rparr>)\<rparr>)"
| uv_against: "uv_out v = None \<Longrightarrow> card (uv_ready v) = length ids \<Longrightarrow> i < length ids \<Longrightarrow>
    i \<notin> fst ` uv_votes v \<Longrightarrow> \<not> kgf_IsSuccess f \<Longrightarrow>
    uv_step ids sid v (v\<lparr>uv_votes := insert (i, f) (uv_votes v),
      uv_out := Some (Inl (Errorf (kgf_FailureReason f)))\<rparr>)"
| uv_abort: "uv_out v = None \<Longrightarrow> uv_step ids sid v (v\<lparr>uv_out := Some (Inl err)\<rparr>)"

inductive_cases uv_stepE: "uv_step ids sid v v'"

text \<open>
  What the vote promises, whatever implements it: a key is only returned when all parties are
  there, each with a different id, and each has voted for it exactly once.
\<close>

definition vote_ok :: "string list \<Rightarrow> vote \<Rightarrow> bool" where
  "vote_ok ids v \<longleftrightarrow> finite (uv_votes v) \<and> inj_on fst (uv_votes v) \<and> fst ` uv_votes v \<subseteq> {..<length ids} \<and>
     uv_ready v \<subseteq> set ids \<and> (uv_votes v \<noteq> {} \<longrightarrow> card (uv_ready v) = length ids) \<and>
     ((\<forall>err. uv_out v \<noteq> Some (Inl err)) \<longrightarrow> (\<forall>f \<in> snd ` uv_votes v. kgf_IsSuccess f)) \<and>
     (\<forall>r. uv_out v = Some (Inr r) \<longrightarrow> card (uv_votes v) = length ids \<and> uv_votes v \<noteq> {} \<and>
        kgr_PublicKey r \<in> kgf_PublicKey ` snd ` uv_votes v)"

lemma card_new_vote: "i \<notin> fst ` S \<Longrightarrow> finite S \<Longrightarrow> card (insert (i, f) S) = Suc (card S)"
  by (subst card_insert_disjoint) force+

lemma vote_ok_step: "uv_step ids sid v v' \<Longrightarrow> vote_ok ids v \<Longrightarrow> vote_ok ids v'"
  by (induction rule: uv_step.induct) (auto simp: vote_ok_def inj_on_def card_new_vote rev_image_eqI)

lemma vote_ok_reach: "(uv_step ids sid)\<^sup>*\<^sup>* uv_init v \<Longrightarrow> vote_ok ids v"
proof (induction rule: rtranclp_induct)
  case (step v v')
  from vote_ok_step [OF step.hyps(2) step.IH] show ?case .
qed (simp add: vote_ok_def uv_init_def)

lemma vote_unanimous:
  assumes "(uv_step ids sid)\<^sup>*\<^sup>* uv_init v" and "uv_out v = Some (Inr r)"
  shows "distinct ids" and "fst ` uv_votes v = {..<length ids}" and "\<forall>f \<in> snd ` uv_votes v. kgf_IsSuccess f"
    and "kgr_PublicKey r \<in> kgf_PublicKey ` snd ` uv_votes v"
proof -
  from vote_ok_reach [OF assms(1)] assms(2) have ok: "inj_on fst (uv_votes v)"
    "fst ` uv_votes v \<subseteq> {..<length ids}" "uv_ready v \<subseteq> set ids" "card (uv_ready v) = length ids"
    "card (uv_votes v) = length ids" and good: "\<forall>f \<in> snd ` uv_votes v. kgf_IsSuccess f"
    and key: "kgr_PublicKey r \<in> kgf_PublicKey ` snd ` uv_votes v"
    by (simp_all add: vote_ok_def)
  show "\<forall>f \<in> snd ` uv_votes v. kgf_IsSuccess f" by (rule good)
  show "kgr_PublicKey r \<in> kgf_PublicKey ` snd ` uv_votes v" by (rule key)
  have "length ids \<le> card (set ids)" using card_mono [OF _ ok(3)] ok(4) by simp
  then show "distinct ids" by (metis card_distinct card_length le_antisym)
  show "fst ` uv_votes v = {..<length ids}"
    by (rule card_subset_eq) (use ok in \<open>simp_all add: card_image\<close>)
qed

section \<open>The abstraction of a state of the call\<close>

fun vote_of :: "nat \<times> fin_pc \<Rightarrow> (nat \<times> KeyGenFinishMsg) list" where
  "vote_of (i, FDelivered f) = [(i, f)]"
| "vote_of (i, pc) = []"

definition vote_list :: "(nat \<times> fin_pc) list \<Rightarrow> (nat \<times> KeyGenFinishMsg) list" where
  "vote_list fin = concat (map vote_of fin)"

definition kg_abs :: "kg_state \<Rightarrow> vote" where
  "kg_abs s = \<lparr>uv_ready = fst ` set (kc_map s), uv_votes = set (vote_list (kc_fin s)),
     uv_out = (case kc_phase s of KGReturned r \<Rightarrow> Some r | _ \<Rightarrow> None)\<rparr>"

lemma set_vote_of: "set (vote_of p) = {(i, f). p = (i, FDelivered f)}"
  by (cases p rule: vote_of.cases) auto

lemma set_vote_list: "set (vote_list fin) = {(i, f). (i, FDelivered f) \<in> set fin}"
  by (auto simp: vote_list_def set_vote_of)

lemma vote_list_fst: "map fst (vote_list fin) = map fst (filter (delivered \<circ> snd) fin)"
proof (induction fin)
  case (Cons p fin)
  then show ?case by (cases p rule: vote_of.cases) (simp_all add: vote_list_def)
qed (simp add: vote_list_def)

lemma card_votes: "distinct (map fst fin) \<Longrightarrow> card (set (vote_list fin)) = length (filter (delivered \<circ> snd) fin)"
proof -
  assume "distinct (map fst fin)"
  then have "distinct (map fst (filter (delivered \<circ> snd) fin))" by (rule distinct_map_filter)
  then have "distinct (vote_list fin)" by (metis vote_list_fst distinct_map)
  then have "card (set (vote_list fin)) = length (vote_list fin)" by (rule distinct_card)
  also have "\<dots> = length (filter (delivered \<circ> snd) fin)" using vote_list_fst [of fin] by (metis length_map)
  finally show ?thesis .
qed

text \<open>A goroutine that has not delivered moves: only a delivery adds a vote.\<close>

lemma votes_update:
  assumes "j < length fin" and "\<not> delivered (snd (fin ! j))"
  shows "set (vote_list (fin[j := (k, pc)])) = set (vote_list fin) \<union> set (vote_of (k, pc))"
proof -
  have "(i, FDelivered f) \<in> set (fin[j := (k, pc)]) \<longleftrightarrow>
      (i, FDelivered f) \<in> set fin \<or> (i, FDelivered f) = (k, pc)" for i f
  proof
    assume "(i, FDelivered f) \<in> set (fin[j := (k, pc)])"
    then show "(i, FDelivered f) \<in> set fin \<or> (i, FDelivered f) = (k, pc)"
      using set_update_subset_insert [of fin j "(k, pc)"] by blast
  next
    assume "(i, FDelivered f) \<in> set fin \<or> (i, FDelivered f) = (k, pc)"
    then show "(i, FDelivered f) \<in> set (fin[j := (k, pc)])"
    proof
      assume "(i, FDelivered f) \<in> set fin"
      then obtain l where l: "l < length fin" "fin ! l = (i, FDelivered f)" by (auto simp: in_set_conv_nth)
      with assms(2) have "l \<noteq> j" by auto
      with l have "fin[j := (k, pc)] ! l = (i, FDelivered f)" by simp
      with l(1) show ?thesis by (metis length_list_update nth_mem)
    next
      assume "(i, FDelivered f) = (k, pc)"
      with assms(1) show ?thesis by (metis set_update_memI)
    qed
  qed
  then show ?thesis by (auto simp: set_vote_list set_vote_of)
qed

lemma votes_unchanged:
  "j < length fin \<Longrightarrow> \<not> delivered (snd (fin ! j)) \<Longrightarrow> \<not> delivered pc \<Longrightarrow>
     set (vote_list (fin[j := (k, pc)])) = set (vote_list fin)"
  by (cases pc) (simp_all add: votes_update)

section \<open>The simulation\<close>

text \<open>The goroutines of the second phase are those of distinct parties.\<close>

lemma waiting_streams:
  assumes "map_ok x s" and "phase_ok x s" and "kc_phase s = WaitFinish"
  shows "distinct (map fst (kc_fin s))" and "length (kc_fin s) = length (kg_parties x)"
    and "fst ` set (kc_fin s) = {..<length (kg_parties x)}" and "card (fst ` set (kc_map s)) = length (kg_parties x)"
    and "kc_cnt s = of_nat (n_delivered s)"
proof -
  from assms(2,3) have h: "length (kc_map s) = length (kg_parties x)"
    "map fst (kc_fin s) = map snd (kc_map s)" "kc_cnt s = of_nat (n_delivered s)"
    by (simp_all add: phase_ok_def)
  show "kc_cnt s = of_nat (n_delivered s)" by (rule h(3))
  show len: "length (kc_fin s) = length (kg_parties x)" using h(1,2) by (metis length_map)
  have set: "set (map fst (kc_fin s)) = {..<length (kg_parties x)}"
    using map_indices [OF assms(1) h(1)] h(2) by simp
  then show "fst ` set (kc_fin s) = {..<length (kg_parties x)}" by simp
  show "distinct (map fst (kc_fin s))"
    by (rule card_distinct) (simp only: set length_map len card_lessThan)
  have "distinct (map fst (kc_map s))" using assms(1) by (simp add: map_ok_def)
  from distinct_card [OF this] h(1) show "card (fst ` set (kc_map s)) = length (kg_parties x)" by simp
qed

lemma vote_take_ready:
  assumes m: "map_ok x s" and p: "phase_ok x s" and ph: "kc_phase s = WaitReady" and i: "i < length (kc_prep s)"
  shows "kg_abs (kg_add_ready x i s) = kg_abs s \<or>
    uv_step (kg_ids x) (kx_sessionId x) (kg_abs s) (kg_abs (kg_add_ready x i s))"
proof -
  let ?k = "kx_rid x (pid_Id (kg_parties x ! i))" and ?s = "kg_add_ready x i s"
  let ?m = "AList.update ?k i (kc_map s)"
  have dom: "fst ` set ?m = insert ?k (fst ` set (kc_map s))" by (simp add: dom_update)
  have k: "?k \<in> set (kg_ids x)" using m i by (simp add: map_ok_def kg_ids_def)
  have fin: "kc_fin s = []" using p ph by (simp add: phase_ok_def)
  have none: "vote_list (map (\<lambda>(_, k). (k, FNew)) ?m) = []"
    unfolding vote_list_def by (simp add: case_prod_beta comp_def)
  have abs: "kg_abs ?s = (kg_abs s)\<lparr>uv_ready := insert ?k (fst ` set (kc_map s))\<rparr>"
    using ph fin none dom by (simp add: kg_abs_def kg_add_ready_def Let_def vote_list_def)
  show ?thesis
  proof (cases "?k \<in> fst ` set (kc_map s)")
    case True
    with abs show ?thesis by (simp add: kg_abs_def insert_absorb)
  next
    case False
    have d: "distinct (map fst (kc_map s))" using m by (simp add: map_ok_def)
    have "length (kc_map s) \<noteq> length (kg_parties x)"
      using p ph m i by (auto simp: phase_ok_def map_ok_def)
    then have c: "card (uv_ready (kg_abs s)) \<noteq> length (kg_ids x)"
      using distinct_card [OF d] by (simp add: kg_abs_def kg_ids_def)
    have "uv_step (kg_ids x) (kx_sessionId x) (kg_abs s)
        ((kg_abs s)\<lparr>uv_ready := insert ?k (uv_ready (kg_abs s))\<rparr>)"
      by (rule uv_join [OF _ _ c k]) (use False ph fin in \<open>simp_all add: kg_abs_def vote_list_def\<close>)
    with abs show ?thesis by (simp add: kg_abs_def)
  qed
qed

lemma vote_fresh:
  assumes "distinct (map fst (kc_fin s))" and "j < length (kc_fin s)" and "\<not> delivered (snd (kc_fin s ! j))"
  shows "fst (kc_fin s ! j) \<notin> fst ` uv_votes (kg_abs s)"
proof
  assume "fst (kc_fin s ! j) \<in> fst ` uv_votes (kg_abs s)"
  then obtain g where "(fst (kc_fin s ! j), FDelivered g) \<in> set (kc_fin s)"
    by (auto simp: kg_abs_def set_vote_list)
  then obtain l where l: "l < length (kc_fin s)" "kc_fin s ! l = (fst (kc_fin s ! j), FDelivered g)"
    by (auto simp: in_set_conv_nth)
  then have "l = j" using nth_eq_iff_index_eq [OF assms(1), of l j] assms(2) by simp
  with l(2) have "snd (kc_fin s ! j) = FDelivered g" by (metis snd_conv)
  with assms(3) show False by simp
qed

text \<open>The 32-bit counter reaches the number of parties with the last vote.\<close>

lemma vote_last:
  assumes m: "map_ok x s" and p: "phase_ok x s" and ph: "kc_phase s = WaitFinish"
    and n: "length (kg_parties x) < 2 ^ 32" and j: "j < length (kc_fin s)" "\<not> delivered (snd (kc_fin s ! j))"
  shows "kc_cnt s + 1 = of_nat (length (kg_parties x)) \<longleftrightarrow> Suc (card (uv_votes (kg_abs s))) = length (kg_ids x)"
proof -
  note w = waiting_streams [OF m p ph]
  have card: "card (uv_votes (kg_abs s)) = n_delivered s"
    using card_votes [OF w(1)] by (simp add: kg_abs_def n_delivered_def)
  let ?fin = "(kc_fin s)[j := (fst (kc_fin s ! j), FDelivered undefined)]"
  have "length (filter (delivered \<circ> snd) ?fin) = Suc (n_delivered s)"
    using n_delivered_update [OF j, of _ "FDelivered undefined"] by simp
  moreover have "length (filter (delivered \<circ> snd) ?fin) \<le> length ?fin" by (rule length_filter_le)
  ultimately have "n_delivered s < length (kg_parties x)" using w(2) by simp
  then show ?thesis
    using unat_of_nat_int32 [of "Suc (n_delivered s)"] unat_of_nat_int32 [OF n] n
    unfolding card w(5) kg_ids_def length_map
    by (metis Suc_leI add.commute le_less_trans of_nat_Suc)
qed

lemma vote_take_finish:
  assumes m: "map_ok x s" and p: "phase_ok x s" and ph: "kc_phase s = WaitFinish"
    and n: "length (kg_parties x) < 2 ^ 32" and j: "j < length (kc_fin s)" "snd (kc_fin s ! j) = FMsg f"
  shows "uv_step (kg_ids x) (kx_sessionId x) (kg_abs s) (kg_abs (kg_take_finish x j f s))"
proof -
  let ?i = "fst (kc_fin s ! j)" and ?s = "kg_take_finish x j f s"
  note w = waiting_streams [OF m p ph]
  have nd: "\<not> delivered (snd (kc_fin s ! j))" by (simp add: j(2))
  have votes: "set (vote_list ((kc_fin s)[j := (?i, FDelivered f)])) = insert (?i, f) (set (vote_list (kc_fin s)))"
    by (simp add: votes_update [OF j(1) nd])
  have "?i \<in> fst ` set (kc_fin s)" using j(1) by simp
  then have i: "?i < length (kg_ids x)" using w(3) by (simp add: kg_ids_def)
  note fresh = vote_fresh [OF w(1) j(1) nd] and cnt = vote_last [OF m p ph n j(1) nd]
  have out: "uv_out (kg_abs s) = None" and full: "card (uv_ready (kg_abs s)) = length (kg_ids x)"
    using ph w(4) by (simp_all add: kg_abs_def kg_ids_def)
  note steps = uv_against [OF out full i fresh, of f] uv_last [OF out full i fresh, of f]
    uv_for [OF out full i fresh, of f]
  show ?thesis
  proof (cases "kgf_IsSuccess f")
    case False
    then have "kg_abs ?s = (kg_abs s)\<lparr>uv_votes := insert (?i, f) (uv_votes (kg_abs s)),
        uv_out := Some (Inl (Errorf (kgf_FailureReason f)))\<rparr>"
      using votes by (simp add: kg_abs_def kg_take_finish_def)
    with steps(1) False show ?thesis by simp
  next
    case True
    then have "kg_abs ?s = (if kc_cnt s + 1 = of_nat (length (kg_parties x))
        then (kg_abs s)\<lparr>uv_votes := insert (?i, f) (uv_votes (kg_abs s)),
          uv_out := Some (Inr \<lparr>kgr_SessionId = kx_sessionId x, kgr_PublicKey = kgf_PublicKey f\<rparr>)\<rparr>
        else (kg_abs s)\<lparr>uv_votes := insert (?i, f) (uv_votes (kg_abs s))\<rparr>)"
      using votes ph by (simp add: kg_abs_def kg_take_finish_def Let_def)
    with steps(2,3) True cnt show ?thesis by simp
  qed
qed

text \<open>Every step of the call is a step of the vote, or invisible to it.\<close>

lemma vote_abort:
  assumes "\<forall>r. kc_phase s \<noteq> KGReturned r" and "kc_phase s' = KGReturned (Inl err)"
    and "kc_map s' = kc_map s" and "set (vote_list (kc_fin s')) = set (vote_list (kc_fin s))"
  shows "uv_step ids sid (kg_abs s) (kg_abs s')"
proof -
  have "uv_out (kg_abs s) = None" using assms(1) by (auto simp: kg_abs_def split: kg_phase.splits)
  from uv_abort [OF this, of ids sid err] assms(2-4) show ?thesis by (simp add: kg_abs_def)
qed

lemma kg_simulates:
  assumes m: "map_ok x s" and p: "phase_ok x s" and n: "length (kg_parties x) < 2 ^ 32"
    and a: "kg_act x a s = Some s'"
  shows "kg_abs s' = kg_abs s \<or> uv_step (kg_ids x) (kx_sessionId x) (kg_abs s) (kg_abs s')"
  using a
proof (cases rule: kg_act_cases)
  case (ready i)
  with vote_take_ready [OF m p] show ?thesis by blast
next
  case (fin j pc out)
  with fin_next_pcs [OF fin(2)] show ?thesis by (simp add: kg_abs_def votes_unchanged)
next
  case (fin_err j err)
  then show ?thesis by (auto intro!: vote_abort simp: votes_unchanged)
next
  case (finish j f)
  with vote_take_finish [OF m p _ n] show ?thesis by blast
next
  case (prep i pc out)
  then show ?thesis by (simp add: kg_abs_def)
qed (auto intro!: vote_abort)

lemma kg_abs_init: "kg_abs (kg_init (Inr sid) x) = uv_init"
  by (simp add: kg_abs_def kg_init_def uv_init_def vote_list_def)

lemma kg_reach_vote:
  "kg_reach x s \<Longrightarrow> length (kg_parties x) < 2 ^ 32 \<Longrightarrow>
     (uv_step (kg_ids x) (kx_sessionId x))\<^sup>*\<^sup>* uv_init (kg_abs s)"
proof (induction rule: kg_reach.induct)
  case (kg_step s a s')
  from kg_simulates [OF _ _ kg_step.prems kg_step.hyps(2)] kg_inv [OF kg_step.hyps(1)]
  consider "kg_abs s' = kg_abs s" | "uv_step (kg_ids x) (kx_sessionId x) (kg_abs s) (kg_abs s')" by blast
  then show ?case using kg_step.IH kg_step.prems by cases (auto intro: rtranclp.rtrancl_into_rtrancl)
qed (simp add: kg_abs_init)

section \<open>Properties\<close>

text \<open>
  C6. The coordinator implements the vote. Every run of \<open>KeyGen\<close>, under every interleaving of its
  goroutines, is a run of the two-round vote once its streams and channels are forgotten: parties
  join under different ids until all are there, each then votes at most once, the first refusal or
  error ends the call, and the last vote for ends it with that party's key.
\<close>

theorem keygen_refines_vote:
  assumes "kg_exec x as (kg_init (Inr (kx_sessionId x)) x) = Some s" and "length (kg_parties x) < 2 ^ 32"
  shows "(uv_step (kg_ids x) (kx_sessionId x))\<^sup>*\<^sup>* uv_init (kg_abs s)"
  using kg_exec_reach [OF assms(1) kg_start] assms(2) by (rule kg_reach_vote)

definition demo_vote_run :: "kg_action list" where
  "demo_vote_run = concat (map phase1_chunk [0, 1]) @ concat (map (phase2_chunk demo_report_key) [1, 0])"

theorem keygen_refines_vote_witness:
  "\<exists>v. (uv_step [''A'', ''B''] ''s'')\<^sup>*\<^sup>* uv_init v \<and>
     uv_out v = Some (Inr \<lparr>kgr_SessionId = ''s'', kgr_PublicKey = [0]\<rparr>)"
proof -
  let ?x = "DemoCall [''A'', ''B'']"
  have "map_option kc_phase (kg_exec ?x demo_vote_run (kg_init (Inr ''s'') ?x)) =
      Some (KGReturned (Inr \<lparr>kgr_SessionId = ''s'', kgr_PublicKey = [0]\<rparr>))" by code_simp
  then obtain s where s: "kg_exec ?x demo_vote_run (kg_init (Inr (kx_sessionId ?x)) ?x) = Some s"
    and ph: "kc_phase s = KGReturned (Inr \<lparr>kgr_SessionId = ''s'', kgr_PublicKey = [0]\<rparr>)"
    by (auto simp: DemoCall_def)
  have n: "length (kg_parties ?x) < 2 ^ 32" by (simp add: kg_parties_def DemoCall_def go_simps)
  have ids: "kg_ids ?x = [''A'', ''B'']" "kx_sessionId ?x = ''s''"
    by (simp_all add: kg_ids_def kg_parties_def DemoCall_def go_simps)
  from keygen_refines_vote [OF s n] ph show ?thesis
    unfolding ids by (intro exI [of _ "kg_abs s"]) (simp add: kg_abs_def)
qed

end
