(* ===== verification/KeySignQuorum.thy ===== *)
theory KeySignQuorum
  imports KeySignCoordProps
begin

text \<open>
  The abstract specification of the coordinator of signing: a quorum of parties is gathered, then
  each of them reports once, and a signature is the report of one of them. \<open>KeySign\<close> with its
  goroutines and channels is proved to implement it.
\<close>

section \<open>Gathering a quorum\<close>

text \<open>
  The ids of the parties that have joined, the signing parties once there are enough, what these
  have reported (by the number of the party) and the outcome of the call.
\<close>

record gathering =
  q_ready :: "string set"
  q_signers :: "PartyID list option"
  q_reports :: "(nat \<times> KeySignFinishMsg) set"
  q_out :: "(error + KeySignResponse) option"

definition q_init :: gathering where
  "q_init = \<lparr>q_ready = {}, q_signers = None, q_reports = {}, q_out = None\<rparr>"

text \<open>The parties of the record that have joined, in its order.\<close>

definition joined :: "ks_call \<Rightarrow> string set \<Rightarrow> PartyID list" where
  "joined x R = filter (\<lambda>p. pid_Id p \<in> R) (ks_parties x)"

abbreviation enough :: "ks_call \<Rightarrow> string set \<Rightarrow> bool" where
  "enough x R \<equiv> kd_Threshold (sx_keyData x) <s of_nat (card R)"

text \<open>
  A party that joins starts the signing if more parties than the threshold are there with it.
  Signing parties report at most once; a signature among the reports may be returned, and the call
  may fail, until it has ended.
\<close>

inductive q_step :: "ks_call \<Rightarrow> gathering \<Rightarrow> gathering \<Rightarrow> bool" for x where
  q_join: "q_out g = None \<Longrightarrow> q_signers g = None \<Longrightarrow> k \<in> set (ks_ids x) \<Longrightarrow> k \<notin> q_ready g \<Longrightarrow>
    \<not> enough x (insert k (q_ready g)) \<Longrightarrow> q_step x g (g\<lparr>q_ready := insert k (q_ready g)\<rparr>)"
| q_start: "q_out g = None \<Longrightarrow> q_signers g = None \<Longrightarrow> k \<in> set (ks_ids x) \<Longrightarrow> k \<notin> q_ready g \<Longrightarrow>
    enough x (insert k (q_ready g)) \<Longrightarrow>
    q_step x g (g\<lparr>q_ready := insert k (q_ready g), q_signers := Some (joined x (insert k (q_ready g)))\<rparr>)"
| q_report: "q_out g = None \<Longrightarrow> q_signers g \<noteq> None \<Longrightarrow> i < length (ks_parties x) \<Longrightarrow>
    ks_ids x ! i \<in> q_ready g \<Longrightarrow> i \<notin> fst ` q_reports g \<Longrightarrow>
    q_step x g (g\<lparr>q_reports := insert (i, f) (q_reports g)\<rparr>)"
| q_sign: "q_out g = None \<Longrightarrow> (i, f) \<in> q_reports g \<Longrightarrow> ksf_IsSuccess f \<Longrightarrow>
    q_step x g (g\<lparr>q_out := Some (Inr (ks_response x f))\<rparr>)"
| q_fail: "q_out g = None \<Longrightarrow> q_step x g (g\<lparr>q_out := Some (Inl err)\<rparr>)"

inductive_cases q_stepE: "q_step x g g'"

text \<open>
  What gathering promises: no report without a quorum, each report from a party that joined, at
  most one from each, and a signature only from such a report.
\<close>

definition q_ok :: "ks_call \<Rightarrow> gathering \<Rightarrow> bool" where
  "q_ok x g \<longleftrightarrow> q_ready g \<subseteq> set (ks_ids x) \<and> inj_on fst (q_reports g) \<and>
     (\<forall>i \<in> fst ` q_reports g. i < length (ks_parties x) \<and> ks_ids x ! i \<in> q_ready g) \<and>
     (q_reports g \<noteq> {} \<longrightarrow> q_signers g \<noteq> None) \<and>
     (\<forall>ps. q_signers g = Some ps \<longrightarrow> enough x (q_ready g) \<and> ps = joined x (q_ready g)) \<and>
     (\<forall>r. q_out g = Some (Inr r) \<longrightarrow> (\<exists>(i, f) \<in> q_reports g. ksf_IsSuccess f \<and> r = ks_response x f))"

lemma q_ok_step: "q_step x g g' \<Longrightarrow> q_ok x g \<Longrightarrow> q_ok x g'"
  by (induction rule: q_step.induct) (auto simp: q_ok_def inj_on_def)

lemma q_ok_reach: "(q_step x)\<^sup>*\<^sup>* q_init g \<Longrightarrow> q_ok x g"
proof (induction rule: rtranclp_induct)
  case (step g g')
  from q_ok_step [OF step.hyps(2) step.IH] show ?case .
qed (simp add: q_ok_def q_init_def)

lemma q_signature:
  assumes "(q_step x)\<^sup>*\<^sup>* q_init g" and "q_out g = Some (Inr r)"
  shows "enough x (q_ready g) \<and> q_ready g \<subseteq> set (ks_ids x) \<and> q_signers g = Some (joined x (q_ready g)) \<and>
    (\<exists>(i, f) \<in> q_reports g. ks_ids x ! i \<in> q_ready g \<and> ksf_IsSuccess f \<and> r = ks_response x f)"
proof -
  note ok = q_ok_reach [OF assms(1), unfolded q_ok_def]
  from ok assms(2) obtain i f where f: "(i, f) \<in> q_reports g" "ksf_IsSuccess f" "r = ks_response x f"
    by auto
  with ok have "q_signers g \<noteq> None" "ks_ids x ! i \<in> q_ready g" by force+
  with ok f show ?thesis by fastforce
qed

section \<open>The abstraction of a state of the call\<close>

definition reports_of :: "(nat \<times> sf_pc) list \<Rightarrow> (nat \<times> KeySignFinishMsg) set" where
  "reports_of fin = {(i, f). (i, SFDone (Some f)) \<in> set fin}"

definition ks_abs :: "ks_state \<Rightarrow> gathering" where
  "ks_abs s = \<lparr>q_ready = fst ` set (sc_map s),
     q_signers = (if sc_fin s = [] then None else Some (sc_signPartyIds s)),
     q_reports = reports_of (sc_fin s),
     q_out = (case sc_phase s of KSReturned r \<Rightarrow> Some r | _ \<Rightarrow> None)\<rparr>"

lemma ks_abs_same:
  "sc_map s' = sc_map s \<Longrightarrow> sc_fin s' = sc_fin s \<Longrightarrow> sc_signPartyIds s' = sc_signPartyIds s \<Longrightarrow>
     sc_phase s' = sc_phase s \<Longrightarrow> ks_abs s' = ks_abs s"
  by (simp add: ks_abs_def)

lemma ks_abs_end:
  "sc_map s' = sc_map s \<Longrightarrow> sc_fin s' = sc_fin s \<Longrightarrow> sc_signPartyIds s' = sc_signPartyIds s \<Longrightarrow>
     sc_phase s' = KSReturned r \<Longrightarrow> ks_abs s' = (ks_abs s)\<lparr>q_out := Some r\<rparr>"
  by (simp add: ks_abs_def)

text \<open>A signing goroutine that has not gone moves: only a passed result adds a report.\<close>

lemma reports_update:
  assumes "j < length fin" and "\<not> sf_gone (snd (fin ! j))"
  shows "reports_of (fin[j := (i, pc)]) = reports_of fin \<union> {(i, f) |f. pc = SFDone (Some f)}"
proof -
  have "(k, SFDone (Some f)) \<in> set (fin[j := (i, pc)]) \<longleftrightarrow>
      (k, SFDone (Some f)) \<in> set fin \<or> (k, SFDone (Some f)) = (i, pc)" for k f
  proof
    assume "(k, SFDone (Some f)) \<in> set (fin[j := (i, pc)])"
    then show "(k, SFDone (Some f)) \<in> set fin \<or> (k, SFDone (Some f)) = (i, pc)"
      using set_update_subset_insert [of fin j "(i, pc)"] by blast
  next
    assume "(k, SFDone (Some f)) \<in> set fin \<or> (k, SFDone (Some f)) = (i, pc)"
    then show "(k, SFDone (Some f)) \<in> set (fin[j := (i, pc)])"
    proof
      assume "(k, SFDone (Some f)) \<in> set fin"
      then obtain l where l: "l < length fin" "fin ! l = (k, SFDone (Some f))" by (auto simp: in_set_conv_nth)
      with assms(2) have "l \<noteq> j" by auto
      with l have "fin[j := (i, pc)] ! l = (k, SFDone (Some f))" by simp
      with l(1) show ?thesis by (metis length_list_update nth_mem)
    next
      assume "(k, SFDone (Some f)) = (i, pc)"
      with assms(1) show ?thesis by (metis set_update_memI)
    qed
  qed
  then show ?thesis by (auto simp: reports_of_def)
qed

lemma ks_abs_move:
  assumes "j < length (sc_fin s)" and "\<not> sf_gone (snd (sc_fin s ! j))" and "\<forall>f. pc \<noteq> SFDone (Some f)"
    and "sc_map t = sc_map s" "sc_fin t = sc_fin s" "sc_signPartyIds t = sc_signPartyIds s" "sc_phase t = sc_phase s"
  shows "ks_abs (ks_set_fin j pc t) = ks_abs s"
  using assms by (auto simp: ks_abs_def ks_set_fin_def reports_update)

section \<open>The simulation\<close>

lemma gather_report:
  assumes inv: "ks_ok x s" and m: "ks_map_ok x s" and j: "j < length (sc_fin s)" "snd (sc_fin s ! j) = SFSent"
    and s': "s' = ks_set_fin j (SFDone (Some f)) t" and t: "sc_map t = sc_map s" "sc_fin t = sc_fin s"
      "sc_signPartyIds t = sc_signPartyIds s" "sc_phase t = sc_phase s"
  shows "q_step x (ks_abs s) (ks_abs s')"
proof -
  let ?i = "fst (sc_fin s ! j)"
  from j(2) have g: "\<not> sf_gone (snd (sc_fin s ! j))" by simp
  from ks_ok_fin_phase [OF inv j(1) g] inv have ph: "sc_phase s = WaitAll" and "results_ok s"
    by (simp_all add: ks_ok_def Let_def)
  then have fm: "map fst (sc_fin s) = map snd (sc_map s)" by (simp add: results_ok_def)
  have d: "distinct (map fst (sc_fin s))" using m unfolding fm by (simp add: ks_map_ok_def)
  have "?i \<in> set (map fst (sc_fin s))" using j(1) by simp
  then obtain k where k: "(k, ?i) \<in> set (sc_map s)" unfolding fm by auto
  from map_entry [OF inv m k] have i: "?i < length (ks_parties x)" "k = ks_ids x ! ?i" by simp_all
  have fresh: "?i \<notin> fst ` q_reports (ks_abs s)"
  proof
    assume "?i \<in> fst ` q_reports (ks_abs s)"
    then obtain h where "(?i, SFDone (Some h)) \<in> set (sc_fin s)" by (auto simp: ks_abs_def reports_of_def)
    then obtain l where l: "l < length (sc_fin s)" "sc_fin s ! l = (?i, SFDone (Some h))"
      by (auto simp: in_set_conv_nth)
    then have "l = j" using nth_eq_iff_index_eq [OF d, of l j] j(1) by simp
    with l(2) have "snd (sc_fin s ! j) = SFDone (Some h)" by (metis snd_conv)
    with g show False by simp
  qed
  have "ks_abs s' = (ks_abs s)\<lparr>q_reports := insert (?i, f) (q_reports (ks_abs s))\<rparr>"
    using s' t j(1) by (auto simp: ks_abs_def ks_set_fin_def reports_update [OF j(1) g])
  moreover have "q_signers (ks_abs s) \<noteq> None" "q_out (ks_abs s) = None"
    using j(1) ph by (auto simp: ks_abs_def)
  moreover have "ks_ids x ! ?i \<in> q_ready (ks_abs s)"
    using imageI [OF k, of fst] i(2) by (simp add: ks_abs_def)
  ultimately show ?thesis using q_report [OF _ _ i(1) _ fresh, of f] by simp
qed

lemma gather_fin:
  assumes inv: "ks_ok x s" and m: "ks_map_ok x s" and a: "ks_fin_act x a s = Some s'"
  shows "ks_abs s' = ks_abs s \<or> q_step x (ks_abs s) (ks_abs s')"
  using a
proof (cases rule: ks_fin_cases)
  case (move j pc ms)
  then show ?thesis by (cases pc) (auto intro!: ks_abs_move)
next
  case (leave j)
  then show ?thesis by (auto intro!: ks_abs_move)
next
  case (report j e ms)
  note moved = ks_abs_move [OF report(1,2)]
  show ?thesis
  proof (cases rule: ks_report_cases [of "s\<lparr>sc_out := sc_out s @ ms\<rparr>" j e])
    case put
    then show ?thesis unfolding report(3) put(3) by (intro disjI1 moved) simp_all
  next
    case full
    then show ?thesis unfolding report(3) full(3) by (intro disjI1 moved) simp_all
  next
    case (panic msg)
    with ks_ok_fin_phase [OF inv report(1,2)] report(3) show ?thesis by (simp add: ks_abs_def)
  qed
next
  case (pass j f)
  with gather_report [OF inv m pass(1,2,5)] show ?thesis by simp
next
  case (panic j e)
  with ks_ok_fin_phase [OF inv panic(1,2)] show ?thesis by (simp add: ks_abs_def)
qed

lemma gather_take:
  assumes inv: "ks_ok x s" and m: "ks_map_ok x s" and sg: "ks_sign_ok x s" and ph: "sc_phase s = KSWaitReady"
    and i: "ch_buf (sc_readyChan s) = i # js" and t: "t = s\<lparr>sc_readyChan := c\<rparr>"
  shows "ks_abs (ks_add_ready x i t) = ks_abs s \<or> q_step x (ks_abs s) (ks_abs (ks_add_ready x i t))"
proof -
  let ?k = "sx_rid x (pid_Id (ks_parties x ! i))" and ?s = "ks_add_ready x i t"
  let ?m = "AList.update ?k i (sc_map s)" and ?R = "fst ` set (sc_map s)"
  have dom: "fst ` set ?m = insert ?k ?R" by (simp add: dom_update)
  have "distinct (map fst ?m)" using m by (simp add: ks_map_ok_def distinct_update)
  from distinct_card [OF this] dom have len: "length ?m = card (insert ?k ?R)" by simp
  from inv m i have "i < length (ks_parties x)" by (simp add: ks_map_ok_def ks_ok_def Let_def)
  then have k: "?k \<in> set (ks_ids x)" by (simp add: ks_ids_def)
  have fin: "sc_fin s = []" using inv ph by (simp add: ks_ok_def Let_def)
  have signers: "ks_signers x ?m = joined x (insert ?k ?R)"
    unfolding ks_signers_def joined_def PartyID_GetId_def by (simp add: map_of_eq_None_iff dom)
  have ne: "?m \<noteq> []" by (cases "sc_map s") auto
  have reports: "reports_of (map (\<lambda>(_, k). (k, SFNew)) ?m) = {}" by (auto simp: reports_of_def)
  have abs: "q_out (ks_abs s) = None" "q_signers (ks_abs s) = None" "q_ready (ks_abs s) = ?R"
    using ph fin by (simp_all add: ks_abs_def)
  show ?thesis
  proof (cases "enough x (insert ?k ?R)")
    case True
    then have s': "ks_abs ?s = (ks_abs s)\<lparr>q_ready := insert ?k ?R, q_signers := Some (joined x (insert ?k ?R))\<rparr>"
      using ph fin ne reports by (simp add: ks_abs_def ks_add_ready_def Let_def t len dom signers reports_of_def
          del: map_map)
    have "?k \<notin> ?R"
    proof
      assume "?k \<in> ?R"
      moreover from this have "sc_map s \<noteq> []" by auto
      moreover have "length (sc_map s) = card ?R"
        using m distinct_card [of "map fst (sc_map s)"] by (simp add: ks_map_ok_def)
      ultimately show False using True sg fin by (auto simp: ks_sign_ok_def insert_absorb)
    qed
    with q_start [OF abs(1,2) k] abs(3) True s' show ?thesis by simp
  next
    case False
    then have s': "ks_abs ?s = (ks_abs s)\<lparr>q_ready := insert ?k ?R\<rparr>"
      using ph fin by (simp add: ks_abs_def ks_add_ready_def Let_def t len dom)
    show ?thesis
    proof (cases "?k \<in> ?R")
      case True
      with s' show ?thesis by (simp add: ks_abs_def insert_absorb)
    next
      case new: False
      with q_join [OF abs(1,2) k] abs(3) False s' show ?thesis by simp
    qed
  qed
qed

lemma gather_main:
  assumes inv: "ks_ok x s" and m: "ks_map_ok x s" and sg: "ks_sign_ok x s" and a: "ks_main_act x a s = Some s'"
  shows "ks_abs s' = ks_abs s \<or> q_step x (ks_abs s) (ks_abs s')"
  using a
proof (cases rule: ks_main_cases)
  case (early err c)
  then have "ks_abs s' = (ks_abs s)\<lparr>q_out := Some (Inl err)\<rparr>"
    by (intro ks_abs_end) (simp_all add: ks_return_early_def)
  with early(1) q_fail [of "ks_abs s" x err] show ?thesis by (simp add: ks_abs_def)
next
  case (take i js)
  from gather_take [OF inv m sg take(1,2) refl] take(3) show ?thesis by simp
next
  case (fails err c)
  then have "ks_abs s' = (ks_abs s)\<lparr>q_out := Some (Inl err)\<rparr>"
    by (intro ks_abs_end) (simp_all add: ks_return_def)
  with fails(1) q_fail [of "ks_abs s" x err] show ?thesis by (simp add: ks_abs_def)
next
  case (result f fs)
  have out: "q_out (ks_abs s) = None" using result(1) by (simp add: ks_abs_def)
  show ?thesis
  proof (cases "ksf_IsSuccess f")
    case True
    from sg result(2) obtain i where "(i, f) \<in> q_reports (ks_abs s)"
      by (auto simp: ks_sign_ok_def passed_ok_def ks_abs_def reports_of_def)
    from q_sign [OF out this True] have "q_step x (ks_abs s) ((ks_abs s)\<lparr>q_out := Some (Inr (ks_response x f))\<rparr>)" .
    moreover have "ks_abs s' = (ks_abs s)\<lparr>q_out := Some (Inr (ks_response x f))\<rparr>"
      by (rule ks_abs_end) (simp_all add: True result(3) ks_take_finish_def ks_return_def)
    ultimately show ?thesis by simp
  next
    case False
    then have "ks_abs s' = ks_abs s \<or> (\<exists>err. ks_abs s' = (ks_abs s)\<lparr>q_out := Some (Inl err)\<rparr>)"
      using result(1,3) by (auto simp: ks_abs_def ks_take_finish_def ks_return_def Let_def)
    with q_fail [OF out] show ?thesis by metis
  qed
qed (auto simp: ks_abs_def)

text \<open>Every step of the call is a step of the gathering, or invisible to it.\<close>

lemma ks_simulates:
  assumes inv: "ks_ok x s" and m: "ks_map_ok x s" and sg: "ks_sign_ok x s" and a: "ks_act x a s = Some s'"
  shows "ks_abs s' = ks_abs s \<or> q_step x (ks_abs s) (ks_abs s')"
  using a
proof (cases rule: ks_act_cases)
  case (ctx err)
  then show ?thesis by (auto intro: ks_abs_same)
next
  case prep
  from prep show ?thesis
  proof (cases rule: ks_prep_cases)
    case (panic i e)
    with ks_ok_prep_phase [OF inv panic(1,2)] show ?thesis by (simp add: ks_abs_def)
  qed (auto simp: ks_abs_def ks_set_prep_def ks_drop_stream_def)
next
  case fin
  with gather_fin [OF inv m] show ?thesis .
next
  case cancel
  from cancel show ?thesis
    by (cases rule: ks_cancel_cases) (auto simp: ks_abs_def ks_cancel_one_def Let_def)
next
  case main
  with gather_main [OF inv m sg] show ?thesis .
qed

lemma ks_abs_init: "ks_abs (ks_init x) = q_init"
  by (simp add: ks_abs_def ks_init_def q_init_def reports_of_def Let_def)

lemma ks_reach_gather: "ks_reach x s \<Longrightarrow> (q_step x)\<^sup>*\<^sup>* q_init (ks_abs s)"
proof (induction rule: ks_reach.induct)
  case (ks_next s a s')
  from ks_invs [OF ks_next.hyps(1)] have "ks_ok x s" "ks_map_ok x s" "ks_sign_ok x s" by simp_all
  from ks_simulates [OF this ks_next.hyps(2)]
  consider "ks_abs s' = ks_abs s" | "q_step x (ks_abs s) (ks_abs s')" by blast
  then show ?case using ks_next.IH by cases (auto intro: rtranclp.rtrancl_into_rtrancl)
qed (simp add: ks_abs_init)

section \<open>Properties\<close>

text \<open>
  C7. The coordinator of signing implements the gathering. Every run of \<open>KeySign\<close>, under every
  interleaving of its goroutines, is a run of it once streams, channels and the cancelling of late
  parties are forgotten: parties of the record join under different ids, the one that makes them
  more than the threshold starts the signing with exactly those that have joined, each signing party
  reports at most once, and a signature that is returned is one of the reports.
\<close>

theorem keysign_refines_quorum:
  assumes "ks_exec x as (ks_init x) = Some s"
  shows "(q_step x)\<^sup>*\<^sup>* q_init (ks_abs s)"
  by (rule ks_reach_gather [OF ks_exec_reach [OF assms ks_start]])

theorem keysign_refines_quorum_witness:
  "\<exists>g. (q_step DemoSign3)\<^sup>*\<^sup>* q_init g \<and> q_ready g = {''A'', ''B''} \<and> q_signers g = Some (take 2 (ks_parties DemoSign3)) \<and>
     q_reports g = {(0, demo_result), (1, demo_result)}"
proof -
  obtain s where s: "ks_exec DemoSign3 demo_race (ks_init DemoSign3) = Some s"
    using demo_race_runs by blast
  then have d: "s = demo_state demo_race" by (simp add: demo_state_def)
  have "set (map fst (sc_map (demo_state demo_race))) = {''A'', ''B''}" by code_simp
  then have "fst ` set (sc_map s) = {''A'', ''B''}" by (simp add: d)
  moreover have "sc_fin s = [(0, SFDone (Some demo_result)), (1, SFDone (Some demo_result))]"
    unfolding d by code_simp
  moreover have "sc_signPartyIds s = take 2 (ks_parties DemoSign3)" unfolding d by code_simp
  ultimately show ?thesis
    using keysign_refines_quorum [OF s]
    by (intro exI [of _ "ks_abs s"]) (auto simp: ks_abs_def reports_of_def)
qed

end
