(* ===== verification/KeyTypes.thy ===== *)
theory KeyTypes
  imports KeySignProps
begin

text \<open>
  The type of a key record: which of its fields may hold what in each status. Every operation the
  handlers ask of the store keeps it, and so does a whole run of \<open>handleKeyGen\<close> among any number of
  others.
\<close>

section \<open>Well-typed records\<close>

text \<open>
  A public key that belongs to a saved share: the share is one the library produced, the key its
  point in compressed form.
\<close>

definition share_of :: "('pre, 'sd, 'pm, 'pk) TssLib \<Rightarrow> string \<Rightarrow> bytes \<Rightarrow> bool" where
  "share_of T js pk \<longleftrightarrow> (\<exists>saveData pubKey. sd_json_Marshal T saveData = Inr js \<and>
     ConvertECDSAPubKeyToBTCECPubKey T (sd_ECDSAPub T saveData) = Returned (Inr pubKey) \<and>
     pk = SerializeCompressed T pubKey)"

definition typed :: "('pre, 'sd, 'pm, 'pk) TssLib \<Rightarrow> KeyStatus \<Rightarrow> string \<Rightarrow> bytes \<Rightarrow> bool" where
  "typed T status js pk \<longleftrightarrow>
     status \<in> {KEY_STATUS_PENDING, KEY_STATUS_ERROR} \<and> js = [] \<and> pk = [] \<or>
     status = KEY_STATUS_READY \<and> share_of T js pk"

lemma typed_simps [simp]:
  "typed T KEY_STATUS_PENDING js pk \<longleftrightarrow> js = [] \<and> pk = []"
  "typed T KEY_STATUS_ERROR js pk \<longleftrightarrow> js = [] \<and> pk = []"
  "typed T KEY_STATUS_READY js pk \<longleftrightarrow> share_of T js pk"
  by (simp_all add: typed_def)

abbreviation typed_record :: "('pre, 'sd, 'pm, 'pk) TssLib \<Rightarrow> KeyData \<Rightarrow> bool" where
  "typed_record T d \<equiv> typed T (kd_Status d) (kd_SaveDataJson d) (kd_Pubkey d)"

text \<open>The operations of the handlers that are well-typed themselves.\<close>

fun typed_op :: "('pre, 'sd, 'pm, 'pk) TssLib \<Rightarrow> store_op \<Rightarrow> bool" where
  "typed_op T (OpKeyGen k sid t ps c) = True"
| "typed_op T (OpStatus k sid pk ex up js u) =
     (handler_op (OpStatus k sid pk ex up js u) \<and> typed T up js pk)"

lemma typed_op_handler: "typed_op T op \<Longrightarrow> handler_op op"
  by (cases op) simp_all

section \<open>Histories\<close>

context local_storage
begin

definition rows_typed :: "('pre, 'sd, 'pm, 'pk) TssLib \<Rightarrow> 's \<Rightarrow> bool" where
  "rows_typed T s \<longleftrightarrow> (\<forall>r d. rows s r = Some d \<longrightarrow> typed_record T d)"

lemma rows_typed_op:
  assumes inv: "ls_inv s" and ty: "rows_typed T s" and op: "typed_op T op"
    and r: "apply_op ls op s = (e, s')"
  shows "rows_typed T s'"
proof (cases op)
  case (OpKeyGen k sid t ps c)
  with r have "checkAndSetKeyGenStorage ls k sid t ps c s = (e, s')" by simp
  from keygen_cases [OF inv this] ty show ?thesis
    by (auto simp: rows_typed_def pendingKeyData_def split: if_splits)
next
  case (OpStatus k sid pk ex up js u)
  with r have "compareAndSetKeyStatusStorage ls k sid pk ex up js u s = (e, s')" by simp
  from cas_cases [OF inv this] ty op OpStatus show ?thesis
    by (auto simp: rows_typed_def split: if_splits)
qed

lemma run_typed:
  "store_run ls s ops s' \<Longrightarrow> ls_inv s \<Longrightarrow> list_all (typed_op T) ops \<Longrightarrow> rows_typed T s \<Longrightarrow> rows_typed T s'"
proof (induction rule: store_run.induct)
  case (run_op s ops s' op e s'')
  then have "rows_typed T s'" "typed_op T op" by simp_all
  with rows_typed_op [OF run_inv [OF run_op.hyps(1) run_op.prems(1)]] run_op.hyps(3) show ?case by blast
qed

end

text \<open>A LevelDB store that was empty once and has seen only well-typed operations.\<close>

definition typed_reachable ::
    "'db DB \<Rightarrow> ('db \<Rightarrow> bool) \<Rightarrow> KeyDataCodec \<Rightarrow> ('pre, 'sd, 'pm, 'pk) TssLib \<Rightarrow> 'db \<Rightarrow> bool" where
  "typed_reachable D db_inv C T s \<longleftrightarrow> (\<exists>s0 ops. db_inv s0 \<and> db_Get D s0 = Map.empty \<and>
     store_run (LevelDBStorage D C) s0 ops s \<and> list_all (typed_op T) ops)"

lemma typed_reachable_get:
  assumes lv: "leveldb D db_inv C" and s: "typed_reachable D db_inv C T s"
    and get: "GetKeyDataByKeyIdAndKeySessionId D C s k sid = Inr (Some d)"
  shows "typed_record T d \<and> row_key (kd_KeyId d) (kd_KeySessionId d) = row_key k sid"
proof -
  note st = leveldb.lv_storage [OF lv]
  from s obtain s0 ops where s0: "db_inv s0" "db_Get D s0 = Map.empty"
    and run: "store_run (LevelDBStorage D C) s0 ops s" "list_all (typed_op T) ops"
    by (auto simp: typed_reachable_def)
  have inv0: "leveldb.lv_inv D db_inv C s0" by (rule leveldb.lv_inv_empty [OF lv s0])
  have inv: "leveldb.lv_inv D db_inv C s" by (rule local_storage.run_inv [OF st run(1) inv0])
  have "local_storage.rows_typed (leveldb.lv_rows D C) T s0"
    by (simp add: local_storage.rows_typed_def [OF st] leveldb.lv_rows_empty [OF lv s0(2)])
  then have "local_storage.rows_typed (leveldb.lv_rows D C) T s"
    by (rule local_storage.run_typed [OF st run(1) inv0 run(2)])
  moreover from get get_iff_rows [OF lv inv] have row: "leveldb.lv_rows D C s (row_key k sid) = Some d" by simp
  ultimately have "typed_record T d" unfolding local_storage.rows_typed_def [OF st] by blast
  with leveldb.lv_rows_row [OF lv inv row] show ?thesis by simp
qed

section \<open>The handler asks for well-typed operations only\<close>

text \<open>
  A property of the store that the other goroutines and every well-typed operation keep is kept by
  a run of the handler.
\<close>

definition store_law ::
    "'s LocalStorage \<Rightarrow> 's env \<Rightarrow> ('pre, 'sd, 'pm, 'pk) TssLib \<Rightarrow> ('s \<Rightarrow> bool) \<Rightarrow> bool" where
  "store_law ls E T P \<longleftrightarrow> (\<forall>n s. P s \<longrightarrow> P (e_other E n s)) \<and>
     (\<forall>op s e s'. typed_op T op \<longrightarrow> P s \<longrightarrow> apply_op ls op s = (e, s') \<longrightarrow> P s')"

lemma access_keeps:
  "store_law ls E T P \<Longrightarrow> access ls E op w = (e, w') \<Longrightarrow> typed_op T op \<Longrightarrow> P (w_store w) \<Longrightarrow> P (w_store w')"
  unfolding store_law_def by (drule access_eq) blast

lemma mark_error_keeps:
  assumes law: "store_law (m_localStorage m) E T P" and "mark_error m E prep w = (e, w')" and P: "P (w_store w)"
  shows "P (w_store w')"
  by (rule access_keeps [OF law assms(2) [unfolded mark_error_def] _ P]) simp

lemma keygen_end_keeps:
  assumes law: "store_law (m_localStorage m) E T P" and "keygen_end m T E prep saveData w = (r, w')"
    and P: "P (w_store w)"
  shows "P (w_store w')"
proof (cases "\<exists>js pk. sd_json_Marshal T saveData = Inr js \<and>
    ConvertECDSAPubKeyToBTCECPubKey T (sd_ECDSAPub T saveData) = Returned (Inr pk)")
  case True
  then obtain js pk where js: "sd_json_Marshal T saveData = Inr js"
    and pk: "ConvertECDSAPubKeyToBTCECPubKey T (sd_ECDSAPub T saveData) = Returned (Inr pk)" by blast
  obtain e w2 where 2: "access (m_localStorage m) E (OpStatus (kgp_KeyId prep) (kgp_SessionId prep)
      (SerializeCompressed T pk) KEY_STATUS_PENDING KEY_STATUS_READY js (Some (e_now E (w_tick w)))) w = (e, w2)"
    by fastforce
  have "share_of T js (SerializeCompressed T pk)" using js pk unfolding share_of_def by blast
  then have "P (w_store w2)" by (intro access_keeps [OF law 2 _ P]) simp
  moreover have "w' = w2" using assms(2) js pk 2 by (auto simp: keygen_end_def split: option.splits)
  ultimately show ?thesis by simp
next
  case False
  with assms(2) have "w' = w" by (auto simp: keygen_end_def split: sum.splits outcome.splits)
  with P show ?thesis by simp
qed

lemma keygen_loop_keeps:
  assumes law: "store_law (m_localStorage m) E T P"
  shows "keygen_loop m T E prep pr ids evs w = (r, w') \<Longrightarrow> P (w_store w) \<Longrightarrow> P (w_store w')"
proof (induction evs arbitrary: w)
  case (Cons ev evs)
  show ?case
  proof (cases ev)
    case (ProcessMsg msg)
    with Cons show ?thesis
      by (auto split: option.splits MsgType.splits sum.splits prod.splits dest: mark_error_keeps [OF law])
  next
    case (OutCh msg)
    with Cons.prems show ?thesis
      by (auto simp: Let_def split: sum.splits option.splits prod.splits dest!: send_updates_eq
          intro: Cons.IH)
  next
    case (EndCh sd)
    with Cons.prems show ?thesis by (auto dest: keygen_end_keeps [OF law])
  qed (use Cons.prems in simp_all)
qed simp

lemma keygen_step1_keeps:
  assumes law: "store_law (m_localStorage m) E T P" and "keygen_step1 m E prep w = (r, w')" and P: "P (w_store w)"
  shows "P (w_store w')"
proof -
  let ?op = "OpKeyGen (kgp_KeyId prep) (kgp_SessionId prep) (kgp_Threshold prep) (kgp_AllPartyId prep)
    (Some (e_now E (w_tick w)))"
  obtain e1 w1 where 1: "access (m_localStorage m) E ?op w = (e1, w1)" by fastforce
  obtain e2 w2 where 2: "send_main E (TssP2PMsg_KeyGenReadyMsg KeyGenReadyMsg) w1 = (e2, w2)" by fastforce
  obtain e3 w3 where 3: "recv_main E w2 = (e3, w3)" by fastforce
  have "P (w_store w1)" by (rule access_keeps [OF law 1 _ P]) simp
  moreover from assms(2) 1 2 3 have "w' \<in> {w1, w2, w3}"
    by (auto simp: keygen_step1_def Let_def split: option.splits sum.splits if_splits)
  ultimately show ?thesis using send_main_eq [OF 2] recv_main_eq [OF 3] by auto
qed

lemma handleKeyGen0_keeps:
  assumes law: "store_law (m_localStorage m) E T P" and "handleKeyGen0 m T E prep pr evs w = (r, w')"
    and P: "P (w_store w)"
  shows "P (w_store w')"
proof -
  obtain r1 w1 where 1: "keygen_step1 m E prep w = (r1, w1)" by fastforce
  obtain r2 w2 where 2: "keygen_step2 m T prep w1 = (r2, w2)" by fastforce
  have P1: "P (w_store w1)" by (rule keygen_step1_keeps [OF law 1 P])
  with keygen_step2_msgs [OF 2] have P2: "P (w_store w2)" by simp
  from assms(2) 1 2 consider "w' = w1" | "w' = w2" | ids where "keygen_loop m T E prep pr ids evs w2 = (r, w')"
    by (auto simp: handleKeyGen0_def split: outcome.splits sum.splits)
  then show ?thesis using P1 P2 keygen_loop_keeps [OF law] by cases auto
qed

lemma handleKeyGen_keeps:
  assumes law: "store_law (m_localStorage m) E T P" and "handleKeyGen m T E evs w = (r, w')" and P: "P (w_store w)"
  shows "P (w_store w')"
proof -
  have body: "P (w_store w2)" if "keygen_prepare E w = (Some (Inr prep), w1)"
    "handleKeyGen0 m T E prep pr evs (set_handler pr h w1) = (r', w2)" for prep w1 pr h r' w2
    by (rule handleKeyGen0_keeps [OF law that(2)]) (simp add: keygen_prepare_eq [OF that(1)] P)
  from assms(2) show ?thesis
  proof (cases rule: handleKeyGen_cases)
    case (failed prep err w1 w2 e3 w3 e5 w5)
    from mark_error_keeps [OF law failed(3) body [OF failed(1,2)]] send_main_eq [OF failed(4)] failed(6)
    show ?thesis by (simp add: notify_parties_eq)
  next
    case (finished prep f w1 w2 e3 w3)
    from body [OF finished(1,2)] send_main_eq [OF finished(3)] finished(5) show ?thesis by simp
  next
    case (crash prep msg w1 w2)
    from body [OF crash(1,2)] crash(4) show ?thesis by simp
  next
    case (pending prep w1 w2)
    from body [OF pending(1,2)] pending(4) show ?thesis by simp
  next
    case (bad err e w1)
    with P keygen_prepare_eq send_main_eq show ?thesis by metis
  next
    case (wait w1)
    with P keygen_prepare_eq show ?thesis by metis
  qed
qed

text \<open>Other goroutines that only make well-typed operations.\<close>

definition typed_others :: "'s LocalStorage \<Rightarrow> 's env \<Rightarrow> ('pre, 'sd, 'pm, 'pk) TssLib \<Rightarrow> bool" where
  "typed_others ls E T \<longleftrightarrow> (\<forall>n s. \<exists>ops. store_run ls s ops (e_other E n s) \<and> list_all (typed_op T) ops)"

lemma typed_law:
  assumes "typed_others (LevelDBStorage D C) E T"
  shows "store_law (LevelDBStorage D C) E T (typed_reachable D db_inv C T)"
  unfolding store_law_def
proof (intro conjI allI impI)
  fix n s assume "typed_reachable D db_inv C T s"
  then obtain s0 ops where s0: "db_inv s0" "db_Get D s0 = Map.empty"
    "store_run (LevelDBStorage D C) s0 ops s" "list_all (typed_op T) ops"
    by (auto simp: typed_reachable_def)
  from assms obtain ops' where "store_run (LevelDBStorage D C) s ops' (e_other E n s)"
    "list_all (typed_op T) ops'" unfolding typed_others_def by blast
  with store_run_append [OF this(1) s0(3)] s0 show "typed_reachable D db_inv C T (e_other E n s)"
    unfolding typed_reachable_def by (metis list_all_append)
next
  fix op s e s' assume op: "typed_op T op" "apply_op (LevelDBStorage D C) op s = (e, s')"
    and "typed_reachable D db_inv C T s"
  then obtain s0 ops where s0: "db_inv s0" "db_Get D s0 = Map.empty"
    "store_run (LevelDBStorage D C) s0 ops s" "list_all (typed_op T) ops"
    by (auto simp: typed_reachable_def)
  from run_op [OF s0(3) typed_op_handler [OF op(1)] op(2)] s0 op(1)
  show "typed_reachable D db_inv C T s'"
    unfolding typed_reachable_def by (intro exI [of _ s0] exI [of _ "ops @ [op]"]) simp
qed

text \<open>
  What the type of a ready record gives signing: its saved data can be read back, and the key on
  record is the key of that share.
\<close>

lemma typed_ready_share:
  assumes "typed_record T d" and "kd_Status d = KEY_STATUS_READY"
    and "\<And>sd js. sd_json_Marshal T sd = Inr js \<Longrightarrow> sd_json_Unmarshal T js = Inr sd"
  obtains saveData pubKey where "sd_json_Unmarshal T (kd_SaveDataJson d) = Inr saveData"
    and "ConvertECDSAPubKeyToBTCECPubKey T (sd_ECDSAPub T saveData) = Returned (Inr pubKey)"
    and "kd_Pubkey d = SerializeCompressed T pubKey"
  using assms by (auto simp: share_of_def)

section \<open>Properties\<close>

text \<open>
  C9. Records are well-typed. In a store that was empty once and that only well-typed operations
  have touched, a run of the handler of key generation, among any other such operations and however
  it ends, leaves every record filed under its own name and well-typed: pending and failed records
  hold neither saved data nor a public key, a ready record holds a share the library produced
  together with the compressed public key of that share, and no other status occurs.
\<close>

theorem keygen_store_typed:
  assumes "leveldb D db_inv C" and "m_localStorage m = LevelDBStorage D C"
    and "typed_reachable D db_inv C T (w_store w)" and "typed_others (LevelDBStorage D C) E T"
    and "handleKeyGen m T E evs w = (r, w')"
    and "GetKeyDataByKeyIdAndKeySessionId D C (w_store w') k sid = Inr (Some d)"
  shows "typed_record T d \<and> row_key (kd_KeyId d) (kd_KeySessionId d) = row_key k sid"
proof -
  have "store_law (m_localStorage m) E T (typed_reachable D db_inv C T)"
    unfolding assms(2) by (rule typed_law [OF assms(4)])
  from handleKeyGen_keeps [OF this assms(5,3)] show ?thesis
    by (rule typed_reachable_get [OF assms(1) _ assms(6)])
qed

theorem keygen_store_typed_witness:
  "\<exists>d. GetKeyDataByKeyIdAndKeySessionId MemDB DemoCodec (w_store (snd demo_keygen)) ''k'' ''s'' = Inr (Some d) \<and>
     kd_Status d = KEY_STATUS_READY \<and> share_of DemoTss (kd_SaveDataJson d) (kd_Pubkey d)"
proof -
  from handleKeyGen_answer [OF demo_leveldb demo_reencodes demo_manager demo_world_reachable
      demo_others demo_prepare_run demo_keygen_run(1)]
  obtain d where d: "GetKeyDataByKeyIdAndKeySessionId MemDB DemoCodec (w_store (snd demo_keygen)) ''k'' ''s'' =
      Inr (Some d)" "kd_Status d = KEY_STATUS_READY"
    unfolding demo_ids demo_keygen_run(2) by auto
  have start: "typed_reachable MemDB mem_inv DemoCodec DemoTss (w_store (DemoWorld []))"
    unfolding typed_reachable_def
    by (intro exI [of _ "[]"] conjI run_nil) (simp_all add: DemoWorld_def mem_inv_def MemDB_def run_nil)
  have others: "typed_others demoLS (DemoEnv demo_prepare) DemoTss"
    unfolding typed_others_def by (simp add: DemoEnv_def) (intro allI exI [of _ "[]"] conjI run_nil, simp)
  from keygen_store_typed [OF demo_leveldb demo_manager start others demo_keygen_run(1) d(1)] d show ?thesis
    by auto
qed

end
