(* ===== verification/ProtoReset.thy ===== *)
theory ProtoReset
  imports Proto
begin

text \<open>
  \<open>Reset\<close> of the messages of \<open>tss/tss.pb.go\<close>, with which decoding begins: every field gets its zero
  value. The runtime's bookkeeping is left out. What the getters return then is what they return for
  a nil message.
\<close>

definition PartyID_Reset :: "PartyID \<Rightarrow> PartyID" where
  "PartyID_Reset x = \<lparr>pid_Id = [], pid_Moniker = [], pid_Key = []\<rparr>"

definition KeyData_Reset :: "KeyData \<Rightarrow> KeyData" where
  "KeyData_Reset x = \<lparr>kd_KeyId = [], kd_KeySessionId = [], kd_Threshold = 0, kd_AllPartyId = [],
     kd_Pubkey = [], kd_Status = 0, kd_SaveDataJson = [], kd_CreatedTime = None,
     kd_UpdatedTime = None\<rparr>"

definition KeyGenPrepareMsg_Reset :: "KeyGenPrepareMsg \<Rightarrow> KeyGenPrepareMsg" where
  "KeyGenPrepareMsg_Reset x = \<lparr>kgp_SessionId = [], kgp_KeyId = [], kgp_Threshold = 0, kgp_AllPartyId = [],
     kgp_Deadline = None\<rparr>"

definition KeyGenReadyMsg_Reset :: "KeyGenReadyMsg \<Rightarrow> KeyGenReadyMsg" where
  "KeyGenReadyMsg_Reset x = KeyGenReadyMsg"

definition KeyGenStartMsg_Reset :: "KeyGenStartMsg \<Rightarrow> KeyGenStartMsg" where
  "KeyGenStartMsg_Reset x = KeyGenStartMsg"

definition KeyGenFinishMsg_Reset :: "KeyGenFinishMsg \<Rightarrow> KeyGenFinishMsg" where
  "KeyGenFinishMsg_Reset x = \<lparr>kgf_IsSuccess = False, kgf_FailureReason = [], kgf_PublicKey = []\<rparr>"

definition KeySignPrepareMsg_Reset :: "KeySignPrepareMsg \<Rightarrow> KeySignPrepareMsg" where
  "KeySignPrepareMsg_Reset x = \<lparr>ksp_SignId = [], ksp_SessionId = [], ksp_KeyId = [], ksp_KeySessionId = [],
     ksp_SignMsg = [], ksp_Deadline = None\<rparr>"

definition KeySignReadyMsg_Reset :: "KeySignReadyMsg \<Rightarrow> KeySignReadyMsg" where
  "KeySignReadyMsg_Reset x = KeySignReadyMsg"

definition KeySignStartMsg_Reset :: "KeySignStartMsg \<Rightarrow> KeySignStartMsg" where
  "KeySignStartMsg_Reset x = \<lparr>kss_SignPartyId = []\<rparr>"

definition KeySignCancelMsg_Reset :: "KeySignCancelMsg \<Rightarrow> KeySignCancelMsg" where
  "KeySignCancelMsg_Reset x = KeySignCancelMsg"

definition KeySignFinishMsg_Reset :: "KeySignFinishMsg \<Rightarrow> KeySignFinishMsg" where
  "KeySignFinishMsg_Reset x = \<lparr>ksf_IsSuccess = False, ksf_FailureReason = [], ksf_SignatureR = [],
     ksf_SignatureS = [], ksf_SignatureV = []\<rparr>"

definition ProcessUpdateMsg_Reset :: "ProcessUpdateMsg \<Rightarrow> ProcessUpdateMsg" where
  "ProcessUpdateMsg_Reset x = \<lparr>pum_FromPartyId = [], pum_MsgWireBytes = [],
     pum_IsBroadcast = False\<rparr>"

definition ProcessErrorMsg_Reset :: "ProcessErrorMsg \<Rightarrow> ProcessErrorMsg" where
  "ProcessErrorMsg_Reset x = \<lparr>pem_ErrorMsg = []\<rparr>"

definition TssP2PMsg_Reset :: "TssP2PMsg \<Rightarrow> TssP2PMsg" where
  "TssP2PMsg_Reset x = \<lparr>tp_MsgType = None\<rparr>"

definition GetLocalPartyIdRequest_Reset :: "GetLocalPartyIdRequest \<Rightarrow> GetLocalPartyIdRequest" where
  "GetLocalPartyIdRequest_Reset x = GetLocalPartyIdRequest"

definition GetLocalPartyIdResponse_Reset :: "GetLocalPartyIdResponse \<Rightarrow> GetLocalPartyIdResponse" where
  "GetLocalPartyIdResponse_Reset x = \<lparr>lpr_PartyId = None\<rparr>"

definition GetKeyRequest_Reset :: "GetKeyRequest \<Rightarrow> GetKeyRequest" where
  "GetKeyRequest_Reset x = \<lparr>gkq_KeyId = []\<rparr>"

definition GetKeyResponse_Reset :: "GetKeyResponse \<Rightarrow> GetKeyResponse" where
  "GetKeyResponse_Reset x = \<lparr>gkr_KeyId = [], gkr_PublicKey = [], gkr_Threshold = 0, gkr_AllPartyId = [],
     gkr_Status = 0\<rparr>"

definition KeyGenRequest_Reset :: "KeyGenRequest \<Rightarrow> KeyGenRequest" where
  "KeyGenRequest_Reset x = \<lparr>kgq_KeyId = [], kgq_Threshold = 0, kgq_AllPartyId = []\<rparr>"

definition KeyGenResponse_Reset :: "KeyGenResponse \<Rightarrow> KeyGenResponse" where
  "KeyGenResponse_Reset x = \<lparr>kgr_SessionId = [], kgr_PublicKey = []\<rparr>"

definition KeySignRequest_Reset :: "KeySignRequest \<Rightarrow> KeySignRequest" where
  "KeySignRequest_Reset x = \<lparr>ksq_KeyId = [], ksq_SignMsg = [], ksq_SignId = []\<rparr>"

definition KeySignResponse_Reset :: "KeySignResponse \<Rightarrow> KeySignResponse" where
  "KeySignResponse_Reset x = \<lparr>ksr_SessionId = [], ksr_SignatureR = [], ksr_SignatureS = [],
     ksr_SignatureV = []\<rparr>"

definition KeyDeleteRequest_Reset :: "KeyDeleteRequest \<Rightarrow> KeyDeleteRequest" where
  "KeyDeleteRequest_Reset x = \<lparr>kdq_KeyId = []\<rparr>"

definition KeyDeleteResponse_Reset :: "KeyDeleteResponse \<Rightarrow> KeyDeleteResponse" where
  "KeyDeleteResponse_Reset x = KeyDeleteResponse"

definition VerifySignatureRequest_Reset :: "VerifySignatureRequest \<Rightarrow> VerifySignatureRequest" where
  "VerifySignatureRequest_Reset x = \<lparr>vsq_SignMsg = [], vsq_PublicKey = [], vsq_SignatureR = [],
     vsq_SignatureS = [], vsq_SignatureV = []\<rparr>"

definition VerifySignatureResponse_Reset :: "VerifySignatureResponse \<Rightarrow> VerifySignatureResponse" where
  "VerifySignatureResponse_Reset x = \<lparr>vsr_IsValid = False\<rparr>"

lemmas Reset_defs =
  PartyID_Reset_def KeyData_Reset_def KeyGenPrepareMsg_Reset_def
  KeyGenReadyMsg_Reset_def KeyGenStartMsg_Reset_def KeyGenFinishMsg_Reset_def
  KeySignPrepareMsg_Reset_def KeySignReadyMsg_Reset_def KeySignStartMsg_Reset_def
  KeySignCancelMsg_Reset_def KeySignFinishMsg_Reset_def ProcessUpdateMsg_Reset_def
  ProcessErrorMsg_Reset_def TssP2PMsg_Reset_def GetLocalPartyIdRequest_Reset_def
  GetLocalPartyIdResponse_Reset_def GetKeyRequest_Reset_def GetKeyResponse_Reset_def
  KeyGenRequest_Reset_def KeyGenResponse_Reset_def KeySignRequest_Reset_def
  KeySignResponse_Reset_def KeyDeleteRequest_Reset_def KeyDeleteResponse_Reset_def
  VerifySignatureRequest_Reset_def VerifySignatureResponse_Reset_def

lemma Reset_getters:
  "PartyID_GetId (Some (PartyID_Reset x0)) = PartyID_GetId None"
  "PartyID_GetMoniker (Some (PartyID_Reset x1)) = PartyID_GetMoniker None"
  "PartyID_GetKey (Some (PartyID_Reset x2)) = PartyID_GetKey None"
  "KeyData_GetKeyId (Some (KeyData_Reset x3)) = KeyData_GetKeyId None"
  "KeyData_GetKeySessionId (Some (KeyData_Reset x4)) = KeyData_GetKeySessionId None"
  "KeyData_GetThreshold (Some (KeyData_Reset x5)) = KeyData_GetThreshold None"
  "KeyData_GetAllPartyId (Some (KeyData_Reset x6)) = KeyData_GetAllPartyId None"
  "KeyData_GetPubkey (Some (KeyData_Reset x7)) = KeyData_GetPubkey None"
  "KeyData_GetStatus (Some (KeyData_Reset x8)) = KeyData_GetStatus None"
  "KeyData_GetSaveDataJson (Some (KeyData_Reset x9)) = KeyData_GetSaveDataJson None"
  "KeyData_GetCreatedTime (Some (KeyData_Reset x10)) = KeyData_GetCreatedTime None"
  "KeyData_GetUpdatedTime (Some (KeyData_Reset x11)) = KeyData_GetUpdatedTime None"
  "KeyGenPrepareMsg_GetSessionId (Some (KeyGenPrepareMsg_Reset x12)) = KeyGenPrepareMsg_GetSessionId None"
  "KeyGenPrepareMsg_GetKeyId (Some (KeyGenPrepareMsg_Reset x13)) = KeyGenPrepareMsg_GetKeyId None"
  "KeyGenPrepareMsg_GetThreshold (Some (KeyGenPrepareMsg_Reset x14)) = KeyGenPrepareMsg_GetThreshold None"
  "KeyGenPrepareMsg_GetAllPartyId (Some (KeyGenPrepareMsg_Reset x15)) = KeyGenPrepareMsg_GetAllPartyId None"
  "KeyGenPrepareMsg_GetDeadline (Some (KeyGenPrepareMsg_Reset x16)) = KeyGenPrepareMsg_GetDeadline None"
  "KeyGenFinishMsg_GetIsSuccess (Some (KeyGenFinishMsg_Reset x17)) = KeyGenFinishMsg_GetIsSuccess None"
  "KeyGenFinishMsg_GetFailureReason (Some (KeyGenFinishMsg_Reset x18)) = KeyGenFinishMsg_GetFailureReason None"
  "KeyGenFinishMsg_GetPublicKey (Some (KeyGenFinishMsg_Reset x19)) = KeyGenFinishMsg_GetPublicKey None"
  "KeySignPrepareMsg_GetSignId (Some (KeySignPrepareMsg_Reset x20)) = KeySignPrepareMsg_GetSignId None"
  "KeySignPrepareMsg_GetSessionId (Some (KeySignPrepareMsg_Reset x21)) = KeySignPrepareMsg_GetSessionId None"
  "KeySignPrepareMsg_GetKeyId (Some (KeySignPrepareMsg_Reset x22)) = KeySignPrepareMsg_GetKeyId None"
  "KeySignPrepareMsg_GetKeySessionId (Some (KeySignPrepareMsg_Reset x23)) = KeySignPrepareMsg_GetKeySessionId None"
  "KeySignPrepareMsg_GetSignMsg (Some (KeySignPrepareMsg_Reset x24)) = KeySignPrepareMsg_GetSignMsg None"
  "KeySignPrepareMsg_GetDeadline (Some (KeySignPrepareMsg_Reset x25)) = KeySignPrepareMsg_GetDeadline None"
  "KeySignStartMsg_GetSignPartyId (Some (KeySignStartMsg_Reset x26)) = KeySignStartMsg_GetSignPartyId None"
  "KeySignFinishMsg_GetIsSuccess (Some (KeySignFinishMsg_Reset x27)) = KeySignFinishMsg_GetIsSuccess None"
  "KeySignFinishMsg_GetFailureReason (Some (KeySignFinishMsg_Reset x28)) = KeySignFinishMsg_GetFailureReason None"
  "KeySignFinishMsg_GetSignatureR (Some (KeySignFinishMsg_Reset x29)) = KeySignFinishMsg_GetSignatureR None"
  "KeySignFinishMsg_GetSignatureS (Some (KeySignFinishMsg_Reset x30)) = KeySignFinishMsg_GetSignatureS None"
  "KeySignFinishMsg_GetSignatureV (Some (KeySignFinishMsg_Reset x31)) = KeySignFinishMsg_GetSignatureV None"
  "ProcessUpdateMsg_GetFromPartyId (Some (ProcessUpdateMsg_Reset x32)) = ProcessUpdateMsg_GetFromPartyId None"
  "ProcessUpdateMsg_GetMsgWireBytes (Some (ProcessUpdateMsg_Reset x33)) = ProcessUpdateMsg_GetMsgWireBytes None"
  "ProcessUpdateMsg_GetIsBroadcast (Some (ProcessUpdateMsg_Reset x34)) = ProcessUpdateMsg_GetIsBroadcast None"
  "ProcessErrorMsg_GetErrorMsg (Some (ProcessErrorMsg_Reset x35)) = ProcessErrorMsg_GetErrorMsg None"
  "GetLocalPartyIdResponse_GetPartyId (Some (GetLocalPartyIdResponse_Reset x36)) = GetLocalPartyIdResponse_GetPartyId None"
  "GetKeyRequest_GetKeyId (Some (GetKeyRequest_Reset x37)) = GetKeyRequest_GetKeyId None"
  "GetKeyResponse_GetKeyId (Some (GetKeyResponse_Reset x38)) = GetKeyResponse_GetKeyId None"
  "GetKeyResponse_GetPublicKey (Some (GetKeyResponse_Reset x39)) = GetKeyResponse_GetPublicKey None"
  "GetKeyResponse_GetThreshold (Some (GetKeyResponse_Reset x40)) = GetKeyResponse_GetThreshold None"
  "GetKeyResponse_GetAllPartyId (Some (GetKeyResponse_Reset x41)) = GetKeyResponse_GetAllPartyId None"
  "GetKeyResponse_GetStatus (Some (GetKeyResponse_Reset x42)) = GetKeyResponse_GetStatus None"
  "KeyGenRequest_GetKeyId (Some (KeyGenRequest_Reset x43)) = KeyGenRequest_GetKeyId None"
  "KeyGenRequest_GetThreshold (Some (KeyGenRequest_Reset x44)) = KeyGenRequest_GetThreshold None"
  "KeyGenRequest_GetAllPartyId (Some (KeyGenRequest_Reset x45)) = KeyGenRequest_GetAllPartyId None"
  "KeyGenResponse_GetSessionId (Some (KeyGenResponse_Reset x46)) = KeyGenResponse_GetSessionId None"
  "KeyGenResponse_GetPublicKey (Some (KeyGenResponse_Reset x47)) = KeyGenResponse_GetPublicKey None"
  "KeySignRequest_GetKeyId (Some (KeySignRequest_Reset x48)) = KeySignRequest_GetKeyId None"
  "KeySignRequest_GetSignMsg (Some (KeySignRequest_Reset x49)) = KeySignRequest_GetSignMsg None"
  "KeySignRequest_GetSignId (Some (KeySignRequest_Reset x50)) = KeySignRequest_GetSignId None"
  "KeySignResponse_GetSessionId (Some (KeySignResponse_Reset x51)) = KeySignResponse_GetSessionId None"
  "KeySignResponse_GetSignatureR (Some (KeySignResponse_Reset x52)) = KeySignResponse_GetSignatureR None"
  "KeySignResponse_GetSignatureS (Some (KeySignResponse_Reset x53)) = KeySignResponse_GetSignatureS None"
  "KeySignResponse_GetSignatureV (Some (KeySignResponse_Reset x54)) = KeySignResponse_GetSignatureV None"
  "KeyDeleteRequest_GetKeyId (Some (KeyDeleteRequest_Reset x55)) = KeyDeleteRequest_GetKeyId None"
  "VerifySignatureRequest_GetSignMsg (Some (VerifySignatureRequest_Reset x56)) = VerifySignatureRequest_GetSignMsg None"
  "VerifySignatureRequest_GetPublicKey (Some (VerifySignatureRequest_Reset x57)) = VerifySignatureRequest_GetPublicKey None"
  "VerifySignatureRequest_GetSignatureR (Some (VerifySignatureRequest_Reset x58)) = VerifySignatureRequest_GetSignatureR None"
  "VerifySignatureRequest_GetSignatureS (Some (VerifySignatureRequest_Reset x59)) = VerifySignatureRequest_GetSignatureS None"
  "VerifySignatureRequest_GetSignatureV (Some (VerifySignatureRequest_Reset x60)) = VerifySignatureRequest_GetSignatureV None"
  "VerifySignatureResponse_GetIsValid (Some (VerifySignatureResponse_Reset x61)) = VerifySignatureResponse_GetIsValid None"
  by (simp_all add: Reset_defs go_simps KeyStatus_defs)

end
