(* ===== verification/PrivKey.thy ===== *)
theory PrivKey
  imports Prelude
begin

text \<open>
  \<open>validator/parse_priv_key.go\<close>: reading the node's private key from a Tendermint key file.
  Reading the file, the JSON decoder, the curve and the address format are parameters; the
  standard base64 decoding of the standard library is modelled.
\<close>

section \<open>\<open>base64.StdEncoding.DecodeString\<close>\<close>

text \<open>The value of a character of the standard alphabet.\<close>

definition b64_val :: "char \<Rightarrow> nat option" where
  "b64_val c = (let n = (of_char c :: nat) in
     if 65 \<le> n \<and> n \<le> 90 then Some (n - 65)
     else if 97 \<le> n \<and> n \<le> 122 then Some (n - 71)
     else if 48 \<le> n \<and> n \<le> 57 then Some (n + 4)
     else if n = 43 then Some 62
     else if n = 47 then Some 63
     else None)"

definition newline :: "char \<Rightarrow> bool" where
  "newline c \<longleftrightarrow> (of_char c :: nat) = 10 \<or> (of_char c :: nat) = 13"

text \<open>\<open>j\<close> six-bit values make \<open>j - 1\<close> bytes; surplus low bits are dropped.\<close>

fun quantum :: "nat list \<Rightarrow> bytes" where
  "quantum [a, b, c, d] =
     (let v = ((a * 64 + b) * 64 + c) * 64 + d in [of_nat (v div 65536), of_nat (v div 256 mod 256), of_nat (v mod 256)])"
| "quantum [a, b, c] =
     (let v = ((a * 64 + b) * 64 + c) * 64 in [of_nat (v div 65536), of_nat (v div 256 mod 256)])"
| "quantum [a, b] = (let v = (a * 64 + b) * 4096 in [of_nat (v div 65536)])"
| "quantum _ = []"

fun skip_newlines :: "nat \<Rightarrow> string \<Rightarrow> nat \<times> string" where
  "skip_newlines si [] = (si, [])"
| "skip_newlines si (c # cs) = (if newline c then skip_newlines (Suc si) cs else (si, c # cs))"

text \<open>What may follow the padding: only newlines.\<close>

definition b64_end :: "nat \<Rightarrow> string \<Rightarrow> bytes \<Rightarrow> nat + bytes" where
  "b64_end si cs bs = (case skip_newlines si cs of
     (si, []) \<Rightarrow> Inr bs
   | (si, _ # _) \<Rightarrow> Inl si)"

text \<open>
  The decoder at offset \<open>si\<close> of the input with the values \<open>q\<close> of an unfinished quantum; a left
  result is the offset of a corrupt byte.
\<close>

fun b64_decode :: "nat \<Rightarrow> nat list \<Rightarrow> string \<Rightarrow> nat + bytes" where
  "b64_decode si q [] = (if q = [] then Inr [] else Inl (si - length q))"
| "b64_decode si q (c # cs) =
     (case b64_val c of
        Some v \<Rightarrow>
          if length q = 3
          then (case b64_decode (Suc si) [] cs of Inl e \<Rightarrow> Inl e | Inr bs \<Rightarrow> Inr (quantum (q @ [v]) @ bs))
          else b64_decode (Suc si) (q @ [v]) cs
      | None \<Rightarrow>
          if newline c then b64_decode (Suc si) q cs
          else if c \<noteq> CHR ''='' then Inl si
          else if length q < 2 then Inl si
          else if length q = 2
          then (case skip_newlines (Suc si) cs of
                  (si, []) \<Rightarrow> Inl si
                | (si, d # ds) \<Rightarrow>
                    if d \<noteq> CHR ''='' then Inl (si - 1) else b64_end (Suc si) ds (quantum q))
          else b64_end (Suc si) cs (quantum q))"

fun dec_digits :: "nat \<Rightarrow> string" where
  "dec_digits n = (if n < 10 then [char_of (n + 48)] else dec_digits (n div 10) @ [char_of (n mod 10 + 48)])"

declare dec_digits.simps [simp del]

definition DecodeString :: "string \<Rightarrow> error + bytes" where
  "DecodeString s = (case b64_decode 0 [] s of
     Inl p \<Rightarrow> Inl (Errorf (''illegal base64 data at input byte '' @ dec_digits p))
   | Inr bs \<Rightarrow> Inr bs)"

section \<open>The key file\<close>

record Key =
  key_Type :: string
  key_Value :: string

record PrivKeyFile =
  pkf_Address :: string
  pkf_PubKey :: Key
  pkf_PrivKey :: Key

text \<open>
  The libraries: \<open>'sk\<close> is a \<open>btcec\<close> private key; \<open>kl_compressed\<close> its compressed public key;
  \<open>kl_address\<close> is \<open>BytesToAddress(b).String()\<close>.
\<close>

record 'sk KeyLib =
  kl_ReadFile :: "string \<Rightarrow> error + bytes"
  kl_json :: "bytes \<Rightarrow> error + PrivKeyFile"
  kl_PrivKeyFromBytes :: "bytes \<Rightarrow> 'sk"
  kl_compressed :: "'sk \<Rightarrow> bytes"
  kl_address :: "bytes \<Rightarrow> string"

definition loadFilePV :: "'sk KeyLib \<Rightarrow> string \<Rightarrow> error + PrivKeyFile" where
  "loadFilePV L keyFilePath =
     (case kl_ReadFile L keyFilePath of
        Inl err \<Rightarrow> Inl err
      | Inr keyJSONBytes \<Rightarrow>
        (case kl_json L keyJSONBytes of
           Inl err \<Rightarrow> Inl (Errorf (''error reading PrivValidator key from '' @ keyFilePath @ '': '' @ err_text err))
         | Inr pvKey \<Rightarrow> Inr pvKey))"

definition ParseP2PPrivateKeyFile :: "'sk KeyLib \<Rightarrow> string \<Rightarrow> (error + 'sk \<times> string) outcome" where
  "ParseP2PPrivateKeyFile L p2pPrivateKeyFile =
     (case loadFilePV L p2pPrivateKeyFile of
        Inl err \<Rightarrow> Returned (Inl (Errorf (''load private key from file: '' @ err_text err)))
      | Inr privVal \<Rightarrow>
        (case DecodeString (key_Value (pkf_PrivKey privVal)) of
           Inl err \<Rightarrow> Returned (Inl (Errorf (''error decoding private key: '' @ err_text err)))
         | Inr privKeyBytes \<Rightarrow>
             if length privKeyBytes < 4
             then Panicked ''slice bounds out of range''
             else
               (let privKey = kl_PrivKeyFromBytes L (drop 4 privKeyBytes);
                    p2pAddress = kl_address L (kl_compressed L privKey)
                in Returned (Inr (privKey, p2pAddress)))))"

section \<open>Decoding undoes encoding\<close>

text \<open>The encoder is the specification of the format; the code has no encoder.\<close>

definition b64_char :: "nat \<Rightarrow> char" where
  "b64_char n = char_of (if n < 26 then n + 65 else if n < 52 then n + 71
     else if n < 62 then n - 4 else if n = 62 then 43 else 47)"

fun b64_encode :: "bytes \<Rightarrow> string" where
  "b64_encode [] = []"
| "b64_encode [x] = (let x = unat x in
     [b64_char (x div 4), b64_char (x mod 4 * 16), CHR ''='', CHR ''=''])"
| "b64_encode [x, y] = (let x = unat x; y = unat y in
     [b64_char (x div 4), b64_char (x mod 4 * 16 + y div 16), b64_char (y mod 16 * 4), CHR ''=''])"
| "b64_encode (x # y # z # bs) = (let x = unat x; y = unat y; z = unat z in
     [b64_char (x div 4), b64_char (x mod 4 * 16 + y div 16), b64_char (y mod 16 * 4 + z div 64),
      b64_char (z mod 64)] @ b64_encode bs)"

lemma b64_val_char [simp]: "n < 64 \<Longrightarrow> b64_val (b64_char n) = Some n"
  by (auto simp: b64_val_def b64_char_def Let_def)

lemma b64_pad [simp]: "b64_val (CHR ''='') = None" "\<not> newline (CHR ''='')"
  by (simp_all add: b64_val_def newline_def Let_def)

lemma byte_lt: "unat (b :: byte) < 256"
  using unsigned_less [of b, where 'a = nat] by simp

lemma sextets_sum:
  fixes a b c d e f :: nat
  shows "((a * 64 + (b * 16 + c)) * 64 + (d * 4 + e)) * 64 + f =
    ((a * 4 + b) * 256 + (c * 16 + d)) * 256 + (e * 64 + f)"
  by simp

lemma sextets:
  fixes x y z :: nat
  assumes "x < 256" and "y < 256" and "z < 256"
  shows "x div 4 < 64" and "x mod 4 * 16 + y div 16 < 64" and "y mod 16 * 4 + z div 64 < 64"
    and "z mod 64 < 64"
    and "((x div 4 * 64 + (x mod 4 * 16 + y div 16)) * 64 + (y mod 16 * 4 + z div 64)) * 64 + z mod 64 =
      (x * 256 + y) * 256 + z"
proof -
  have m: "x mod 4 < 4" "y mod 16 < 16" by simp_all
  have d: "x div 4 < 64" "y div 16 < 16" "z div 64 < 4" using assms by (simp_all add: less_mult_imp_div_less)
  show "x div 4 < 64" by fact
  show "z mod 64 < 64" by simp
  show "x mod 4 * 16 + y div 16 < 64" using m d by linarith
  show "y mod 16 * 4 + z div 64 < 64" using m d by linarith
  show "((x div 4 * 64 + (x mod 4 * 16 + y div 16)) * 64 + (y mod 16 * 4 + z div 64)) * 64 + z mod 64 =
      (x * 256 + y) * 256 + z"
    by (simp only: sextets_sum div_mult_mod_eq)
qed

lemma three_bytes:
  fixes x y z :: nat
  assumes "y < 256" and "z < 256"
  shows "((x * 256 + y) * 256 + z) div 65536 = x"
    and "((x * 256 + y) * 256 + z) div 256 mod 256 = y"
    and "((x * 256 + y) * 256 + z) mod 256 = z"
proof -
  have d: "((x * 256 + y) * 256 + z) div 256 = x * 256 + y" using assms by simp
  have "(x * 256 + y) div 256 = x" using assms by simp
  with d have "((x * 256 + y) * 256 + z) div (256 * 256) = x"
    by (simp only: div_mult2_eq)
  then show "((x * 256 + y) * 256 + z) div 65536 = x" by simp
  show "((x * 256 + y) * 256 + z) div 256 mod 256 = y"
    unfolding d using assms by simp
  show "((x * 256 + y) * 256 + z) mod 256 = z"
    unfolding mod_mult_self3 using assms by simp
qed

lemma quantum_three:
  "quantum [unat x div 4, unat x mod 4 * 16 + unat y div 16, unat y mod 16 * 4 + unat z div 64,
     unat z mod 64] = [x, y, z]"
  unfolding quantum.simps sextets(5) [OF byte_lt byte_lt byte_lt] Let_def
    three_bytes [OF byte_lt byte_lt]
  by simp

lemma quantum_two:
  "quantum [unat x div 4, unat x mod 4 * 16 + unat y div 16, unat y mod 16 * 4] = [x, y]"
  using quantum_three [of x y 0] by simp

lemma quantum_one: "quantum [unat x div 4, unat x mod 4 * 16] = [x]"
proof -
  have "(unat x div 4 * 64 + unat x mod 4 * 16) * 4096 = unat x * 65536"
    using sextets_sum [of "unat x div 4" "unat x mod 4" 0 0 0 0] by (simp only: div_mult_mod_eq) simp
  then show ?thesis by (simp only: quantum.simps Let_def) simp
qed

lemma b64_decode_encode: "b64_decode si [] (b64_encode bs) = Inr bs"
proof (induction bs arbitrary: si rule: b64_encode.induct)
  case (2 x)
  have "unat x div 4 < 64" "unat x mod 4 * 16 < 64" using byte_lt [of x] by simp_all
  then show ?case by (simp add: Let_def b64_end_def quantum_one del: quantum.simps)
next
  case (3 x y)
  have "unat x div 4 < 64" "unat x mod 4 * 16 + unat y div 16 < 64" "unat y mod 16 * 4 < 64"
    using sextets [OF byte_lt [of x] byte_lt [of y], of 0] by simp_all
  then show ?case by (simp add: Let_def b64_end_def quantum_two del: quantum.simps)
next
  case (4 x y z bs)
  with sextets(1-4) [OF byte_lt [of x] byte_lt [of y] byte_lt [of z]] show ?case
    by (simp add: Let_def quantum_three del: quantum.simps)
qed simp

lemma DecodeString_encode: "DecodeString (b64_encode bs) = Inr bs"
  by (simp add: DecodeString_def b64_decode_encode)

section \<open>Property\<close>


definition DemoKeyLib :: "bytes \<Rightarrow> bytes KeyLib" where
  "DemoKeyLib bs = \<lparr>kl_ReadFile = (\<lambda>_. Inr []),
     kl_json = (\<lambda>_. Inr \<lparr>pkf_Address = [], pkf_PubKey = \<lparr>key_Type = [], key_Value = []\<rparr>,
       pkf_PrivKey = \<lparr>key_Type = [], key_Value = b64_encode bs\<rparr>\<rparr>),
     kl_PrivKeyFromBytes = id, kl_compressed = id, kl_address = string_of\<rparr>"


end
