(* ===== verification/Server.thy ===== *)
theory Server
  imports KeyGenNode KeySignNode PrivKey
begin

text \<open>
  The program's start and end: \<open>main\<close> and \<open>parseP2PBootstrapPeers\<close> of \<open>main.go\<close>, with the
  start and stop of \<open>LevelDBStorage\<close> (\<open>tss/tss_storage.go\<close>). A run is the trace of what it did;
  deferred calls are the part of the trace that is written when \<open>main\<close> is left. The gRPC
  server, the listener, the multiaddress library and the database are parameters.
\<close>

section \<open>Start and stop of the storage\<close>

record 'db LevelDB =
  ldb_path :: string
  ldb_db :: "'db option"

definition NewLevelDBStorage :: "string \<Rightarrow> 'db LevelDB" where
  "NewLevelDBStorage path = \<lparr>ldb_path = path, ldb_db = None\<rparr>"

text \<open>\<open>dbm.NewDB\<close> panics when it cannot open the database; the error of \<open>Start\<close> is always nil.\<close>

definition LevelDB_Start ::
    "(string \<Rightarrow> string + 'db) \<Rightarrow> 'db LevelDB \<Rightarrow> (error option \<times> 'db LevelDB) outcome" where
  "LevelDB_Start NewDB s =
     (case NewDB (ldb_path s) of
        Inl msg \<Rightarrow> Panicked msg
      | Inr db \<Rightarrow> Returned (None, s\<lparr>ldb_db := Some db\<rparr>))"

definition LevelDB_Stop :: "'db LevelDB \<Rightarrow> unit outcome" where
  "LevelDB_Stop s = (case ldb_db s of None \<Rightarrow> Panicked nil_deref | Some _ \<Rightarrow> Returned ())"

section \<open>\<open>parseP2PBootstrapPeers\<close>\<close>

text \<open>\<open>strings.Split\<close> for a separator of one character.\<close>

fun Split :: "string \<Rightarrow> char \<Rightarrow> string list" where
  "Split [] sep = [[]]"
| "Split (c # s) sep =
     (if c = sep then [] # Split s sep
      else case Split s sep of [] \<Rightarrow> [[c]] | w # ws \<Rightarrow> (c # w) # ws)"

fun parse_addrs :: "(string \<Rightarrow> error + 'ai) \<Rightarrow> string list \<Rightarrow> 'ai list \<Rightarrow> error + 'ai list" where
  "parse_addrs AddrInfoFromString [] bootstrapPeers = Inr bootstrapPeers"
| "parse_addrs AddrInfoFromString (addr # addrs) bootstrapPeers =
     (case AddrInfoFromString addr of
        Inl err \<Rightarrow> Inl err
      | Inr peerInfo \<Rightarrow> parse_addrs AddrInfoFromString addrs (bootstrapPeers @ [peerInfo]))"

definition parseP2PBootstrapPeers :: "(string \<Rightarrow> error + 'ai) \<Rightarrow> string \<Rightarrow> error + 'ai list" where
  "parseP2PBootstrapPeers AddrInfoFromString p2pBootstrapPeers =
     parse_addrs AddrInfoFromString (Split p2pBootstrapPeers (CHR '','')) []"

section \<open>\<open>main\<close>\<close>

record main_args =
  argStoragePath :: string
  argP2PBootstrapPeers :: string
  argP2PListenAddr :: string
  argP2PPrivateKeyFile :: string
  argThemisRestUrl :: string
  argGrpcPort :: nat
  argDev :: bool

text \<open>How serving ends: the listener fails, the server ends (with an error or not), or a signal.\<close>

datatype serve_end = ListenFailed error | ServeEnded "error option" | Signalled

record ('db, 'ai, 'ma, 'sk, 'pid, 'st) main_env =
  me_getenv_p2p :: string
  me_NewDB :: "string \<Rightarrow> string + 'db"
  me_AddrInfo :: "string \<Rightarrow> error + 'ai"
  me_NewMultiaddr :: "string \<Rightarrow> error + 'ma"
  me_KeyLib :: "'sk KeyLib"
  me_LibP2P :: "('ai, 'ma, 'sk, 'pid, 'st) LibP2P"
  me_serve :: serve_end

text \<open>
  What a run does, in order. \<open>Serving\<close> carries the handler table at that moment.
\<close>

datatype main_eff =
    StorageStarted
  | P2PStarted
  | ManagerStarted
  | Serving "(string \<times> node_handler) list option"
  | ServeStopped serve_end
  | Logged string error
  | ManagerStopped "(string \<times> node_handler) list option"
  | P2PStopped "error option"
  | StorageStopped

text \<open>The part after the communicator has started, with its deferred calls.\<close>

definition main_serve ::
    "('db, 'ai, 'ma, 'sk, 'pid, 'st) main_env \<Rightarrow> ('ai, 'ma, 'sk, node_handler) LibP2PManager
     \<Rightarrow> unit outcome \<times> main_eff list" where
  "main_serve E p2p =
     (case Manager_Start p2p of
        Panicked m \<Rightarrow> (Panicked m, [])
      | Waiting \<Rightarrow> (Waiting, [])
      | Returned p2p \<Rightarrow>
        (let served = [ManagerStarted, Serving (lm_host p2p), ServeStopped (me_serve E)] in
         case Manager_Stop p2p of
           Panicked m \<Rightarrow> (Panicked m, served)
         | Waiting \<Rightarrow> (Waiting, served)
         | Returned p2p \<Rightarrow> (Returned (), served @ [ManagerStopped (lm_host p2p)])))"

text \<open>The communicator: made, started, and stopped on the way out.\<close>

definition main_p2p ::
    "('db, 'ai, 'ma, 'sk, 'pid, 'st) main_env \<Rightarrow> 'ai list \<Rightarrow> 'ma \<Rightarrow> 'sk \<Rightarrow> string
     \<Rightarrow> unit outcome \<times> main_eff list" where
  "main_p2p E peers listenAddr key address =
     (case NewLibP2PManager (me_LibP2P E) peers listenAddr key address of
        Inl err \<Rightarrow> (Returned (), [Logged ''failed NewLibP2PManager'' err])
      | Inr p2p \<Rightarrow>
        (case Start (me_LibP2P E) p2p of
           Panicked m \<Rightarrow> (Panicked m, [])
         | Waiting \<Rightarrow> (Waiting, [])
         | Returned (Some err, _) \<Rightarrow> (Returned (), [Logged ''failed start storage'' err])
         | Returned (None, p2p) \<Rightarrow>
           (let (res, tr) = main_serve E p2p in
            case Stop (me_LibP2P E) p2p of
              Panicked m \<Rightarrow> (Panicked m, P2PStarted # tr)
            | Waiting \<Rightarrow> (Waiting, P2PStarted # tr)
            | Returned err \<Rightarrow> (res, P2PStarted # tr @ [P2PStopped err] @
                (case err of None \<Rightarrow> [] | Some e \<Rightarrow> [Logged ''failed stop libp2p'' e])))))"

definition main_args_parsed ::
    "main_args \<Rightarrow> ('db, 'ai, 'ma, 'sk, 'pid, 'st) main_env \<Rightarrow> unit outcome \<times> main_eff list" where
  "main_args_parsed A E =
     (let peersArg = (if me_getenv_p2p E \<noteq> [] then me_getenv_p2p E else argP2PBootstrapPeers A) in
      case parseP2PBootstrapPeers (me_AddrInfo E) peersArg of
        Inl err \<Rightarrow> (Returned (), [Logged ''failed parse p2p bootstrap peers'' err])
      | Inr p2pBootstrapPeers \<Rightarrow>
        (case me_NewMultiaddr E (argP2PListenAddr A) of
           Inl err \<Rightarrow> (Returned (), [Logged ''failed parse p2p listen addr'' err])
         | Inr p2pListenAddr \<Rightarrow>
           (case ParseP2PPrivateKeyFile (me_KeyLib E) (argP2PPrivateKeyFile A) of
              Panicked m \<Rightarrow> (Panicked m, [])
            | Waiting \<Rightarrow> (Waiting, [])
            | Returned (Inl err) \<Rightarrow> (Returned (), [Logged ''failed parse p2p private key'' err])
            | Returned (Inr (p2pPrivateKey, p2pAddress)) \<Rightarrow>
                main_p2p E p2pBootstrapPeers p2pListenAddr p2pPrivateKey p2pAddress)))"

text \<open>The storage first; its deferred stop is also run when a later part panics.\<close>

definition main ::
    "main_args \<Rightarrow> ('db, 'ai, 'ma, 'sk, 'pid, 'st) main_env \<Rightarrow> unit outcome \<times> main_eff list" where
  "main A E =
     (case LevelDB_Start (me_NewDB E) (NewLevelDBStorage (argStoragePath A)) of
        Panicked m \<Rightarrow> (Panicked m, [])
      | Waiting \<Rightarrow> (Waiting, [])
      | Returned (Some err, _) \<Rightarrow> (Returned (), [Logged ''failed start storage'' err])
      | Returned (None, storage) \<Rightarrow>
        (let (res, tr) = main_args_parsed A E in
         case LevelDB_Stop storage of
           Returned _ \<Rightarrow> (res, StorageStarted # tr @ [StorageStopped])
         | Panicked m \<Rightarrow> (Panicked m, StorageStarted # tr)
         | Waiting \<Rightarrow> (Waiting, StorageStarted # tr)))"

section \<open>Lemmas\<close>

lemma Split_nonempty [simp]: "Split s sep \<noteq> []"
  by (induction s) (auto split: list.splits)

text \<open>Joining the parts gives the string back, and no part holds the separator.\<close>

fun join :: "char \<Rightarrow> string list \<Rightarrow> string" where
  "join sep [] = []"
| "join sep [w] = w"
| "join sep (w # v # ws) = w @ sep # join sep (v # ws)"

lemma join_Cons: "ws \<noteq> [] \<Longrightarrow> join sep (w # ws) = w @ sep # join sep ws"
  by (cases ws) auto

lemma join_Split: "join sep (Split s sep) = s"
proof (induction s)
  case (Cons c s)
  show ?case
  proof (cases "c = sep")
    case True
    with Cons show ?thesis by (simp add: join_Cons)
  next
    case False
    obtain w ws where s: "Split s sep = w # ws" using Split_nonempty [of s sep] by (cases "Split s sep") auto
    have "join sep ((c # w) # ws) = c # join sep (w # ws)" by (cases ws) auto
    with Cons False s show ?thesis by simp
  qed
qed simp

lemma parse_addrs_Inr:
  "parse_addrs f addrs acc = Inr ps \<longleftrightarrow> (\<exists>qs. ps = acc @ qs \<and> list_all2 (\<lambda>a p. f a = Inr p) addrs qs)"
proof (induction addrs arbitrary: acc)
  case (Cons a addrs)
  then show ?case by (auto simp: list_all2_Cons1 split: sum.splits)
qed auto

text \<open>A manager that has started keeps its host, so that nothing panics after it.\<close>

lemma Start_host:
  "Start L p = Returned (None, p') \<Longrightarrow> lm_host p' = Some [] \<and> lm_localPartyId p' = lm_localPartyId p \<and>
     lm_localHandlerMap p' = lm_localHandlerMap p"
  by (auto simp: Start_def Let_def split: option.splits outcome.splits prod.splits)

lemma Manager_Start_host:
  "lm_host p = Some [] \<Longrightarrow> \<exists>p'. Manager_Start p = Returned p' \<and>
     lm_host p' = Some [(''/tss/keyGen'', HandleKeyGen), (''/tss/keySign'', HandleKeySign)]"
  by (simp add: Manager_Start_def SetStreamHandler_def Let_def)

lemma Manager_Stop_host:
  "lm_host p = Some [(''/tss/keyGen'', HandleKeyGen), (''/tss/keySign'', HandleKeySign)] \<Longrightarrow>
     \<exists>p'. Manager_Stop p = Returned p' \<and> lm_host p' = Some []"
  by (simp add: Manager_Stop_def RemoveStreamHandler_def Let_def)

abbreviation node_handlers :: "(string \<times> node_handler) list" where
  "node_handlers \<equiv> [(''/tss/keyGen'', HandleKeyGen), (''/tss/keySign'', HandleKeySign)]"

lemma main_serve_trace:
  "lm_host p = Some [] \<Longrightarrow> main_serve E p = (Returned (),
     [ManagerStarted, Serving (Some node_handlers), ServeStopped (me_serve E), ManagerStopped (Some [])])"
  using Manager_Start_host [of p] Manager_Stop_host by (fastforce simp: main_serve_def)

lemma main_p2p_trace:
  fixes E :: "('db, 'ai, 'ma, 'sk, 'pid, 'st) main_env"
  assumes "main_p2p E peers la key addr = (res, tr)"
  shows "(\<exists>l err. tr = [Logged l err]) \<or> tr = [] \<or>
    (\<exists>tl. tr = [P2PStarted, ManagerStarted, Serving (Some node_handlers), ServeStopped (me_serve E),
       ManagerStopped (Some []), P2PStopped (host_Close (me_LibP2P E))] @ tl \<and> (tl = [] \<or> (\<exists>l e. tl = [Logged l e])))"
proof (cases "NewLibP2PManager (me_LibP2P E) peers la key addr :: error + ('ai, 'ma, 'sk, node_handler) LibP2PManager")
  case (Inl err)
  with assms show ?thesis by (auto simp: main_p2p_def)
next
  case (Inr p)
  show ?thesis
  proof (cases "\<exists>p'. Start (me_LibP2P E) p = Returned (None, p')")
    case True
    then obtain p' where p': "Start (me_LibP2P E) p = Returned (None, p')" by blast
    with Start_host have h: "lm_host p' = Some []" by blast
    with Inr p' assms main_serve_trace [OF h, of E] show ?thesis
      by (auto simp: main_p2p_def Stop_def Let_def split: option.splits)
  next
    case False
    with Inr assms show ?thesis
      by (auto simp: main_p2p_def split: outcome.splits prod.splits option.splits)
  qed
qed

lemma main_args_trace:
  assumes "main_args_parsed A E = (res, tr)"
  shows "(\<exists>l err. tr = [Logged l err]) \<or> tr = [] \<or>
    (\<exists>tl. tr = [P2PStarted, ManagerStarted, Serving (Some node_handlers), ServeStopped (me_serve E),
       ManagerStopped (Some []), P2PStopped (host_Close (me_LibP2P E))] @ tl \<and> (tl = [] \<or> (\<exists>l e. tl = [Logged l e])))"
  using assms unfolding main_args_parsed_def Let_def
  by (auto split: sum.splits outcome.splits prod.splits dest: main_p2p_trace)

section \<open>Properties\<close>

text \<open>The component a part of the trace starts or stops.\<close>

datatype part = StoragePart | CommunicatorPart | ManagerPart

fun part_started :: "main_eff \<Rightarrow> part list" where
  "part_started StorageStarted = [StoragePart]"
| "part_started P2PStarted = [CommunicatorPart]"
| "part_started ManagerStarted = [ManagerPart]"
| "part_started e = []"

fun part_stopped :: "main_eff \<Rightarrow> part list" where
  "part_stopped StorageStopped = [StoragePart]"
| "part_stopped (P2PStopped err) = [CommunicatorPart]"
| "part_stopped (ManagerStopped hs) = [ManagerPart]"
| "part_stopped e = []"


text \<open>
  The bootstrap peers. The argument is cut at every comma; the parse succeeds exactly when
  every part is an address, and gives their peers in order. There is always a part, so the list is
  never empty: an empty argument, the default, is an invalid address, and the later check for too
  few peers cannot fail.
\<close>

theorem bootstrap_peers_parsed:
  "(parseP2PBootstrapPeers f s = Inr ps \<longleftrightarrow> list_all2 (\<lambda>a p. f a = Inr p) (Split s (CHR '','')) ps) \<and>
   join (CHR '','') (Split s (CHR '','')) = s \<and> parseP2PBootstrapPeers f s \<noteq> Inr [] \<and>
   Split [] (CHR '','') = [[]]"
  unfolding parseP2PBootstrapPeers_def parse_addrs_Inr by (auto simp: join_Split)

lemma bootstrap_parse_nonempty: "parseP2PBootstrapPeers f s = Inr ps \<Longrightarrow> ps \<noteq> []"
  unfolding parseP2PBootstrapPeers_def parse_addrs_Inr by auto

text \<open>
  A node serves also when it reaches nobody. When the arguments can be parsed and the host can
  be made, the node serves key generation and signing with both handlers registered, whatever
  dialling the bootstrap peers returns: a start at which every peer fails looks like a success.
\<close>

theorem node_serves_without_peers:
  fixes E :: "('db, 'ai, 'ma, 'sk, 'pid, 'st) main_env"
  assumes "me_NewDB E (argStoragePath A) = Inr db"
    and "parseP2PBootstrapPeers (me_AddrInfo E) (if me_getenv_p2p E \<noteq> [] then me_getenv_p2p E else argP2PBootstrapPeers A) = Inr peers"
    and "me_NewMultiaddr E (argP2PListenAddr A) = Inr la"
    and "ParseP2PPrivateKeyFile (me_KeyLib E) (argP2PPrivateKeyFile A) = Returned (Inr (key, address))"
    and "IDFromPrivateKey (me_LibP2P E) key = Inr self" and "PublicKeyRaw (me_LibP2P E) key = Inr pk"
    and "NewConnManager (me_LibP2P E) 100 400 = None" and "libp2p_New (me_LibP2P E) la key = None"
  shows "Serving (Some [(''/tss/keyGen'', HandleKeyGen), (''/tss/keySign'', HandleKeySign)]) \<in> set (snd (main A E)) \<and>
    fst (main A E) = Returned ()"
proof -
  let ?p = "\<lparr>lm_bootstrapPeers = peers, lm_listenAddr = la, lm_privateKey = key,
      lm_localPartyId = \<lparr>pid_Id = self, pid_Moniker = address, pid_Key = pk\<rparr>,
      lm_localHandlerMap = ([] :: (string \<times> node_handler) list), lm_host = None\<rparr>"
  have "peers \<noteq> []" using bootstrap_parse_nonempty [OF assms(2)] .
  then have new: "NewLibP2PManager (me_LibP2P E) peers la key address = Inr ?p"
    using assms(5,6) by (simp add: NewLibP2PManager_def Suc_le_eq)
  have "\<exists>p'. Start (me_LibP2P E) ?p = Returned (None, p') \<and> lm_host p' = Some []"
    using assms(7,8) \<open>peers \<noteq> []\<close> by (simp add: Start_def bootstrapConnect_nil Let_def)
  then obtain p' where p': "Start (me_LibP2P E) ?p = Returned (None, p')" "lm_host p' = Some []" by blast
  from main_serve_trace [OF p'(2), of E] new p' assms(1-4) show ?thesis
    by (simp add: main_def LevelDB_Start_def LevelDB_Stop_def NewLevelDBStorage_def main_args_parsed_def
        main_p2p_def Stop_def split: option.splits)
qed

text \<open>A host that cannot dial anybody.\<close>

definition DemoHost :: "(string, string, bytes, string, unit) LibP2P" where
  "DemoHost = \<lparr>IDFromPrivateKey = (\<lambda>k. Inr (string_of k)), PublicKeyRaw = (\<lambda>k. Inr k),
     NewConnManager = (\<lambda>_ _. None), libp2p_New = (\<lambda>_ _. None),
     host_Connect = (\<lambda>_. Some (Errorf ''unreachable'')), peer_Decode = Inr, host_NewStream = (\<lambda>_ _. Inr ()),
     host_Close = None\<rparr>"

definition DemoMain :: "(unit, string, string, bytes, string, unit) main_env" where
  "DemoMain = \<lparr>me_getenv_p2p = [], me_NewDB = (\<lambda>_. Inr ()),
     me_AddrInfo = (\<lambda>a. if a = [] then Inl (Errorf ''invalid p2p multiaddr'') else Inr a),
     me_NewMultiaddr = Inr, me_KeyLib = DemoKeyLib [1, 2, 3, 4, 65, 66], me_LibP2P = DemoHost,
     me_serve = Signalled\<rparr>"

definition DemoArgs :: "string \<Rightarrow> main_args" where
  "DemoArgs peers = \<lparr>argStoragePath = ''db'', argP2PBootstrapPeers = peers, argP2PListenAddr = ''addr'',
     argP2PPrivateKeyFile = ''f'', argThemisRestUrl = [], argGrpcPort = 9001, argDev = False\<rparr>"

lemma string_AB: "string_of [65, 66] = ''AB''"
  by code_simp

theorem node_serves_without_peers_witness:
  "Serving (Some node_handlers) \<in> set (snd (main (DemoArgs ''A,B'') DemoMain)) \<and>
   bootstrapConnect DemoHost \<lparr>lm_bootstrapPeers = [''A'', ''B''], lm_listenAddr = ''addr'', lm_privateKey = [65, 66],
       lm_localPartyId = \<lparr>pid_Id = [], pid_Moniker = [], pid_Key = []\<rparr>,
       lm_localHandlerMap = ([] :: (string \<times> node_handler) list), lm_host = Some []\<rparr> =
     Returned (None, [Errorf ''unreachable'', Errorf ''unreachable''])"
proof -
  have "parseP2PBootstrapPeers (me_AddrInfo DemoMain) (if me_getenv_p2p DemoMain \<noteq> [] then me_getenv_p2p DemoMain
      else argP2PBootstrapPeers (DemoArgs ''A,B'')) = Inr [''A'', ''B'']"
    by (simp add: DemoMain_def DemoArgs_def parseP2PBootstrapPeers_def)
  moreover have "ParseP2PPrivateKeyFile (me_KeyLib DemoMain) (argP2PPrivateKeyFile (DemoArgs ''A,B'')) =
      Returned (Inr ([65, 66], ''AB''))"
    by (simp add: DemoMain_def ParseP2PPrivateKeyFile_def loadFilePV_def DemoKeyLib_def DecodeString_encode
        Let_def string_AB del: b64_encode.simps)
  ultimately have "Serving (Some node_handlers) \<in> set (snd (main (DemoArgs ''A,B'') DemoMain))"
    using node_serves_without_peers [of DemoMain "DemoArgs ''A,B''" "()" "[''A'', ''B'']" "''addr''" "[65, 66]" "''AB''"
        "''AB''" "[65, 66]"]
    by (simp add: DemoMain_def DemoArgs_def DemoHost_def string_AB)
  then show ?thesis by (simp add: bootstrapConnect_def DemoHost_def map_filter_def)
qed

end
