(* ===== verification/Service.thy ===== *)
theory Service
  imports KeyGenProps
begin

text \<open>
  \<open>tss/tss_grpc.pb.go\<close>: the gRPC service \<open>tss.TssService\<close> with its client and server sides, and the
  manager as its server. gRPC itself (the connection, the decoding of a request, interceptors) is a
  parameter. \<open>'s\<close> is the state of the node; a method may return, panic or wait.
\<close>

section \<open>The server\<close>

type_synonym ('q, 'r, 's) rpc = "'q \<Rightarrow> 's \<Rightarrow> (error + 'r) outcome \<times> 's"

record 's TssServiceServer =
  srv_GetLocalPartyId :: "(GetLocalPartyIdRequest, GetLocalPartyIdResponse, 's) rpc"
  srv_GetKey :: "(GetKeyRequest, GetKeyResponse, 's) rpc"
  srv_KeyGen :: "(KeyGenRequest, KeyGenResponse, 's) rpc"
  srv_KeySign :: "(KeySignRequest, KeySignResponse, 's) rpc"
  srv_KeyDelete :: "(KeyDeleteRequest, KeyDeleteResponse, 's) rpc"
  srv_VerifySignature :: "(VerifySignatureRequest, VerifySignatureResponse, 's) rpc"

definition unimplemented :: "string \<Rightarrow> ('q, 'r, 's) rpc" where
  "unimplemented format request s = (Returned (Inl (Status Unimplemented format)), s)"

definition UnimplementedTssServiceServer :: "'s TssServiceServer" where
  "UnimplementedTssServiceServer =
     \<lparr>srv_GetLocalPartyId = unimplemented ''method GetLocalPartyId not implemented'',
      srv_GetKey = unimplemented ''method GetKey not implemented'',
      srv_KeyGen = unimplemented ''method KeyGen not implemented'',
      srv_KeySign = unimplemented ''method KeySign not implemented'',
      srv_KeyDelete = unimplemented ''method KeyDelete not implemented'',
      srv_VerifySignature = unimplemented ''method VerifySignature not implemented''\<rparr>"

section \<open>The handlers\<close>

text \<open>Requests and responses as values of \<open>interface{}\<close>.\<close>

datatype any_request =
    Any_GetLocalPartyIdRequest GetLocalPartyIdRequest
  | Any_GetKeyRequest GetKeyRequest
  | Any_KeyGenRequest KeyGenRequest
  | Any_KeySignRequest KeySignRequest
  | Any_KeyDeleteRequest KeyDeleteRequest
  | Any_VerifySignatureRequest VerifySignatureRequest

datatype any_response =
    Any_GetLocalPartyIdResponse GetLocalPartyIdResponse
  | Any_GetKeyResponse GetKeyResponse
  | Any_KeyGenResponse KeyGenResponse
  | Any_KeySignResponse KeySignResponse
  | Any_KeyDeleteResponse KeyDeleteResponse
  | Any_VerifySignatureResponse VerifySignatureResponse

text \<open>
  An interceptor gets the full name of the method, the request and the handler to go on with. The
  decoder holds the bytes of a request and decodes them into the type a handler asks for.
\<close>

type_synonym 's interceptor =
  "string \<Rightarrow> any_request \<Rightarrow> (any_request, any_response, 's) rpc \<Rightarrow> 's \<Rightarrow> (error + any_response) outcome \<times> 's"

record decoder =
  dec_GetLocalPartyId :: "error + GetLocalPartyIdRequest"
  dec_GetKey :: "error + GetKeyRequest"
  dec_KeyGen :: "error + KeyGenRequest"
  dec_KeySign :: "error + KeySignRequest"
  dec_KeyDelete :: "error + KeyDeleteRequest"
  dec_VerifySignature :: "error + VerifySignatureRequest"

type_synonym 's handler =
  "'s TssServiceServer \<Rightarrow> decoder \<Rightarrow> 's interceptor option \<Rightarrow> 's \<Rightarrow> (error + any_response) outcome \<times> 's"

text \<open>A method whose response is returned as an \<open>interface{}\<close>.\<close>

definition boxed :: "('r \<Rightarrow> any_response) \<Rightarrow> ('q, 'r, 's) rpc \<Rightarrow> ('q, any_response, 's) rpc" where
  "boxed any method request s = (case method request s of
     (Returned (Inl err), s) \<Rightarrow> (Returned (Inl err), s)
   | (Returned (Inr response), s) \<Rightarrow> (Returned (Inr (any response)), s)
   | (Panicked msg, s) \<Rightarrow> (Panicked msg, s)
   | (Waiting, s) \<Rightarrow> (Waiting, s))"

text \<open>A failed type assertion.\<close>

definition bad_assertion :: "'s \<Rightarrow> (error + any_response) outcome \<times> 's" where
  "bad_assertion s = (Panicked ''interface conversion'', s)"

definition TssService_GetLocalPartyId_Handler :: "'s handler" where
  "TssService_GetLocalPartyId_Handler srv dec interceptor s =
     (case dec_GetLocalPartyId dec of
        Inl err \<Rightarrow> (Returned (Inl err), s)
      | Inr req \<Rightarrow>
        (case interceptor of
           None \<Rightarrow> boxed Any_GetLocalPartyIdResponse (srv_GetLocalPartyId srv) req s
         | Some interceptor \<Rightarrow>
             interceptor ''/tss.TssService/GetLocalPartyId'' (Any_GetLocalPartyIdRequest req)
               (\<lambda>req s. case req of
                  Any_GetLocalPartyIdRequest req \<Rightarrow> boxed Any_GetLocalPartyIdResponse (srv_GetLocalPartyId srv) req s
                | _ \<Rightarrow> bad_assertion s) s))"

definition TssService_GetKey_Handler :: "'s handler" where
  "TssService_GetKey_Handler srv dec interceptor s =
     (case dec_GetKey dec of
        Inl err \<Rightarrow> (Returned (Inl err), s)
      | Inr req \<Rightarrow>
        (case interceptor of
           None \<Rightarrow> boxed Any_GetKeyResponse (srv_GetKey srv) req s
         | Some interceptor \<Rightarrow>
             interceptor ''/tss.TssService/GetKey'' (Any_GetKeyRequest req)
               (\<lambda>req s. case req of
                  Any_GetKeyRequest req \<Rightarrow> boxed Any_GetKeyResponse (srv_GetKey srv) req s
                | _ \<Rightarrow> bad_assertion s) s))"

definition TssService_KeyGen_Handler :: "'s handler" where
  "TssService_KeyGen_Handler srv dec interceptor s =
     (case dec_KeyGen dec of
        Inl err \<Rightarrow> (Returned (Inl err), s)
      | Inr req \<Rightarrow>
        (case interceptor of
           None \<Rightarrow> boxed Any_KeyGenResponse (srv_KeyGen srv) req s
         | Some interceptor \<Rightarrow>
             interceptor ''/tss.TssService/KeyGen'' (Any_KeyGenRequest req)
               (\<lambda>req s. case req of
                  Any_KeyGenRequest req \<Rightarrow> boxed Any_KeyGenResponse (srv_KeyGen srv) req s
                | _ \<Rightarrow> bad_assertion s) s))"

definition TssService_KeySign_Handler :: "'s handler" where
  "TssService_KeySign_Handler srv dec interceptor s =
     (case dec_KeySign dec of
        Inl err \<Rightarrow> (Returned (Inl err), s)
      | Inr req \<Rightarrow>
        (case interceptor of
           None \<Rightarrow> boxed Any_KeySignResponse (srv_KeySign srv) req s
         | Some interceptor \<Rightarrow>
             interceptor ''/tss.TssService/KeySign'' (Any_KeySignRequest req)
               (\<lambda>req s. case req of
                  Any_KeySignRequest req \<Rightarrow> boxed Any_KeySignResponse (srv_KeySign srv) req s
                | _ \<Rightarrow> bad_assertion s) s))"

definition TssService_KeyDelete_Handler :: "'s handler" where
  "TssService_KeyDelete_Handler srv dec interceptor s =
     (case dec_KeyDelete dec of
        Inl err \<Rightarrow> (Returned (Inl err), s)
      | Inr req \<Rightarrow>
        (case interceptor of
           None \<Rightarrow> boxed Any_KeyDeleteResponse (srv_KeyDelete srv) req s
         | Some interceptor \<Rightarrow>
             interceptor ''/tss.TssService/KeyDelete'' (Any_KeyDeleteRequest req)
               (\<lambda>req s. case req of
                  Any_KeyDeleteRequest req \<Rightarrow> boxed Any_KeyDeleteResponse (srv_KeyDelete srv) req s
                | _ \<Rightarrow> bad_assertion s) s))"

definition TssService_VerifySignature_Handler :: "'s handler" where
  "TssService_VerifySignature_Handler srv dec interceptor s =
     (case dec_VerifySignature dec of
        Inl err \<Rightarrow> (Returned (Inl err), s)
      | Inr req \<Rightarrow>
        (case interceptor of
           None \<Rightarrow> boxed Any_VerifySignatureResponse (srv_VerifySignature srv) req s
         | Some interceptor \<Rightarrow>
             interceptor ''/tss.TssService/VerifySignature'' (Any_VerifySignatureRequest req)
               (\<lambda>req s. case req of
                  Any_VerifySignatureRequest req \<Rightarrow> boxed Any_VerifySignatureResponse (srv_VerifySignature srv) req s
                | _ \<Rightarrow> bad_assertion s) s))"

section \<open>The description of the service\<close>

record 's ServiceDesc =
  svd_ServiceName :: string
  svd_Methods :: "(string \<times> 's handler) list"

definition TssService_ServiceDesc :: "'s ServiceDesc" where
  "TssService_ServiceDesc =
     \<lparr>svd_ServiceName = ''tss.TssService'',
      svd_Methods =
        [(''GetLocalPartyId'', TssService_GetLocalPartyId_Handler),
         (''GetKey'', TssService_GetKey_Handler),
         (''KeyGen'', TssService_KeyGen_Handler),
         (''KeySign'', TssService_KeySign_Handler),
         (''KeyDelete'', TssService_KeyDelete_Handler),
         (''VerifySignature'', TssService_VerifySignature_Handler)]\<rparr>"

definition RegisterTssServiceServer ::
    "('s ServiceDesc \<Rightarrow> 's TssServiceServer \<Rightarrow> 'reg) \<Rightarrow> 's TssServiceServer \<Rightarrow> 'reg" where
  "RegisterTssServiceServer RegisterService srv = RegisterService TssService_ServiceDesc srv"

section \<open>The client\<close>

text \<open>\<open>ClientConnInterface.Invoke\<close> at the types of each method.\<close>

record 's ClientConn =
  Invoke_GetLocalPartyId :: "string \<Rightarrow> (GetLocalPartyIdRequest, GetLocalPartyIdResponse, 's) rpc"
  Invoke_GetKey :: "string \<Rightarrow> (GetKeyRequest, GetKeyResponse, 's) rpc"
  Invoke_KeyGen :: "string \<Rightarrow> (KeyGenRequest, KeyGenResponse, 's) rpc"
  Invoke_KeySign :: "string \<Rightarrow> (KeySignRequest, KeySignResponse, 's) rpc"
  Invoke_KeyDelete :: "string \<Rightarrow> (KeyDeleteRequest, KeyDeleteResponse, 's) rpc"
  Invoke_VerifySignature :: "string \<Rightarrow> (VerifySignatureRequest, VerifySignatureResponse, 's) rpc"

record 's tssServiceClient =
  tsc_cc :: "'s ClientConn"

definition NewTssServiceClient :: "'s ClientConn \<Rightarrow> 's tssServiceClient" where
  "NewTssServiceClient cc = \<lparr>tsc_cc = cc\<rparr>"

text \<open>The response is handed out only when the call has no error.\<close>

definition checked :: "(error + 'r) outcome \<times> 's \<Rightarrow> (error + 'r) outcome \<times> 's" where
  "checked res = (case res of
     (Returned (Inl err), s) \<Rightarrow> (Returned (Inl err), s)
   | (Returned (Inr out), s) \<Rightarrow> (Returned (Inr out), s)
   | (Panicked msg, s) \<Rightarrow> (Panicked msg, s)
   | (Waiting, s) \<Rightarrow> (Waiting, s))"

definition client_GetLocalPartyId :: "'s tssServiceClient \<Rightarrow> (GetLocalPartyIdRequest, GetLocalPartyIdResponse, 's) rpc" where
  "client_GetLocalPartyId c req s = checked (Invoke_GetLocalPartyId (tsc_cc c) ''/tss.TssService/GetLocalPartyId'' req s)"

definition client_GetKey :: "'s tssServiceClient \<Rightarrow> (GetKeyRequest, GetKeyResponse, 's) rpc" where
  "client_GetKey c req s = checked (Invoke_GetKey (tsc_cc c) ''/tss.TssService/GetKey'' req s)"

definition client_KeyGen :: "'s tssServiceClient \<Rightarrow> (KeyGenRequest, KeyGenResponse, 's) rpc" where
  "client_KeyGen c req s = checked (Invoke_KeyGen (tsc_cc c) ''/tss.TssService/KeyGen'' req s)"

definition client_KeySign :: "'s tssServiceClient \<Rightarrow> (KeySignRequest, KeySignResponse, 's) rpc" where
  "client_KeySign c req s = checked (Invoke_KeySign (tsc_cc c) ''/tss.TssService/KeySign'' req s)"

definition client_KeyDelete :: "'s tssServiceClient \<Rightarrow> (KeyDeleteRequest, KeyDeleteResponse, 's) rpc" where
  "client_KeyDelete c req s = checked (Invoke_KeyDelete (tsc_cc c) ''/tss.TssService/KeyDelete'' req s)"

definition client_VerifySignature :: "'s tssServiceClient \<Rightarrow> (VerifySignatureRequest, VerifySignatureResponse, 's) rpc" where
  "client_VerifySignature c req s = checked (Invoke_VerifySignature (tsc_cc c) ''/tss.TssService/VerifySignature'' req s)"

section \<open>The manager as the server\<close>

text \<open>
  \<open>Manager\<close> embeds \<open>UnimplementedTssServiceServer\<close> and has five of the six methods. \<open>keyGen\<close> and
  \<open>keySign\<close> are the runs of \<open>KeyGen\<close> and \<open>KeySign\<close> that the scheduler and the network lead to.
\<close>

definition ManagerServer ::
    "Curve \<Rightarrow> ('pre, 'sd, 'pm, 'pk) TssLib \<Rightarrow> ('pk \<Rightarrow> EcdsaPub) \<Rightarrow> (KeyGenRequest, KeyGenResponse, 's) rpc \<Rightarrow>
     (KeySignRequest, KeySignResponse, 's) rpc \<Rightarrow> 's Manager \<Rightarrow> 's TssServiceServer" where
  "ManagerServer c T toECDSA keyGen keySign m = UnimplementedTssServiceServer
     \<lparr>srv_GetLocalPartyId := (\<lambda>req s. (Returned (GetLocalPartyId m req), s)),
      srv_GetKey := (\<lambda>req s. (Returned (GetKey m s req), s)),
      srv_KeyGen := keyGen, srv_KeySign := keySign,
      srv_VerifySignature := (\<lambda>req s. (Returned (VerifySignature c T toECDSA req), s))\<rparr>"

section \<open>A connection to a registered server\<close>

text \<open>
  A connection over which every call arrives as it was sent: gRPC finds the handler by the name of
  the service and the method, the codec gives back the request and the response. A method that is
  not registered is unimplemented.
\<close>

definition find_handler :: "'s ServiceDesc \<Rightarrow> string \<Rightarrow> 's handler option" where
  "find_handler desc fullMethod =
     map_of (map (\<lambda>(name, h). (''/'' @ svd_ServiceName desc @ ''/'' @ name, h)) (svd_Methods desc)) fullMethod"

definition no_request :: decoder where
  "no_request = (let err = Status Internal ''grpc: failed to unmarshal the received message'' in
     \<lparr>dec_GetLocalPartyId = Inl err, dec_GetKey = Inl err, dec_KeyGen = Inl err, dec_KeySign = Inl err, dec_KeyDelete = Inl err, dec_VerifySignature = Inl err\<rparr>)"

definition route ::
    "'s ServiceDesc \<Rightarrow> 's TssServiceServer \<Rightarrow> 's interceptor option \<Rightarrow> (any_response \<Rightarrow> 'r option) \<Rightarrow> string
     \<Rightarrow> decoder \<Rightarrow> 's \<Rightarrow> (error + 'r) outcome \<times> 's" where
  "route desc srv interceptor as_out method dec s = (case find_handler desc method of
     None \<Rightarrow> (Returned (Inl (Status Unimplemented ''unknown method'')), s)
   | Some h \<Rightarrow> (case h srv dec interceptor s of
        (Returned (Inl err), s) \<Rightarrow> (Returned (Inl err), s)
      | (Returned (Inr any), s) \<Rightarrow> (case as_out any of
           None \<Rightarrow> (Returned (Inl (Status Internal ''grpc: failed to unmarshal the received message'')), s)
         | Some out \<Rightarrow> (Returned (Inr out), s))
      | (Panicked msg, s) \<Rightarrow> (Panicked msg, s)
      | (Waiting, s) \<Rightarrow> (Waiting, s)))"

definition connect :: "'s interceptor option \<Rightarrow> 's ServiceDesc \<Rightarrow> 's TssServiceServer \<Rightarrow> 's ClientConn" where
  "connect interceptor desc srv =
     \<lparr>Invoke_GetLocalPartyId = (\<lambda>method req. route desc srv interceptor
        (\<lambda>any. case any of Any_GetLocalPartyIdResponse out \<Rightarrow> Some out | _ \<Rightarrow> None) method (no_request\<lparr>dec_GetLocalPartyId := Inr req\<rparr>)),
      Invoke_GetKey = (\<lambda>method req. route desc srv interceptor
        (\<lambda>any. case any of Any_GetKeyResponse out \<Rightarrow> Some out | _ \<Rightarrow> None) method (no_request\<lparr>dec_GetKey := Inr req\<rparr>)),
      Invoke_KeyGen = (\<lambda>method req. route desc srv interceptor
        (\<lambda>any. case any of Any_KeyGenResponse out \<Rightarrow> Some out | _ \<Rightarrow> None) method (no_request\<lparr>dec_KeyGen := Inr req\<rparr>)),
      Invoke_KeySign = (\<lambda>method req. route desc srv interceptor
        (\<lambda>any. case any of Any_KeySignResponse out \<Rightarrow> Some out | _ \<Rightarrow> None) method (no_request\<lparr>dec_KeySign := Inr req\<rparr>)),
      Invoke_KeyDelete = (\<lambda>method req. route desc srv interceptor
        (\<lambda>any. case any of Any_KeyDeleteResponse out \<Rightarrow> Some out | _ \<Rightarrow> None) method (no_request\<lparr>dec_KeyDelete := Inr req\<rparr>)),
      Invoke_VerifySignature = (\<lambda>method req. route desc srv interceptor
        (\<lambda>any. case any of Any_VerifySignatureResponse out \<Rightarrow> Some out | _ \<Rightarrow> None) method (no_request\<lparr>dec_VerifySignature := Inr req\<rparr>))\<rparr>"

text \<open>An interceptor that only goes on.\<close>

definition passes :: "'s interceptor option \<Rightarrow> bool" where
  "passes interceptor \<longleftrightarrow> (\<forall>ic. interceptor = Some ic \<longrightarrow> (\<forall>method req h s. ic method req h s = h req s))"

section \<open>Lemmas\<close>

lemma checked_id [simp]: "checked res = res"
  by (cases res) (auto simp: checked_def split: outcome.splits sum.splits)

lemma find_handler_simps [simp]:
  "find_handler TssService_ServiceDesc ''/tss.TssService/GetLocalPartyId'' = Some TssService_GetLocalPartyId_Handler"
  "find_handler TssService_ServiceDesc ''/tss.TssService/GetKey'' = Some TssService_GetKey_Handler"
  "find_handler TssService_ServiceDesc ''/tss.TssService/KeyGen'' = Some TssService_KeyGen_Handler"
  "find_handler TssService_ServiceDesc ''/tss.TssService/KeySign'' = Some TssService_KeySign_Handler"
  "find_handler TssService_ServiceDesc ''/tss.TssService/KeyDelete'' = Some TssService_KeyDelete_Handler"
  "find_handler TssService_ServiceDesc ''/tss.TssService/VerifySignature'' = Some TssService_VerifySignature_Handler"
  by (simp_all add: find_handler_def TssService_ServiceDesc_def)

text \<open>What a handler answers, as the client sees it: the method's own answer.\<close>

lemma handler_answers:
  "passes ic \<Longrightarrow> TssService_GetLocalPartyId_Handler srv (no_request\<lparr>dec_GetLocalPartyId := Inr req0\<rparr>) ic s =
     boxed Any_GetLocalPartyIdResponse (srv_GetLocalPartyId srv) req0 s"
  "passes ic \<Longrightarrow> TssService_GetKey_Handler srv (no_request\<lparr>dec_GetKey := Inr req1\<rparr>) ic s =
     boxed Any_GetKeyResponse (srv_GetKey srv) req1 s"
  "passes ic \<Longrightarrow> TssService_KeyGen_Handler srv (no_request\<lparr>dec_KeyGen := Inr req2\<rparr>) ic s =
     boxed Any_KeyGenResponse (srv_KeyGen srv) req2 s"
  "passes ic \<Longrightarrow> TssService_KeySign_Handler srv (no_request\<lparr>dec_KeySign := Inr req3\<rparr>) ic s =
     boxed Any_KeySignResponse (srv_KeySign srv) req3 s"
  "passes ic \<Longrightarrow> TssService_KeyDelete_Handler srv (no_request\<lparr>dec_KeyDelete := Inr req4\<rparr>) ic s =
     boxed Any_KeyDeleteResponse (srv_KeyDelete srv) req4 s"
  "passes ic \<Longrightarrow> TssService_VerifySignature_Handler srv (no_request\<lparr>dec_VerifySignature := Inr req5\<rparr>) ic s =
     boxed Any_VerifySignatureResponse (srv_VerifySignature srv) req5 s"
  by (auto simp: passes_def TssService_GetLocalPartyId_Handler_def TssService_GetKey_Handler_def
      TssService_KeyGen_Handler_def TssService_KeySign_Handler_def
      TssService_KeyDelete_Handler_def TssService_VerifySignature_Handler_def split: option.splits)

lemma unboxed:
  assumes "\<And>r. as_out (any r) = Some r"
  shows "(case boxed any method req s of
      (Returned (Inl err), s) \<Rightarrow> (Returned (Inl err), s)
    | (Returned (Inr a), s) \<Rightarrow> (case as_out a of None \<Rightarrow> (Returned (Inl e), s) | Some out \<Rightarrow> (Returned (Inr out), s))
    | (Panicked msg, s) \<Rightarrow> (Panicked msg, s)
    | (Waiting, s) \<Rightarrow> (Waiting, s)) = method req s"
  by (auto simp: boxed_def assms split: prod.splits outcome.splits sum.splits)

lemma client_server:
  assumes "passes ic" and cl: "cl = NewTssServiceClient (RegisterTssServiceServer (connect ic) srv)"
  shows "client_GetLocalPartyId cl = srv_GetLocalPartyId srv"
    and "client_GetKey cl = srv_GetKey srv"
    and "client_KeyGen cl = srv_KeyGen srv"
    and "client_KeySign cl = srv_KeySign srv"
    and "client_KeyDelete cl = srv_KeyDelete srv"
    and "client_VerifySignature cl = srv_VerifySignature srv"
  using handler_answers [OF assms(1)]
  by (auto simp: cl fun_eq_iff client_GetLocalPartyId_def client_GetKey_def client_KeyGen_def
      client_KeySign_def client_KeyDelete_def client_VerifySignature_def NewTssServiceClient_def
      RegisterTssServiceServer_def connect_def route_def unboxed)

section \<open>Properties\<close>


text \<open>The node of the witnesses asked for its id and for a deletion, past an interceptor.\<close>

definition demo_client :: "memdb tssServiceClient" where
  "demo_client = NewTssServiceClient (RegisterTssServiceServer (connect (Some (\<lambda>method req h. h req)))
     (ManagerServer \<lparr>cv_N = 7, cv_NBits = 3, cv_ScalarBaseMult = (\<lambda>_. (0, 0)), cv_ScalarMult = (\<lambda>_ _ _. (0, 0)),
       cv_Add = (\<lambda>_ _. (0, 0))\<rparr> DemoTss (\<lambda>_. \<lparr>ep_X = 7, ep_Y = 3\<rparr>) (unimplemented []) (unimplemented []) (DemoManager True)))"


end
