(* ===== verification/Sessions.thy ===== *)
theory Sessions
  imports KeyGenProps KeySignProps
begin

text \<open>
  The nodes of one session among themselves: what the local party of the library emits at one node
  travels over session streams and is handed to the local parties of the others. Key generation
  and signing have the same contract here, the locale \<open>session_node\<close>; what holds of a session
  all of whose messages come from its nodes is proved once in it.
\<close>

section \<open>The effects of a handler on its sessions\<close>

text \<open>
  A part of a run whose updates of the local party satisfy \<open>hand\<close> and whose messages to other
  parties satisfy \<open>sent\<close>.
\<close>

fun session_eff :: "('pm \<Rightarrow> bool) \<Rightarrow> (string \<Rightarrow> TssP2PMsg \<Rightarrow> bool) \<Rightarrow> 'pm eff \<Rightarrow> bool" where
  "session_eff hand sent (Updated pm) = hand pm"
| "session_eff hand sent (SentSession q m e) = sent q m"
| "session_eff hand sent _ = True"

definition extends ::
    "('pm \<Rightarrow> bool) \<Rightarrow> (string \<Rightarrow> TssP2PMsg \<Rightarrow> bool) \<Rightarrow> ('s, 'pm) world \<Rightarrow> ('s, 'pm) world \<Rightarrow> bool" where
  "extends hand sent w w' \<longleftrightarrow> (\<exists>t. w_trace w' = w_trace w @ t \<and> list_all (session_eff hand sent) t)"

lemma extends_refl [simp]: "extends hand sent w w"
  by (simp add: extends_def)

lemma extends_trans [trans]:
  "extends hand sent w1 w2 \<Longrightarrow> extends hand sent w2 w3 \<Longrightarrow> extends hand sent w1 w3"
  unfolding extends_def by (metis append.assoc list_all_append)

lemma extends_step: "session_eff hand sent f \<Longrightarrow> extends hand sent w (step f w)"
  by (simp add: extends_def)

lemma extends_same: "w_trace w' = w_trace w \<Longrightarrow> extends hand sent w w'"
  by (simp add: extends_def)

lemma extends_calls:
  "recv_main E w = (r1, w') \<Longrightarrow> extends hand sent w w'"
  "send_main E m w = (r2, w') \<Longrightarrow> extends hand sent w w'"
  "new_stream E q pr w = (r2, w') \<Longrightarrow> extends hand sent w w'"
  "send_session E q m w = (r2, w') \<Longrightarrow> sent q (p2p_msg m) \<Longrightarrow> extends hand sent w w'"
  "close_session E q w = (r2, w') \<Longrightarrow> extends hand sent w w'"
  "access ls E op w = (r2, w') \<Longrightarrow> extends hand sent w w'"
  by (auto simp: call_defs access_def extends_def split: prod.splits)

lemma extends_updates:
  "send_updates strict E pr m ps w = (r, w') \<Longrightarrow> (\<And>q. q \<in> set ps \<Longrightarrow> sent (pid_Id q) (p2p_msg m)) \<Longrightarrow>
     extends hand sent w w'"
proof (induction ps arbitrary: w strict)
  case (Cons q ps)
  obtain e1 w1 where 1: "new_stream E (pid_Id q) pr w = (e1, w1)" by fastforce
  obtain e2 w2 where 2: "send_session E (pid_Id q) m w1 = (e2, w2)" by fastforce
  obtain e3 w3 where 3: "close_session E (pid_Id q) w2 = (e3, w3)" by fastforce
  have x1: "extends hand sent w w1" by (rule extends_calls(3) [OF 1])
  from Cons.prems(2) have "sent (pid_Id q) (p2p_msg m)" by simp
  then have x2: "extends hand sent w w2" by (rule extends_trans [OF x1 extends_calls(4) [OF 2]])
  have x3: "extends hand sent w w3" by (rule extends_trans [OF x2 extends_calls(5) [OF 3]])
  have more: "extends hand sent w w'" if "send_updates strict E pr m ps w3 = (r, w')"
    using extends_trans [OF x3 Cons.IH [OF that]] Cons.prems(2) by simp
  from Cons.prems(1) 1 2 3 x1 x2 x3 more show ?case by (auto split: option.splits if_splits)
qed simp

section \<open>Key generation\<close>

lemma extends_mark_error: "mark_error m E prep w = (r, w') \<Longrightarrow> extends hand sent w w'"
  unfolding mark_error_def by (rule extends_calls(6))

lemma extends_keygen_end: "keygen_end m T E prep sd w = (r, w') \<Longrightarrow> extends hand sent w w'"
  by (auto simp: keygen_end_def split: sum.splits outcome.splits option.splits prod.splits
      dest: extends_calls(6))

lemma extends_keygen_loop:
  assumes "\<And>msg u p pm. ProcessMsg msg \<in> set evs \<Longrightarrow> tp_MsgType msg = Some (TssP2PMsg_ProcessUpdateMsg u) \<Longrightarrow>
      ids (pum_FromPartyId u) = Some p \<Longrightarrow>
      ParseWireMessage T (pum_MsgWireBytes u) p (pum_IsBroadcast u) = Inr pm \<Longrightarrow> hand pm"
    and "\<And>om bytes q. OutCh om \<in> set evs \<Longrightarrow> om_WireBytes om = Inr bytes \<Longrightarrow>
      q \<in> set (recipients (PartyID_GetId (Some (m_LocalPartyId m))) (kgp_AllPartyId prep) om) \<Longrightarrow>
      sent (pid_Id q) (p2p_msg (update_msg (PartyID_GetId (Some (m_LocalPartyId m))) bytes om))"
  shows "keygen_loop m T E prep pr ids evs w = (r, w') \<Longrightarrow> extends hand sent w w'"
  using assms
proof (induction evs arbitrary: w)
  case (Cons ev evs)
  have ih: "extends hand sent w2 w'" if "keygen_loop m T E prep pr ids evs w2 = (r, w')" for w2
    by (rule Cons.IH [OF that]) (use Cons.prems(2,3) in \<open>auto\<close>)
  show ?case
  proof (cases ev)
    case (ProcessMsg msg)
    show ?thesis
    proof (cases "\<exists>u p pm. tp_MsgType msg = Some (TssP2PMsg_ProcessUpdateMsg u) \<and>
        ids (pum_FromPartyId u) = Some p \<and>
        ParseWireMessage T (pum_MsgWireBytes u) p (pum_IsBroadcast u) = Inr pm")
      case True
      then obtain u p pm where u: "tp_MsgType msg = Some (TssP2PMsg_ProcessUpdateMsg u)"
        "ids (pum_FromPartyId u) = Some p"
        "ParseWireMessage T (pum_MsgWireBytes u) p (pum_IsBroadcast u) = Inr pm" by blast
      have "hand pm" by (rule Cons.prems(2) [OF _ u]) (simp add: ProcessMsg)
      then have "extends hand sent w (step (Updated pm) w)" by (simp add: extends_step)
      moreover have "keygen_loop m T E prep pr ids evs (step (Updated pm) w) = (r, w')"
        using Cons.prems(1) ProcessMsg u by (simp add: go_simps)
      ultimately show ?thesis using ih by (blast intro: extends_trans)
    next
      case False
      with ProcessMsg Cons.prems(1) show ?thesis
        by (auto simp: go_simps Let_def split: option.splits MsgType.splits sum.splits prod.splits
            dest: extends_mark_error)
    qed
  next
    case (OutCh om)
    let ?self = "PartyID_GetId (Some (m_LocalPartyId m))"
    show ?thesis
    proof (cases "om_WireBytes om")
      case (Inr bytes)
      obtain e w2 where sent: "send_updates True E pr (update_msg ?self bytes om)
        (recipients ?self (kgp_AllPartyId prep) om) w = (e, w2)" by fastforce
      have x: "extends hand sent w w2"
        by (rule extends_updates [OF sent]) (use Cons.prems(3) OutCh Inr in simp)
      with OutCh Cons.prems(1) Inr sent ih show ?thesis
        by (auto simp: Let_def split: option.splits intro: extends_trans)
    qed (use OutCh Cons.prems(1) in simp)
  next
    case (EndCh sd)
    with Cons.prems(1) show ?thesis by (auto dest: extends_keygen_end)
  qed (use Cons.prems(1) in simp_all)
qed simp

lemma extends_keygen_step1:
  assumes "keygen_step1 m E prep w = (r, w')"
  shows "extends hand sent w w'"
proof -
  let ?op = "OpKeyGen (kgp_KeyId prep) (kgp_SessionId prep) (kgp_Threshold prep) (kgp_AllPartyId prep)
    (Some (e_now E (w_tick w)))"
  obtain e1 w1 where 1: "access (m_localStorage m) E ?op w = (e1, w1)" by fastforce
  obtain e2 w2 where 2: "send_main E (TssP2PMsg_KeyGenReadyMsg KeyGenReadyMsg) w1 = (e2, w2)" by fastforce
  obtain e3 w3 where 3: "recv_main E w2 = (e3, w3)" by fastforce
  have x: "extends hand sent w w1" "extends hand sent w w2" "extends hand sent w w3"
    using extends_calls(6) [OF 1] extends_calls(2) [OF 2] extends_calls(1) [OF 3]
    by (blast intro: extends_trans)+
  from assms 1 2 3 have "w' \<in> {w1, w2, w3}"
    by (auto simp: keygen_step1_def Let_def split: option.splits sum.splits if_splits)
  with x show ?thesis by auto
qed

lemma extends_keygen_step2:
  "keygen_step2 m T prep w = (r, w') \<Longrightarrow> extends hand sent w w' \<and>
     (\<forall>ids. r = Returned (Inr ids) \<longrightarrow> ids = id_map (sorted_parties T (kgp_AllPartyId prep)))"
  by (auto simp: keygen_step2_def Let_def extends_step split: option.splits prod.splits)

lemma extends_notify:
  "(\<And>q err. sent q (p2p_msg (TssP2PMsg_ProcessErrorMsg err))) \<Longrightarrow>
     extends hand sent w (notify_parties E self pr e ps w)"
proof (induction ps arbitrary: w)
  case (Cons p ps)
  obtain e1 w1 where 1: "new_stream E (pid_Id p) pr w = (e1, w1)" by fastforce
  obtain e2 w2 where 2: "send_session E (pid_Id p)
    (TssP2PMsg_ProcessErrorMsg \<lparr>pem_ErrorMsg = err_text e\<rparr>) w1 = (e2, w2)" by fastforce
  obtain e3 w3 where 3: "close_session E (pid_Id p) w2 = (e3, w3)" by fastforce
  have x: "extends hand sent w w1" "extends hand sent w w2" "extends hand sent w w3"
    using extends_calls(3) [OF 1] extends_calls(4) [OF 2, where sent = sent, OF Cons.prems]
      extends_calls(5) [OF 3]
    by (blast intro: extends_trans)+
  let ?next = "if PartyID_GetId (Some p) \<noteq> self then
      (case new_stream E (pid_Id p) pr w of (Some err, w) \<Rightarrow> w
       | (None, w) \<Rightarrow> (case send_session E (pid_Id p)
             (TssP2PMsg_ProcessErrorMsg \<lparr>pem_ErrorMsg = err_text e\<rparr>) w of
           (Some err, w) \<Rightarrow> w | (None, w) \<Rightarrow> snd (close_session E (pid_Id p) w))) else w"
  have "?next \<in> {w, w1, w2, w3}" using 1 2 3 by (auto split: option.splits)
  with x have "extends hand sent w ?next" by auto
  with Cons.IH [OF Cons.prems] show ?case by (auto intro: extends_trans)
qed simp

text \<open>
  What a session with these events, this table of parties and these members may hand to the local
  party, and what it may send to others.
\<close>

definition hands_on ::
    "('pre, 'sd, 'pm, 'pk) TssLib \<Rightarrow> (string \<Rightarrow> TssPartyID option) \<Rightarrow> 'end lib_event list \<Rightarrow> 'pm \<Rightarrow> bool" where
  "hands_on T ids evs pm \<longleftrightarrow> (\<exists>msg u p. ProcessMsg msg \<in> set evs \<and>
     tp_MsgType msg = Some (TssP2PMsg_ProcessUpdateMsg u) \<and> ids (pum_FromPartyId u) = Some p \<and>
     ParseWireMessage T (pum_MsgWireBytes u) p (pum_IsBroadcast u) = Inr pm)"

definition sends_out ::
    "string \<Rightarrow> PartyID list \<Rightarrow> 'end lib_event list \<Rightarrow> string \<Rightarrow> TssP2PMsg \<Rightarrow> bool" where
  "sends_out self parties evs q m \<longleftrightarrow>
     (\<exists>om bytes. OutCh om \<in> set evs \<and> om_WireBytes om = Inr bytes \<and>
        q \<in> pid_Id ` set (recipients self parties om) \<and> m = p2p_msg (update_msg self bytes om)) \<or>
     (\<exists>err. m = p2p_msg (TssP2PMsg_ProcessErrorMsg err))"

abbreviation self_id :: "'s Manager \<Rightarrow> string" where
  "self_id m \<equiv> PartyID_GetId (Some (m_LocalPartyId m))"

abbreviation kg_table :: "('pre, 'sd, 'pm, 'pk) TssLib \<Rightarrow> KeyGenPrepareMsg \<Rightarrow> string \<Rightarrow> TssPartyID option" where
  "kg_table T prep \<equiv> id_map (sorted_parties T (kgp_AllPartyId prep))"

lemma extends_handleKeyGen0:
  assumes "handleKeyGen0 m T E prep pr evs w = (r, w')"
  shows "extends (hands_on T (kg_table T prep) evs) (sends_out (self_id m) (kgp_AllPartyId prep) evs) w w'"
    (is "extends ?hand ?sent w w'")
proof -
  obtain r1 w1 where 1: "keygen_step1 m E prep w = (r1, w1)" by fastforce
  obtain r2 w2 where 2: "keygen_step2 m T prep w1 = (r2, w2)" by fastforce
  note x1 = extends_keygen_step1 [OF 1, of ?hand ?sent]
  note x2 = extends_keygen_step2 [OF 2, of ?hand ?sent]
  have loop: "extends ?hand ?sent w2 w'" if "keygen_loop m T E prep pr (kg_table T prep) evs w2 = (r, w')"
    by (rule extends_keygen_loop [OF _ _ that]) (auto simp: hands_on_def sends_out_def)
  consider "w' = w1" | "w' = w2" | "keygen_loop m T E prep pr (kg_table T prep) evs w2 = (r, w')"
    using assms 1 2 x2 by (auto simp: handleKeyGen0_def split: outcome.splits sum.splits)
  then show ?thesis
    using x1 x2 loop by cases (blast intro: extends_trans)+
qed

lemma extends_handleKeyGen:
  assumes "keygen_prepare E w = (Some (Inr prep), w1)" and run: "handleKeyGen m T E evs w = (r, w')"
  shows "extends (hands_on T (kg_table T prep) evs) (sends_out (self_id m) (kgp_AllPartyId prep) evs) w w'"
    (is "extends ?hand ?sent w w'")
proof -
  have first: "extends ?hand ?sent w (set_handler pr h w1)" for pr h
    using assms(1) by (auto simp: keygen_prepare_def recv_main_def extends_same split: option.splits sum.splits)
  have err: "?sent q (p2p_msg (TssP2PMsg_ProcessErrorMsg e))" for q e
    by (auto simp: sends_out_def)
  have last: "extends ?hand ?sent w (remove_handler pr w2)" if "extends ?hand ?sent w w2" for pr w2
    using that by (rule extends_trans) (simp add: extends_same)
  have body: "extends ?hand ?sent w w2" "prep' = prep"
    if "handleKeyGen0 m T E prep' pr evs (set_handler pr h w1') = (r', w2)"
      and "keygen_prepare E w = (Some (Inr prep'), w1')" for prep' pr h w1' r' w2
  proof -
    have eq: "prep' = prep" "w1' = w1" using that(2) assms(1) by simp_all
    show "prep' = prep" by (rule eq(1))
    show "extends ?hand ?sent w w2"
      by (rule extends_trans [OF first extends_handleKeyGen0 [OF that(1) [unfolded eq]]])
  qed
  from run show ?thesis
  proof (cases rule: handleKeyGen_cases)
    case (pending prep' w1' w2)
    with body(1) [OF pending(2) pending(1)] show ?thesis by simp
  next
    case (crash prep' msg w1' w2)
    with last [OF body(1) [OF crash(2) crash(1)]] show ?thesis by simp
  next
    case (failed prep' e w1' w2 e3 w3 e5 w5)
    note body(1) [OF failed(2) failed(1)]
    also have "extends ?hand ?sent w2 w3" by (rule extends_mark_error [OF failed(3)])
    also have "extends ?hand ?sent w3 (notify_parties E (self_id m) (keygen_protocol (kgp_SessionId prep'))
        e (kgp_AllPartyId prep') w3)"
      by (rule extends_notify) (rule err)
    also have "extends ?hand ?sent \<dots> w5" by (rule extends_calls(2) [OF failed(4)])
    finally show ?thesis using failed(6) last by simp
  next
    case (finished prep' f w1' w2 e3 w3)
    note body(1) [OF finished(2) finished(1)]
    also have "extends ?hand ?sent w2 w3" by (rule extends_calls(2) [OF finished(3)])
    finally show ?thesis using finished(5) last by simp
  qed (use assms(1) in simp_all)
qed

section \<open>Signing\<close>

lemma extends_keysign_loop:
  assumes "\<And>msg u p pm. ProcessMsg msg \<in> set evs \<Longrightarrow> tp_MsgType msg = Some (TssP2PMsg_ProcessUpdateMsg u) \<Longrightarrow>
      ids (pum_FromPartyId u) = Some p \<Longrightarrow>
      ParseWireMessage T (pum_MsgWireBytes u) p (pum_IsBroadcast u) = Inr pm \<Longrightarrow> hand pm"
    and "\<And>om bytes q. OutCh om \<in> set evs \<Longrightarrow> om_WireBytes om = Inr bytes \<Longrightarrow>
      q \<in> set (recipients (self_id m) (kss_SignPartyId start) om) \<Longrightarrow>
      sent (pid_Id q) (p2p_msg (update_msg (self_id m) bytes om))"
  shows "keysign_loop m T E start pr ids evs w = (r, w') \<Longrightarrow> extends hand sent w w'"
  using assms
proof (induction evs arbitrary: w)
  case (Cons ev evs)
  have ih: "extends hand sent w2 w'" if "keysign_loop m T E start pr ids evs w2 = (r, w')" for w2
    by (rule Cons.IH [OF that]) (use Cons.prems(2,3) in \<open>auto\<close>)
  show ?case
  proof (cases ev)
    case (ProcessMsg msg)
    show ?thesis
    proof (cases "\<exists>u p pm. tp_MsgType msg = Some (TssP2PMsg_ProcessUpdateMsg u) \<and>
        ids (pum_FromPartyId u) = Some p \<and>
        ParseWireMessage T (pum_MsgWireBytes u) p (pum_IsBroadcast u) = Inr pm")
      case True
      then obtain u p pm where u: "tp_MsgType msg = Some (TssP2PMsg_ProcessUpdateMsg u)"
        "ids (pum_FromPartyId u) = Some p"
        "ParseWireMessage T (pum_MsgWireBytes u) p (pum_IsBroadcast u) = Inr pm" by blast
      have "hand pm" by (rule Cons.prems(2) [OF _ u]) (simp add: ProcessMsg)
      then have "extends hand sent w (step (Updated pm) w)" by (simp add: extends_step)
      moreover have "keysign_loop m T E start pr ids evs (step (Updated pm) w) = (r, w')"
        using Cons.prems(1) ProcessMsg u by (simp add: go_simps)
      ultimately show ?thesis using ih by (blast intro: extends_trans)
    next
      case False
      with ProcessMsg Cons.prems(1) show ?thesis
        by (auto simp: go_simps split: option.splits MsgType.splits sum.splits)
    qed
  next
    case (OutCh om)
    show ?thesis
    proof (cases "om_WireBytes om")
      case (Inr bytes)
      obtain e w2 where sent: "send_updates False E pr (update_msg (self_id m) bytes om)
        (recipients (self_id m) (kss_SignPartyId start) om) w = (e, w2)" by fastforce
      have x: "extends hand sent w w2"
        by (rule extends_updates [OF sent]) (use Cons.prems(3) OutCh Inr in simp)
      with OutCh Cons.prems(1) Inr sent ih show ?thesis
        by (auto simp: Let_def split: option.splits intro: extends_trans)
    qed (use OutCh Cons.prems(1) in simp)
  qed (use Cons.prems(1) in simp_all)
qed simp

lemma extends_keysign_step1:
  assumes "keysign_step1 m T E prep w = (r, w')"
  shows "extends hand sent w w'"
proof -
  obtain k w1 where 1: "read_key m E prep w = (k, w1)" by fastforce
  obtain e2 w2 where 2: "send_main E (TssP2PMsg_KeySignReadyMsg KeySignReadyMsg) w1 = (e2, w2)" by fastforce
  obtain e3 w3 where 3: "recv_main E w2 = (e3, w3)" by fastforce
  have "extends hand sent w w1" using 1 by (auto simp: read_key_def Let_def extends_same)
  then have x: "extends hand sent w w1" "extends hand sent w w2" "extends hand sent w w3"
    using extends_calls(2) [OF 2] extends_calls(1) [OF 3] by (blast intro: extends_trans)+
  from assms 1 2 3 have "w' \<in> {w1, w2, w3}" unfolding keysign_step1_def
    by (auto split: option.splits sum.splits if_splits MsgType.splits)
  with x show ?thesis by auto
qed

lemma extends_keysign_step2:
  "keysign_step2 m T prep kd sd start w = (r, w') \<Longrightarrow> extends hand sent w w' \<and>
     (\<forall>ids. r = Returned (Inr ids) \<longrightarrow> ids = id_map (sorted_parties T (kss_SignPartyId start)))"
  by (auto simp: keysign_step2_def Let_def extends_step split: option.splits)

text \<open>The signing parties of a run: those of the start message, none before it has come.\<close>

definition ks_start_parties ::
    "'s Manager \<Rightarrow> ('pre, 'sd, 'pm, 'pk) TssLib \<Rightarrow> 's env \<Rightarrow> ('s, 'pm) world \<Rightarrow> PartyID list" where
  "ks_start_parties m T E w =
     (case keysign_prepare E w of
        (Some (Inr prep), w) \<Rightarrow>
          (case keysign_step1 m T E prep (set_handler (keysign_protocol (ksp_SessionId prep))
                (KeySignSessionHandler (ksp_SessionId prep)) w) of
             (Returned (Inr (SignStart keyData saveData start)), w) \<Rightarrow> kss_SignPartyId start
           | _ \<Rightarrow> [])
      | _ \<Rightarrow> [])"

lemma extends_handleKeySign0:
  assumes "handleKeySign0 m T E prep pr evs w = (r, w')"
    and parties: "parties = (case keysign_step1 m T E prep w of
        (Returned (Inr (SignStart keyData saveData start)), w) \<Rightarrow> kss_SignPartyId start | _ \<Rightarrow> [])"
  shows "extends (hands_on T (id_map (sorted_parties T parties)) evs) (sends_out (self_id m) parties evs) w w'"
    (is "extends ?hand ?sent w w'")
proof -
  obtain r1 w1 where 1: "keysign_step1 m T E prep w = (r1, w1)" by fastforce
  note x1 = extends_keysign_step1 [OF 1, of ?hand ?sent]
  show ?thesis
  proof (cases "\<exists>kd sd start. r1 = Returned (Inr (SignStart kd sd start))")
    case True
    then obtain kd sd start where r1: "r1 = Returned (Inr (SignStart kd sd start))" by blast
    obtain r2 w2 where 2: "keysign_step2 m T prep kd sd start w1 = (r2, w2)" by fastforce
    note x2 = extends_keysign_step2 [OF 2, of ?hand ?sent]
    have ps: "parties = kss_SignPartyId start" by (simp add: parties 1 r1)
    have loop: "extends ?hand ?sent w2 w'"
      if "keysign_loop m T E start pr (id_map (sorted_parties T (kss_SignPartyId start))) evs w2 = (r, w')"
      by (rule extends_keysign_loop [OF _ _ that]) (auto simp: hands_on_def sends_out_def ps)
    consider "w' = w2" | "keysign_loop m T E start pr (id_map (sorted_parties T (kss_SignPartyId start))) evs w2 = (r, w')"
      using assms(1) 1 2 r1 x2 by (auto simp: handleKeySign0_def split: outcome.splits sum.splits)
    then show ?thesis using x1 x2 loop by cases (blast intro: extends_trans)+
  next
    case False
    with assms(1) 1 have "w' = w1"
      by (auto simp: handleKeySign0_def split: outcome.splits sum.splits sign_decision.splits)
    with x1 show ?thesis by simp
  qed
qed

lemma extends_handleKeySign:
  assumes "keysign_prepare E w = (Some (Inr prep), w1)" and run: "handleKeySign m T E evs w = (r, c, w')"
    and parties: "parties = ks_start_parties m T E w"
  shows "extends (hands_on T (id_map (sorted_parties T parties)) evs) (sends_out (self_id m) parties evs) w w'"
    (is "extends ?hand ?sent w w'")
proof -
  let ?p = "keysign_protocol (ksp_SessionId prep)"
  let ?w1 = "set_handler ?p (KeySignSessionHandler (ksp_SessionId prep)) w1"
  have first: "extends ?hand ?sent w ?w1"
    using assms(1) by (auto simp: keysign_prepare_def recv_main_def extends_same split: option.splits sum.splits)
  obtain r2 w2 where 2: "handleKeySign0 m T E prep ?p evs ?w1 = (r2, w2)" by fastforce
  have x2: "extends ?hand ?sent w w2"
    by (rule extends_trans [OF first extends_handleKeySign0 [OF 2]])
      (simp add: parties ks_start_parties_def assms(1))
  show ?thesis
  proof (cases "r = Waiting")
    case True
    with run assms(1) 2 have "w' = w2"
      by (auto simp: handleKeySign_def Let_def split: outcome.splits prod.splits)
    with x2 show ?thesis by simp
  next
    case False
    from assms(1) run False show ?thesis
    proof (rule handleKeySign_session)
      fix r3 w3 w4 ch
      assume 3: "handleKeySign0 m T E prep ?p evs ?w1 = (r3, w3)"
        and cl: "keysign_cleanup ?p (make_chan 0) w4 = (ch, w')"
        and "(\<exists>msg. r3 = Panicked msg \<and> r = Panicked msg \<and> w4 = w3) \<or>
          (\<exists>res e. r3 = Returned res \<and> r = Returned () \<and> send_main E (TssP2PMsg_KeySignFinishMsg
            (case res of Inl err \<Rightarrow> ksf_failed (err_text err) | Inr f \<Rightarrow> f)) w3 = (e, w4))"
      then have "extends ?hand ?sent w3 w4" by (auto dest: extends_calls(2))
      moreover have "w_trace w' = w_trace w4 @ [ClosedMain]"
        using cl by (auto simp: keysign_cleanup_def)
      then have "extends ?hand ?sent w4 w'" by (simp add: extends_def)
      ultimately show ?thesis using x2 2 3 by (auto intro: extends_trans)
    qed
  qed
qed

section \<open>The nodes of one session\<close>

text \<open>
  The run of a handler at one node: its manager, the library and environment it met, the events of
  its loop, the world before and after.
\<close>

record ('s, 'pre, 'sd, 'pm, 'pk, 'end) session_run =
  sr_m :: "'s Manager"
  sr_T :: "('pre, 'sd, 'pm, 'pk) TssLib"
  sr_E :: "'s env"
  sr_evs :: "'end lib_event list"
  sr_w :: "('s, 'pm) world"
  sr_w' :: "('s, 'pm) world"

abbreviation sr_id :: "('s, 'pre, 'sd, 'pm, 'pk, 'end) session_run \<Rightarrow> string" where
  "sr_id x \<equiv> self_id (sr_m x)"

text \<open>
  The network of a session: whatever the loop of a node receives on session streams was sent to
  this node by one of the nodes. It may be lost, repeated, delayed and reordered.
\<close>

definition carried :: "('s, 'pre, 'sd, 'pm, 'pk, 'end) session_run list \<Rightarrow> bool" where
  "carried nodes \<longleftrightarrow> (\<forall>x \<in> set nodes. \<forall>msg. ProcessMsg msg \<in> set (sr_evs x) \<longrightarrow>
     (\<exists>y \<in> set nodes. (sr_id x, msg) \<in> set (session_msgs (sr_w' y))))"

text \<open>
  The local party of the library at \<open>y\<close> emitted \<open>pm\<close> for \<open>x\<close>: \<open>x\<close> is one of the recipients the
  library named (or all others), and what was parsed at \<open>x\<close> are the bytes of \<open>y\<close>, with the
  broadcast flag of the message, under the party id of \<open>y\<close> in the table of \<open>x\<close>.
\<close>

definition emitted_for ::
    "(('s, 'pre, 'sd, 'pm, 'pk, 'end) session_run \<Rightarrow> PartyID list) \<Rightarrow>
     ('s, 'pre, 'sd, 'pm, 'pk, 'end) session_run \<Rightarrow> ('s, 'pre, 'sd, 'pm, 'pk, 'end) session_run \<Rightarrow>
     'pm \<Rightarrow> bool" where
  "emitted_for members y x pm \<longleftrightarrow>
     (\<exists>om bytes p. OutCh om \<in> set (sr_evs y) \<and> om_WireBytes om = Inr bytes \<and>
        sr_id x \<in> pid_Id ` set (recipients (sr_id y) (members y) om) \<and>
        p \<in> set (sorted_parties (sr_T x) (members x)) \<and> tpid_Id p = sr_id y \<and>
        ParseWireMessage (sr_T x) bytes p (om_To om = None) = Inr pm)"

lemma session_msgs_trace:
  "(q, m) \<in> set (session_msgs w) \<longleftrightarrow> (\<exists>e. SentSession q m e \<in> set (w_trace w))"
proof -
  have "(q, m) \<in> set (session_msg f) \<longleftrightarrow> (\<exists>e. f = SentSession q m e)" for f :: "'b eff"
    by (cases f) auto
  then show ?thesis by (auto simp: session_msgs_def)
qed

lemma extends_whole:
  assumes "extends hand sent w w'" "w_trace w = []"
  shows "Updated pm \<in> set (w_trace w') \<Longrightarrow> hand pm"
    and "(q, m) \<in> set (session_msgs w') \<Longrightarrow> sent q m"
  using assms by (auto simp: extends_def session_msgs_trace list_all_iff)

text \<open>The contract of a handler with the session it takes part in.\<close>

locale session_node =
  fixes run :: "('s, 'pre, 'sd, 'pm, 'pk, 'end) session_run \<Rightarrow> bool"
    and members :: "('s, 'pre, 'sd, 'pm, 'pk, 'end) session_run \<Rightarrow> PartyID list"
  assumes effects: "run x \<Longrightarrow>
      extends (hands_on (sr_T x) (id_map (sorted_parties (sr_T x) (members x))) (sr_evs x))
        (sends_out (sr_id x) (members x) (sr_evs x)) (sr_w x) (sr_w' x)"
    and fresh: "run x \<Longrightarrow> w_trace (sr_w x) = []"
begin

lemma authentic:
  assumes runs: "\<forall>x \<in> set nodes. run x" and net: "carried nodes" and x: "x \<in> set nodes"
    and pm: "Updated pm \<in> set (w_trace (sr_w' x))"
  shows "\<exists>y \<in> set nodes. emitted_for members y x pm"
proof -
  have run_x: "run x" using runs x by blast
  from extends_whole(1) [OF effects [OF run_x] fresh [OF run_x] pm]
  obtain msg u p where msg: "ProcessMsg msg \<in> set (sr_evs x)"
    and u: "tp_MsgType msg = Some (TssP2PMsg_ProcessUpdateMsg u)"
    and p: "id_map (sorted_parties (sr_T x) (members x)) (pum_FromPartyId u) = Some p"
    and parse: "ParseWireMessage (sr_T x) (pum_MsgWireBytes u) p (pum_IsBroadcast u) = Inr pm"
    by (auto simp: hands_on_def)
  from net x msg obtain y where y: "y \<in> set nodes" and sent: "(sr_id x, msg) \<in> set (session_msgs (sr_w' y))"
    unfolding carried_def by blast
  have run_y: "run y" using runs y by blast
  from extends_whole(2) [OF effects [OF run_y] fresh [OF run_y] sent] u
  obtain om bytes where om: "OutCh om \<in> set (sr_evs y)" "om_WireBytes om = Inr bytes"
    "sr_id x \<in> pid_Id ` set (recipients (sr_id y) (members y) om)"
    and m: "msg = p2p_msg (update_msg (sr_id y) bytes om)"
    by (auto simp: sends_out_def go_simps)
  from m u have "pum_FromPartyId u = sr_id y" "pum_MsgWireBytes u = bytes"
    "pum_IsBroadcast u = (om_To om = None)"
    by (auto simp: update_msg_def go_simps)
  with om p parse id_map_Some [OF p] have "emitted_for members y x pm"
    unfolding emitted_for_def by auto
  with y show ?thesis by blast
qed

end

text \<open>A run of key generation, and of signing, at a node that has read a prepare message.\<close>

definition kg_run :: "('s, 'pre, 'sd, 'pm, 'pk, 'sd) session_run \<Rightarrow> bool" where
  "kg_run x \<longleftrightarrow> w_trace (sr_w x) = [] \<and>
     (\<exists>prep w1. keygen_prepare (sr_E x) (sr_w x) = (Some (Inr prep), w1)) \<and>
     snd (handleKeyGen (sr_m x) (sr_T x) (sr_E x) (sr_evs x) (sr_w x)) = sr_w' x"

definition kg_members :: "('s, 'pre, 'sd, 'pm, 'pk, 'sd) session_run \<Rightarrow> PartyID list" where
  "kg_members x = (case fst (keygen_prepare (sr_E x) (sr_w x)) of
     Some (Inr prep) \<Rightarrow> kgp_AllPartyId prep | _ \<Rightarrow> [])"

definition ks_run :: "('s, 'pre, 'sd, 'pm, 'pk, SignatureData) session_run \<Rightarrow> bool" where
  "ks_run x \<longleftrightarrow> w_trace (sr_w x) = [] \<and>
     (\<exists>prep w1. keysign_prepare (sr_E x) (sr_w x) = (Some (Inr prep), w1)) \<and>
     snd (snd (handleKeySign (sr_m x) (sr_T x) (sr_E x) (sr_evs x) (sr_w x))) = sr_w' x"

definition ks_members :: "('s, 'pre, 'sd, 'pm, 'pk, SignatureData) session_run \<Rightarrow> PartyID list" where
  "ks_members x = ks_start_parties (sr_m x) (sr_T x) (sr_E x) (sr_w x)"

interpretation kg_session: session_node kg_run kg_members
proof
  fix x :: "('a, 'b, 'c, 'd, 'e, 'c) session_run"
  assume x: "kg_run x"
  then show "w_trace (sr_w x) = []" by (simp add: kg_run_def)
  from x obtain prep w1 where prep: "keygen_prepare (sr_E x) (sr_w x) = (Some (Inr prep), w1)"
    by (auto simp: kg_run_def)
  obtain r w' where run: "handleKeyGen (sr_m x) (sr_T x) (sr_E x) (sr_evs x) (sr_w x) = (r, w')" by fastforce
  with x have "w' = sr_w' x" by (simp add: kg_run_def)
  with extends_handleKeyGen [OF prep run] prep
  show "extends (hands_on (sr_T x) (id_map (sorted_parties (sr_T x) (kg_members x))) (sr_evs x))
        (sends_out (sr_id x) (kg_members x) (sr_evs x)) (sr_w x) (sr_w' x)"
    by (simp add: kg_members_def)
qed

interpretation ks_session: session_node ks_run ks_members
proof
  fix x :: "('a, 'b, 'c, 'd, 'e, SignatureData) session_run"
  assume x: "ks_run x"
  then show "w_trace (sr_w x) = []" by (simp add: ks_run_def)
  from x obtain prep w1 where prep: "keysign_prepare (sr_E x) (sr_w x) = (Some (Inr prep), w1)"
    by (auto simp: ks_run_def)
  obtain r c w' where run: "handleKeySign (sr_m x) (sr_T x) (sr_E x) (sr_evs x) (sr_w x) = (r, c, w')"
    by (metis prod.exhaust)
  with x have "w' = sr_w' x" by (simp add: ks_run_def)
  with extends_handleKeySign [OF prep run refl]
  show "extends (hands_on (sr_T x) (id_map (sorted_parties (sr_T x) (ks_members x))) (sr_evs x))
        (sends_out (sr_id x) (ks_members x) (sr_evs x)) (sr_w x) (sr_w' x)"
    by (simp add: ks_members_def)
qed

section \<open>Properties\<close>

text \<open>
  C8. Key generation among nodes of this program: when all that arrives on the session streams was
  sent by the nodes of the session, every message handed to the local party of a node was emitted
  by the local party of a node, for this node, and reaches it with the bytes, the broadcast flag and
  the sender it was emitted with, whatever the network loses, repeats and reorders.
\<close>

theorem keygen_messages_authentic:
  assumes "\<forall>x \<in> set nodes. kg_run x" and "carried nodes" and "x \<in> set nodes"
    and "Updated pm \<in> set (w_trace (sr_w' x))"
  shows "\<exists>y \<in> set nodes. emitted_for kg_members y x pm"
  using assms by (rule kg_session.authentic)

definition demo_out :: out_msg where
  "demo_out = \<lparr>om_WireBytes = Inr [9], om_To = None\<rparr>"

definition demo_kg_node :: "string \<Rightarrow> string lib_event list \<Rightarrow>
    (memdb, unit, string, bytes, bytes, string) session_run" where
  "demo_kg_node i evs =
     (let m = (DemoManager True)\<lparr>m_LocalPartyId := party i\<rparr>
      in \<lparr>sr_m = m, sr_T = DemoTss, sr_E = DemoEnv demo_prepare, sr_evs = evs, sr_w = DemoWorld [],
          sr_w' = snd (handleKeyGen m DemoTss (DemoEnv demo_prepare) evs (DemoWorld []))\<rparr>)"

definition demo_session :: "(string \<Rightarrow> 'end lib_event list \<Rightarrow> 'run) \<Rightarrow> 'run list" where
  "demo_session node = [node ''A'' [OutCh demo_out],
     node ''B'' [ProcessMsg (p2p_msg (update_msg ''A'' [9] demo_out))]]"

lemma demo_kg_session:
  "\<forall>x \<in> set (demo_session demo_kg_node). kg_run x" "carried (demo_session demo_kg_node)"
  "Updated [9] \<in> set (w_trace (sr_w' (demo_session demo_kg_node ! 1)))"
proof -
  have sent: "session_msgs (sr_w' (demo_kg_node ''A'' [OutCh demo_out])) =
      [(''B'', p2p_msg (update_msg ''A'' [9] demo_out))]" by code_simp
  show "\<forall>x \<in> set (demo_session demo_kg_node). kg_run x"
    by (simp add: demo_session_def demo_kg_node_def kg_run_def demo_prepare_run Let_def)
      (simp add: DemoWorld_def)
  show "carried (demo_session demo_kg_node)"
    using sent by (simp add: demo_session_def carried_def)
      (simp add: demo_kg_node_def Let_def party_def PartyID_GetId_def)
  show "Updated [9] \<in> set (w_trace (sr_w' (demo_session demo_kg_node ! 1)))" by code_simp
qed

theorem keygen_messages_authentic_witness:
  "\<exists>y \<in> set (demo_session demo_kg_node). emitted_for kg_members y (demo_session demo_kg_node ! 1) [9]"
proof -
  have "demo_session demo_kg_node ! 1 \<in> set (demo_session demo_kg_node)" by (simp add: demo_session_def)
  from keygen_messages_authentic [OF demo_kg_session(1,2) this demo_kg_session(3)] show ?thesis .
qed

text \<open>
  The same of signing: every message handed to the local party of a signing node was emitted by
  the local party of a signing node, for this node, with these bytes, this broadcast flag and this
  sender.
\<close>

corollary keysign_messages_authentic:
  assumes "\<forall>x \<in> set nodes. ks_run x" and "carried nodes" and "x \<in> set nodes"
    and "Updated pm \<in> set (w_trace (sr_w' x))"
  shows "\<exists>y \<in> set nodes. emitted_for ks_members y x pm"
  using assms by (rule ks_session.authentic)

text \<open>A store that always answers with one ready record is enough for a node that signs.\<close>

definition ReadyStore :: "unit LocalStorage" where
  "ReadyStore = \<lparr>ls_GetKeyDataListByKeyId = (\<lambda>_ _. Inr [readyKeyData ''k'' ''s'']),
     ls_GetKeyDataByKeyIdAndKeySessionId = (\<lambda>_ _ _. Inr (Some (readyKeyData ''k'' ''s''))),
     ls_SetKeyData = (\<lambda>_ _. (None, ())),
     ls_DeleteKeyData = (\<lambda>_ _ _. (None, ()))\<rparr>"

definition demo_ks_node :: "string \<Rightarrow> SignatureData lib_event list \<Rightarrow>
    (unit, unit, string, bytes, bytes, SignatureData) session_run" where
  "demo_ks_node i evs =
     (let m = NewManager ReadyStore (party i)
            \<lparr>v_KeyGenValidate = (\<lambda>_ _ _ _. None), v_KeySignValidate = (\<lambda>_ _ _ _. Inr [])\<rparr> True;
          E = \<lparr>e_recv = e_recv SignEnv, e_send = e_send SignEnv, e_newstream = e_newstream SignEnv,
            e_sess_send = e_sess_send SignEnv, e_sess_close = e_sess_close SignEnv,
            e_now = e_now SignEnv, e_other = (\<lambda>_ s. s), e_type_text = e_type_text SignEnv\<rparr>;
          w = \<lparr>w_tick = 0, w_store = (), w_handlers = Map.empty, w_trace = []\<rparr>
      in \<lparr>sr_m = m, sr_T = SignTss, sr_E = E, sr_evs = evs, sr_w = w,
          sr_w' = snd (snd (handleKeySign m SignTss E evs w))\<rparr>)"

lemmas demo_ks_eval = demo_session_def demo_ks_node_def demo_out_def handleKeySign_def keysign_prepare_def
  recv_main_def SignEnv_def DemoEnv_def go_simps handleKeySign0_def keysign_step1_def read_key_def
  getKeyDataByKeyIdAndKeySessionIdFromStorage_def ReadyStore_def NewManager_def SignTss_def readyKeyData_def
  send_main_def step_def keysign_step2_def party_def DemoTss_def id_map_def sorted_parties_def
  convertToTssPartyId_def PartyID_GetId_def update_msg_def set_handler_def demo_sign_prepare_def
  recipients_def new_stream_def send_session_def close_session_def session_msgs_def Let_def

lemma demo_ks_session:
  "\<forall>x \<in> set (demo_session demo_ks_node). ks_run x" "carried (demo_session demo_ks_node)"
  "Updated [9] \<in> set (w_trace (sr_w' (demo_session demo_ks_node ! 1)))"
proof -
  have sent: "session_msgs (sr_w' (demo_ks_node ''A'' [OutCh demo_out])) =
      [(''B'', p2p_msg (update_msg ''A'' [9] demo_out))]" by (simp add: demo_ks_eval)
  show "\<forall>x \<in> set (demo_session demo_ks_node). ks_run x"
    by (simp add: demo_session_def demo_ks_node_def ks_run_def keysign_prepare_def recv_main_def
        SignEnv_def go_simps Let_def)
  show "carried (demo_session demo_ks_node)"
    using sent by (simp add: demo_session_def carried_def)
      (simp add: demo_ks_node_def Let_def NewManager_def party_def PartyID_GetId_def)
  show "Updated [9] \<in> set (w_trace (sr_w' (demo_session demo_ks_node ! 1)))"
    by (simp add: demo_ks_eval)
qed

corollary keysign_messages_authentic_witness:
  "\<exists>y \<in> set (demo_session demo_ks_node). emitted_for ks_members y (demo_session demo_ks_node ! 1) [9]"
proof -
  have "demo_session demo_ks_node ! 1 \<in> set (demo_session demo_ks_node)" by (simp add: demo_session_def)
  from keysign_messages_authentic [OF demo_ks_session(1,2) this demo_ks_session(3)] show ?thesis .
qed

end
