(* ===== verification/Spec2Isabelle.thy ===== *)
theory Spec2Isabelle
  imports ComponentProps Composition KeyGenCoordEnd KeyGenVote KeySignQuorum KeyTypes ProtoReset Server
    Service Sessions
begin

text \<open>
  A model of the threshold-signature server: a node that generates keys together with other nodes,
  keeps its shares in a LevelDB store, and signs with them when a REST service has the request
  registered.

  \<^bold>\<open>The program.\<close> \<open>main.go\<close> starts the store, the libp2p communicator, the manager and the gRPC
  server. A gRPC call makes one node the coordinator of a session: \<open>Manager.KeyGen\<close> and
  \<open>Manager.KeySign\<close> open a stream to every party, collect their answers in goroutines and report
  the result. On every party (the coordinator's own, over a local stream) \<open>handleKeyGen\<close> and
  \<open>handleKeySign\<close> answer that stream, exchange protocol messages with the other parties over
  session streams, drive tss-lib and read or change the key records. The validator asks the REST
  service which parties and which sign requests are legitimate.

  \<^bold>\<open>Theories and code.\<close>
    \<^item> \<open>Prelude\<close>: Go's integers and bytes as words, errors, the ways a goroutine ends
      (\<open>outcome\<close>), channels, timestamps, list lemmas. \<open>Format\<close>: UTF-8 and \<open>fmt.Sprintf\<close> without
      operands. \<open>TssLib\<close>: tss-lib and btcec as a parameter, \<open>ecdsa.Verify\<close> and compressed points.
    \<^item> \<open>Proto\<close>: \<open>tss/tss.pb.go\<close>, every message with its getters and the oneof; \<open>ProtoReset\<close>: their
      \<open>Reset\<close>.
    \<^item> \<open>Storage\<close>: \<open>tss/tss_storage.go\<close> over a database and a codec that are parameters (locales
      \<open>tm_db\<close>, \<open>kd_codec\<close>); the contract \<open>local_storage\<close> is proved of it (\<open>leveldb\<close>). \<open>Instance\<close>: an
      in-memory database and a codec that meet the hypotheses.
    \<^item> \<open>Streams\<close>, \<open>Framing\<close>: the two kinds of \<open>P2PStream\<close> of \<open>tss/tss_p2p.go\<close>, both shown to be a
      \<open>msg_channel\<close>; \<open>InstanceMsg\<close>: a message codec. \<open>P2P\<close>: \<open>LibP2PManager\<close>.
    \<^item> \<open>Manager\<close>: \<open>tss/tss_manager.go\<close>. \<open>Lifecycle\<close>: the histories of store operations that the
      handlers of concurrent sessions can produce.
    \<^item> \<open>Validation\<close>, \<open>PrivKey\<close>: the package \<open>validator\<close>. The handlers' contract of a validator is the
      locale \<open>party_validator\<close>, interpreted on the model of \<open>validator.New\<close>.
    \<^item> \<open>Node\<close>, \<open>KeyGenNode\<close>, \<open>KeySignNode\<close> with \<open>KeyGenProps\<close>, \<open>KeySignProps\<close>: the handlers of
      \<open>tss/tss_keygen.go\<close> and \<open>tss/tss_keysign.go\<close>. A handler is a function of the world (store,
      registered handlers, trace of effects) and of an environment that answers each of its calls,
      the other goroutines' changes of the store included; statements are for all environments.
    \<^item> \<open>KeyGenCoord\<close>, \<open>KeyGenCoordProps\<close>, \<open>KeyGenCoordEnd\<close>: \<open>KeyGen\<close>. \<open>KeySignCoord\<close>, \<open>KeySignCoordInv\<close>,
      \<open>KeySignCoordProps\<close>: \<open>KeySign\<close>. A state holds the program counter of every goroutine, the
      channels, the map of ready streams and the messages sent; \<open>kg_act\<close> and \<open>ks_act\<close> are the steps,
      and reachability closes them under every order of steps. \<open>KeyGenVote\<close> and \<open>KeySignQuorum\<close>: what
      the two calls are for, a unanimous vote and the gathering of a quorum, as transition systems of
      a few rules, and the simulations by which the calls implement them.
    \<^item> \<open>KeyTypes\<close>: which fields of a key record may hold what in each status.
    \<^item> \<open>Sessions\<close>: the nodes of one session among themselves. The locale \<open>session_node\<close> is the
      contract of a handler with its session streams, interpreted on both handlers.
    \<^item> \<open>Server\<close>: \<open>main.go\<close>, with the start and stop of the store. \<open>Service\<close>: \<open>tss/tss_grpc.pb.go\<close>, the
      gRPC service with its client, its handlers and the manager as its server.
    \<^item> \<open>ComponentProps\<close>: properties of streams, store and validator. \<open>Composition\<close>: the coordinator
      with its streams answered by the handlers of the nodes. This theory: what holds of the whole.

  \<^bold>\<open>What the lemmas show.\<close> C1 and C2 are about the whole: a generated key is held by everybody, a
  signature stands for a quorum of checks. C3 to C5 are about the records of a node, under all
  interleavings of its sessions, and what a handler's answer says about its record. C6 and C7 are
  the refinements: the two calls of the coordinator implement a vote and the gathering of a quorum.
  C8 couples the sessions of several nodes, C9 gives the records a type. C10 to C17 are the main
  properties of the parts: when key generation succeeds, that signing starts with the right parties
  and uses its channels safely, that both calls end (after at most \<open>7 n + 1\<close> and \<open>10 n + 7\<close> steps) and
  where they can be stuck; the store refines a map (C12). C18 to C20 are about messages on a byte
  stream. C21 to C29 state functional behaviour: status changes, admission, lookups, dispatch, and what
  the validator accepts exactly. C30 to C39 state what goes wrong where the code lets it, on the model of the
  code as it is (C32 that key generation can succeed). C40 is about the start and end of the program.

  \<^bold>\<open>Bounds and fuel.\<close> Machine integers keep their width; statements about counting parties assume
  fewer than \<open>2 ^ 32\<close> of them, since the counters are of type \<open>int32\<close>. The only fuel is in
  \<open>fold_walk\<close> (the walk along the case variants of a rune): eight steps, twice the length of the
  longest orbit of \<open>unicode.SimpleFold\<close>. \<open>reconnect_until\<close>, which retries for ever, is a partial
  function with values in \<open>option\<close>; every other loop terminates with a measure. Streams that never
  answer are \<open>None\<close> or a step that is never taken.

  \<^bold>\<open>Hypotheses.\<close> \<open>leveldb\<close> (the database is a sorted map, decoding inverts encoding), \<open>p2p_codec\<close>
  (the same for messages), \<open>reencodes\<close> (a record that decodes can be encoded again when its strings
  are unchanged), \<open>others_ok\<close> (other goroutines change the store only by the manager's operations),
  \<open>store_reachable\<close> (the store began empty and has such a history). Each has an instance.

  \<^bold>\<open>Not modelled.\<close> Logging; gRPC itself and its reflection service; the protobuf runtime (reflection,
  descriptors, wire format), HTTP, JSON, libp2p, LevelDB, elliptic curves and the messages of
  tss-lib, which are parameters; the races inside tss-lib. In the handlers a write to a stream is
  taken to return. In \<open>Server\<close> the handlers that are still running at shutdown are not followed, and
  \<open>GracefulStop\<close> is taken to return. \<open>Composition\<close> lets each stream deliver a prefix of what the
  handler writes; \<open>Sessions\<close> lets the session streams lose, repeat and reorder messages.
  What the local parties of the library compute from the messages handed to them is tss-lib's.
\<close>

section \<open>Properties of the whole\<close>


definition NetCall :: kg_call where
  "NetCall = (DemoCall [])\<lparr>kx_request := \<lparr>kgq_KeyId = ''k'', kgq_Threshold = 1,
     kgq_AllPartyId = [party ''A'', party ''B'']\<rparr>\<rparr>"

definition net_key :: KeyGenFinishMsg where
  "net_key = \<lparr>kgf_IsSuccess = True, kgf_FailureReason = [], kgf_PublicKey = 3 # replicate 31 0 @ [7]\<rparr>"

definition net_keygen :: "kg_action list" where
  "net_keygen = [KGOpen 0 None, KGOpen 1 None, KGSend 1 None, KGSend 0 None,
     KGRecv 0 (Inr kg_ready), KGRecv 1 (Inr kg_ready), KGTakeReady 1, KGTakeReady 0,
     KGFinSend 0 None, KGFinSend 1 None, KGFinRecv 0 (Inr (kg_finish net_key)),
     KGFinRecv 1 (Inr (kg_finish net_key)), KGTakeFinish 1, KGTakeFinish 0]"

abbreviation "net_keygen_end \<equiv> kg_net_exec NetCall (\<lambda>_. [kg_ready, kg_finish net_key]) net_keygen
     (kg_init (Inr (kx_sessionId NetCall)) NetCall)"

lemma net_keygen_run: "net_keygen_end \<noteq> None \<and> kc_phase (the net_keygen_end) =
   KGReturned (Inr \<lparr>kgr_SessionId = ''s'', kgr_PublicKey = kgf_PublicKey net_key\<rparr>)"
  by code_simp

lemma net_keygen_out: "main_msgs (snd demo_keygen) = [kg_ready, kg_finish net_key]"
  using demo_keygen_run(2) by (simp add: net_key_def)

lemma net_keygen_node: "kg_node MemDB mem_inv DemoCodec NetCall (DemoManager True) DemoTss (DemoEnv demo_prepare)
    [EndCh ''x''] (DemoWorld []) (snd demo_keygen)"
  unfolding kg_node_def
  using demo_manager demo_world_reachable demo_others demo_main_msgs demo_prepare_run demo_keygen_run(1)
  by (auto simp: kg_prepare_msg_def NetCall_def DemoCall_def demo_prepare_def)


text \<open>
  C2. A signature stands for a quorum of checks. When the coordinator returns a signature, with
  every stream answered by the handler of a node that is not in dev mode, then more nodes than the
  threshold of the record vouched for the request: each has asked its service, which had the sign
  id as signed already or registered with this key id and message, and has read a ready record of
  the key. One of them ran the signing protocol to the end, and the response is its signature.
\<close>

theorem signature_needs_quorum:
  fixes w w' :: "nat \<Rightarrow> ('db, 'pm) world" and x :: ks_call
  assumes "leveldb D db_inv C" and "ks_net x (\<lambda>i. main_msgs (w' i)) s"
    and "sc_phase s = KSReturned (Inr resp)"
    and "\<forall>i < length (ks_parties x). ks_node D db_inv C U (H i) (url i) x (m i) (T i) (E i) (evs i) (w i) (w' i)"
  shows "\<exists>I \<subseteq> {..<length (ks_parties x)}. kd_Threshold (sx_keyData x) <s of_nat (card I) \<and>
    (\<forall>i \<in> I. ks_vouches D C U (H i) (url i) x (E i) (w i)) \<and>
    (\<exists>i \<in> I. \<exists>sig. EndCh sig \<in> set (evs i) \<and> resp = ks_response x (signature_finish sig))"
proof -
  note reach = ks_net_reach [OF assms(2)]
  note told = ks_told_net [OF assms(2)]
  from ks_ok_reach [OF reach] have n: "length (sc_prep s) = length (ks_parties x)" by (simp add: ks_ok_def Let_def)
  let ?I = "set (map snd (sc_map s))"
  from ks_map_ok_reach [OF reach] have map: "distinct (map snd (sc_map s))"
    "\<forall>i \<in> ?I. i < length (sc_prep s) \<and> sc_prep s ! i = SPDone True"
    by (auto simp: ks_map_ok_def)
  from ks_sign_ok_reach [OF reach] assms(3) obtain i f where
    f: "(i, SFDone (Some f)) \<in> set (sc_fin s)" "ksf_IsSuccess f" "resp = ks_response x f"
    by (fastforce simp: ks_sign_ok_def)
  from ks_sign_ok_reach [OF reach] f(1) have q: "quorum x (length (sc_map s))"
    "map fst (sc_fin s) = map snd (sc_map s)" by (auto simp: ks_sign_ok_def)
  have sub: "?I \<subseteq> {..<length (ks_parties x)}" using map(2) n by auto
  have card: "card ?I = length (sc_map s)" using distinct_card [OF map(1)] by simp
  have vouch: "ks_vouches D C U (H i) (url i) x (E i) (w i)" if "i \<in> ?I" for i
  proof (rule ks_node_ready [OF assms(1)])
    from that sub assms(4) show "ks_node D db_inv C U (H i) (url i) x (m i) (T i) (E i) (evs i) (w i) (w' i)" by blast
    from told map(2) that show "nth_reply (main_msgs (w' i)) 0 (Inr ks_ready)" unfolding ks_ready_told_def by blast
  qed
  have "i \<in> ?I" using f(1) unfolding q(2) [symmetric] by force
  moreover have "\<exists>sig. EndCh sig \<in> set (evs i) \<and> f = signature_finish sig"
  proof (rule ks_node_signature)
    from \<open>i \<in> ?I\<close> sub assms(4) show "ks_node D db_inv C U (H i) (url i) x (m i) (T i) (E i) (evs i) (w i) (w' i)" by blast
    from told f(1) show "nth_reply (main_msgs (w' i)) 1 (Inr (ks_finish f))" by (fastforce simp: ks_fin_told_def)
  qed (rule f(2))
  ultimately show ?thesis
    using sub card vouch q(1) f(3) by (intro exI [of _ ?I]) (auto simp: quorum_def)
qed

definition NetSign :: ks_call where
  "NetSign = (DemoSignCall [''A'', ''B''] 1)\<lparr>sx_request := \<lparr>ksq_KeyId = ''k'', ksq_SignMsg = [65, 255],
     ksq_SignId = ''i''\<rparr>, sx_keyData := (readyKeyData ''k'' ''s'')\<lparr>kd_AllPartyId := [party ''A'', party ''B'']\<rparr>,
     sx_sessionId := ''t''\<rparr>"

abbreviation "net_sign_end \<equiv> ks_net_exec NetSign (\<lambda>_. [ks_ready, ks_finish demo_result])
     (demo_prepared 1 @ demo_prepared 0 @ [KSAllPrepared, KSTakeReady, KSTakeReady] @ demo_signed 1 @
      demo_signed 0 @ [KSAllFinished, KSTakeFinish])
     (ks_init NetSign)"

lemma net_sign_run: "net_sign_end \<noteq> None \<and> sc_phase (the net_sign_end) =
   KSReturned (Inr (ks_response NetSign demo_result))"
  by code_simp

lemma demo_result_finish: "signature_finish demo_signature = demo_result"
  by (simp add: signature_finish_def demo_signature_def demo_result_def)

lemma net_sign_node:
  assumes "demo_keysign = (r, c, w')"
  shows "ks_node MemDB mem_inv DemoCodec DemoUnicode DemoHttp ''u'' NetSign (DemoManager False) SignTss SignEnv
     [EndCh demo_signature] (DemoWorld (demo_ready ''k'' ''s'')) w'"
proof -
  have "store_reachable MemDB mem_inv DemoCodec (w_store (DemoWorld (demo_ready ''k'' ''s'')))"
    using demo_facts(6) [of "''k''"] by (simp add: w_store_demo ascii_def)
  moreover have "others_ok demoLS SignEnv"
    unfolding others_ok_def by (simp add: SignEnv_def DemoEnv_def) (blast intro: run_nil)
  moreover have "sd_json_Unmarshal SignTss [] = Inl (Errorf ''unexpected end of JSON input'')"
    by (simp add: SignTss_def)
  moreover have "m_validator (DemoManager False) = New DemoUnicode DemoHttp ''u''" "\<not> m_dev (DemoManager False)"
    by (simp_all add: DemoManager_def NewManager_def)
  moreover have "p2p_msg (TssP2PMsg_KeySignPrepareMsg demo_sign_prepare) = ks_prepare_msg NetSign"
    by (simp add: ks_prepare_msg_def NetSign_def demo_sign_prepare_def DemoSignCall_def readyKeyData_def
        pendingKeyData_def)
  ultimately show ?thesis
    unfolding ks_node_def using assms demo_manager sign_prepare_run demo_main_msgs by metis
qed

theorem signature_needs_quorum_witness:
  "\<exists>I \<subseteq> {0, 1 :: nat}. 1 <s (of_nat (card I) :: int32) \<and> I \<noteq> {} \<and>
     ks_vouches MemDB DemoCodec DemoUnicode DemoHttp ''u'' NetSign SignEnv (DemoWorld (demo_ready ''k'' ''s'') :: (memdb, bytes) world)"
proof -
  obtain c w' where run: "demo_keysign = (Returned (), c, w')"
    and out: "main_msgs w' = [ks_ready, ks_finish (signature_finish demo_signature)]"
    using demo_keysign_run by blast
  have n: "length (ks_parties NetSign) = 2"
    by (simp add: NetSign_def DemoSignCall_def ks_parties_def go_simps)
  obtain s where s: "net_sign_end = Some s" using net_sign_run by auto
  have net: "ks_net NetSign (\<lambda>i. main_msgs w') s"
    using ks_net_exec_net [OF s ks_net_start] unfolding out demo_result_finish .
  have res: "sc_phase s = KSReturned (Inr (ks_response NetSign demo_result))"
    using net_sign_run s by simp
  have "\<forall>i < length (ks_parties NetSign). ks_node MemDB mem_inv DemoCodec DemoUnicode DemoHttp ''u'' NetSign
      (DemoManager False) SignTss SignEnv [EndCh demo_signature] (DemoWorld (demo_ready ''k'' ''s'')) w'"
    using net_sign_node [OF run] by blast
  from signature_needs_quorum [OF demo_leveldb net res this] obtain I where
    I: "I \<subseteq> {..<length (ks_parties NetSign)}" "kd_Threshold (sx_keyData NetSign) <s of_nat (card I)"
      "\<forall>i \<in> I. ks_vouches MemDB DemoCodec DemoUnicode DemoHttp ''u'' NetSign SignEnv
         (DemoWorld (demo_ready ''k'' ''s'') :: (memdb, bytes) world)" "I \<noteq> {}"
    by blast
  have "{..<2} = {0, 1 :: nat}" by auto
  moreover have "kd_Threshold (sx_keyData NetSign) = 1"
    by (simp add: NetSign_def readyKeyData_def pendingKeyData_def)
  ultimately show ?thesis using I n by auto
qed

end
